(* ===== verification/Prelude.thy ===== *)
theory Prelude
  imports Main "HOL-Library.Word" "HOL-Library.AList"
begin

unbundle bit_operations_syntax

text \<open>
  Shared vocabulary of the development: the outcome of a Go call, state passing with
  early return, the errors of the repository with their wrapping, machine integers, and
  the generic lemmas the component theories use.

  A Go function that returns \<open>(v, error)\<close> and may panic has one of three outcomes:
  \<open>Ok v\<close>, \<open>Err e\<close> (the error it returned) or \<open>Panic\<close> (a run-time panic: an index out of
  range, a nil dereference, an assignment to a nil map).
\<close>

named_theorems go_simps \<open>equations of the outcome and state monads\<close>
named_theorems loop_intros \<open>invariant rules of the loops\<close>

section \<open>Errors\<close>

text \<open>
  The sentinel errors of the packages (\<open>errors.New\<close> in the various \<open>errors.go\<close>), errors built
  from a message (\<open>fmt.Errorf\<close> without \<open>%w\<close>), errors that wrap another (\<open>%w\<close>), and
  errors of libraries that are not part of the repository.
\<close>

datatype go_error =
    ErrNotFound | ErrAlreadySpent | ErrBlockHashNotFound | ErrInconsistenceState
  | ErrInvalidStorageKeyFormat
  | ErrNoDiff | ErrNextBlockTooFar | ErrSpendingOutputNotFound
  | ErrBlockAlreadyStored | ErrInvalidBase58Address
  | ErrMigrationIDAlreadySet | ErrMigrationIDNotSet | ErrMigrationNotInited
  | ErrNoKeysMore | ErrChainstateNotFound | ErrNoNegativePlaces
  | ErrRollback | ErrAlreadyCommitted
  | ErrInvalidBlockHeadersBufferSize | ErrInvalidConcurrentBlocksDownloadLimit
  | ErrBlockNotFound | ErrBadStatusCode | ErrUnknownResponseType | ErrNodeHostNotSpecified
  | RedisNil | LevelDBNotFound | FileNotExist | EOF
  | Foreign string
  | Msg string
  | Wrap string go_error

text \<open>\<open>errors.Is\<close>: the target is the error itself or one it wraps.\<close>

fun errors_is :: "go_error \<Rightarrow> go_error \<Rightarrow> bool" where
  "errors_is (Wrap m e) t = (Wrap m e = t \<or> errors_is e t)"
| "errors_is e t = (e = t)"

lemma errors_is_refl [simp]: "errors_is e e"
  by (cases e) auto

section \<open>Outcomes and state\<close>

datatype 'a outcome = Ok 'a | Err go_error | Panic

fun bindO :: "'a outcome \<Rightarrow> ('a \<Rightarrow> 'b outcome) \<Rightarrow> 'b outcome" where
  "bindO (Ok a) f = f a"
| "bindO (Err e) f = Err e"
| "bindO Panic f = Panic"

fun wrapO :: "string \<Rightarrow> 'a outcome \<Rightarrow> 'a outcome" where
  "wrapO m (Err e) = Err (Wrap m e)"
| "wrapO m r = r"

lemma bindO_Ok_iff: "bindO m f = Ok b \<longleftrightarrow> (\<exists>a. m = Ok a \<and> f a = Ok b)"
  by (cases m) auto

lemma wrapO_Ok_iff [simp]: "wrapO m r = Ok a \<longleftrightarrow> r = Ok a"
  by (cases r) auto

lemma wrapO_Panic_iff [simp]: "wrapO m r = Panic \<longleftrightarrow> r = Panic"
  by (cases r) auto

lemma wrapO_eq_sym [simp]: "Ok a = wrapO m r \<longleftrightarrow> r = Ok a" "Panic = wrapO m r \<longleftrightarrow> r = Panic"
  by (cases r; auto)+

text \<open>A loop that collects one result per element and ends at the first error.\<close>

fun mapO :: "('a \<Rightarrow> 'b outcome) \<Rightarrow> 'a list \<Rightarrow> 'b list outcome" where
  "mapO f [] = Ok []"
| "mapO f (x # xs) = bindO (f x) (\<lambda>y. bindO (mapO f xs) (\<lambda>ys. Ok (y # ys)))"

text \<open>A loop that threads a state through its iterations.\<close>

fun foldO :: "('s \<Rightarrow> 'x \<Rightarrow> 's outcome) \<Rightarrow> 's \<Rightarrow> 'x list \<Rightarrow> 's outcome" where
  "foldO f s [] = Ok s"
| "foldO f s (x # xs) = bindO (f s x) (\<lambda>s. foldO f s xs)"

text \<open>
  A call that acts on the outside world (the key-value server, the file system) takes the
  world and returns the outcome and the new world.
\<close>

type_synonym ('w, 'a) st = "'w \<Rightarrow> 'a outcome \<times> 'w"

definition retS :: "'a \<Rightarrow> ('w, 'a) st" where
  "retS a = (\<lambda>w. (Ok a, w))"

definition failS :: "go_error \<Rightarrow> ('w, 'a) st" where
  "failS e = (\<lambda>w. (Err e, w))"

definition panicS :: "('w, 'a) st" where
  "panicS = (\<lambda>w. (Panic, w))"

definition liftO :: "'a outcome \<Rightarrow> ('w, 'a) st" where
  "liftO r = (\<lambda>w. (r, w))"

definition bindS :: "('w, 'a) st \<Rightarrow> ('a \<Rightarrow> ('w, 'b) st) \<Rightarrow> ('w, 'b) st" where
  "bindS m f = (\<lambda>w. case m w of
       (Ok a, w') \<Rightarrow> f a w'
     | (Err e, w') \<Rightarrow> (Err e, w')
     | (Panic, w') \<Rightarrow> (Panic, w'))"

definition thenS :: "('w, 'a) st \<Rightarrow> ('w, 'b) st \<Rightarrow> ('w, 'b) st" where
  "thenS m n = bindS m (\<lambda>_. n)"

text \<open>\<open>if err != nil { return fmt.Errorf("...: %w", err) }\<close> around a call.\<close>

definition wrapS :: "string \<Rightarrow> ('w, 'a) st \<Rightarrow> ('w, 'a) st" where
  "wrapS m c = (\<lambda>w. case c w of (r, w') \<Rightarrow> (wrapO m r, w'))"

text \<open>\<open>if err != nil { return fmt.Errorf("...") }\<close>: the cause is dropped.\<close>

definition maskS :: "go_error \<Rightarrow> ('w, 'a) st \<Rightarrow> ('w, 'a) st" where
  "maskS e c = (\<lambda>w. case c w of (Err _, w') \<Rightarrow> (Err e, w') | (r, w') \<Rightarrow> (r, w'))"

text \<open>A call whose error the caller inspects instead of returning it.\<close>

definition tryS :: "('w, 'a) st \<Rightarrow> ('w, go_error + 'a) st" where
  "tryS c = (\<lambda>w. case c w of
       (Ok a, w') \<Rightarrow> (Ok (Inr a), w')
     | (Err e, w') \<Rightarrow> (Ok (Inl e), w')
     | (Panic, w') \<Rightarrow> (Panic, w'))"

text \<open>\<open>for _, x := range xs { ... }\<close> with a body that may return an error.\<close>

fun forS :: "('x \<Rightarrow> ('w, unit) st) \<Rightarrow> 'x list \<Rightarrow> ('w, unit) st" where
  "forS f [] = retS ()"
| "forS f (x # xs) = thenS (f x) (forS f xs)"

text \<open>A loop whose body may end it with \<open>return false\<close>; the loop that runs to its end returns true.\<close>

fun allS :: "('x \<Rightarrow> ('w, bool) st) \<Rightarrow> 'x list \<Rightarrow> ('w, bool) st" where
  "allS f [] = retS True"
| "allS f (x # xs) = bindS (f x) (\<lambda>ok. if ok then allS f xs else retS False)"

text \<open>A call whose result, error included, is ignored.\<close>

definition ignoreS :: "('w, 'a) st \<Rightarrow> ('w, unit) st" where
  "ignoreS c = bindS (tryS c) (\<lambda>_. retS ())"

text \<open>The same loop over calls that act on the world.\<close>

fun foldS :: "('s \<Rightarrow> 'x \<Rightarrow> ('w, 's) st) \<Rightarrow> 's \<Rightarrow> 'x list \<Rightarrow> ('w, 's) st" where
  "foldS f s [] = retS s"
| "foldS f s (x # xs) = bindS (f s x) (\<lambda>s. foldS f s xs)"

lemma retS_apply [go_simps]: "retS a w = (Ok a, w)"
  by (simp add: retS_def)

lemma failS_apply [go_simps]: "failS e w = (Err e, w)"
  by (simp add: failS_def)

lemma liftO_apply [go_simps]: "liftO r w = (r, w)"
  by (simp add: liftO_def)

lemma liftO_simps [go_simps]: "liftO (Ok a) = retS a" "liftO (Err e) = failS e" "liftO Panic = panicS"
  by (simp_all add: liftO_def retS_def failS_def panicS_def)

lemma wrapS_retS [go_simps]: "wrapS m (retS a) = retS a"
  by (simp add: wrapS_def retS_def)

lemma bindS_retS [go_simps]: "bindS (retS a) f = f a"
  by (simp add: bindS_def retS_def)

lemma bindS_failS [go_simps]: "bindS (failS e) f = failS e"
  by (simp add: bindS_def failS_def)

lemma bindS_Ok_iff:
  "bindS m f w = (Ok b, w'') \<longleftrightarrow> (\<exists>a w'. m w = (Ok a, w') \<and> f a w' = (Ok b, w''))"
  by (auto simp: bindS_def split: prod.splits outcome.splits)

lemma bindS_OkE:
  assumes "bindS m f w = (Ok b, w'')"
  obtains a w' where "m w = (Ok a, w')" and "f a w' = (Ok b, w'')"
  using assms by (auto simp: bindS_Ok_iff)

lemma thenS_Ok_iff:
  "thenS m n w = (Ok b, w'') \<longleftrightarrow> (\<exists>a w'. m w = (Ok a, w') \<and> n w' = (Ok b, w''))"
  by (simp add: thenS_def bindS_Ok_iff)

lemma wrapS_Ok_iff: "wrapS m c w = (Ok a, w') \<longleftrightarrow> c w = (Ok a, w')"
  by (auto simp: wrapS_def split: prod.splits)

lemma maskS_Ok_iff: "maskS e c w = (Ok a, w') \<longleftrightarrow> c w = (Ok a, w')"
  by (auto simp: maskS_def split: prod.splits outcome.splits)

lemma wrapS_snd [go_simps]: "snd (wrapS m c w) = snd (c w)"
  by (simp add: wrapS_def split: prod.split)

lemma maskS_snd [go_simps]: "snd (maskS e c w) = snd (c w)"
  by (simp add: maskS_def split: prod.split outcome.split)

lemma liftO_Ok_iff: "liftO r w = (Ok a, w') \<longleftrightarrow> r = Ok a \<and> w' = w"
  by (auto simp: liftO_def)

lemma retS_Ok_iff: "retS b w = (Ok a, w') \<longleftrightarrow> a = b \<and> w' = w"
  by (auto simp: retS_def)

lemmas st_Ok_iff = bindS_Ok_iff thenS_Ok_iff wrapS_Ok_iff maskS_Ok_iff

lemma bindS_step: "m w = (Ok a, w') \<Longrightarrow> bindS m f w = f a w'"
  by (simp add: bindS_def)

lemma thenS_step: "m w = (Ok a, w') \<Longrightarrow> thenS m n w = n w'"
  by (simp add: thenS_def bindS_def)

lemma bindS_Err: "m w = (Err e, w') \<Longrightarrow> bindS m f w = (Err e, w')"
  by (simp add: bindS_def)

lemma thenS_Err: "m w = (Err e, w') \<Longrightarrow> thenS m n w = (Err e, w')"
  by (simp add: thenS_def bindS_def)

text \<open>What every step of a loop keeps, the loop keeps, whatever its outcome.\<close>

lemma forS_invariant [loop_intros]:
  assumes "\<And>x v. x \<in> set xs \<Longrightarrow> I v \<Longrightarrow> I (snd (f x v))" and "I w"
  shows "I (snd (forS f xs w))"
  using assms
proof (induction xs arbitrary: w)
  case Nil
  then show ?case by (simp add: go_simps)
next
  case (Cons x xs)
  obtain r v where fx: "f x w = (r, v)" by fastforce
  have Iv: "I v" using Cons.prems(1)[of x w] Cons.prems(2) fx by simp
  show ?case
  proof (cases r)
    case (Ok u)
    then show ?thesis using Cons.IH[OF _ Iv] Cons.prems(1) fx
      by (simp add: thenS_def bindS_def)
  qed (use Iv fx in \<open>simp_all add: thenS_def bindS_def\<close>)
qed

text \<open>The ways a call in a sequence can end.\<close>

lemma bindS_cases:
  assumes "bindS m f w = (r, w')"
  obtains (Ok) a v where "m w = (Ok a, v)" "f a v = (r, w')"
    | (Err) e where "m w = (Err e, w')" "r = Err e"
    | (Panic) "m w = (Panic, w')" "r = Panic"
  using assms by (auto simp: bindS_def split: prod.splits outcome.splits)

lemma tryS_cases:
  assumes "tryS m w = (r, w')"
  obtains (Inr) a where "m w = (Ok a, w')" "r = Ok (Inr a)"
    | (Inl) e where "m w = (Err e, w')" "r = Ok (Inl e)"
    | (Panic) "m w = (Panic, w')" "r = Panic"
  using assms by (auto simp: tryS_def split: prod.splits outcome.splits)

lemma wrapS_cases:
  assumes "wrapS s m w = (r, w')"
  obtains (Ok) a where "m w = (Ok a, w')" "r = Ok a"
    | (Err) e where "m w = (Err e, w')" "r = Err (Wrap s e)"
    | (Panic) "m w = (Panic, w')" "r = Panic"
proof -
  obtain q where q: "m w = (q, w')" "r = wrapO s q" using assms by (auto simp: wrapS_def split: prod.splits)
  then show thesis by (cases q) (auto intro: that)
qed

lemma thenS_cases:
  assumes "thenS m n w = (r, w')"
  obtains (Ok) a v where "m w = (Ok a, v)" "n v = (r, w')"
    | (Err) e where "m w = (Err e, w')" "r = Err e"
    | (Panic) "m w = (Panic, w')" "r = Panic"
  using assms by (auto simp: thenS_def bindS_def split: prod.splits outcome.splits)

section \<open>Machine integers\<close>

type_synonym byte = "8 word"
type_synonym bytes = "byte list"
type_synonym u64 = "64 word"

text \<open>
  Go's \<open>int\<close> and \<open>int64\<close> are signed 64-bit: the model keeps their values as \<open>int\<close> and
  writes out the wrap-around of each operation that can overflow.
\<close>

definition wrap64 :: "int \<Rightarrow> int" where
  "wrap64 x = (x + 2 ^ 63) mod 2 ^ 64 - 2 ^ 63"

definition int64_range :: "int \<Rightarrow> bool" where
  "int64_range x \<longleftrightarrow> - (2 ^ 63) \<le> x \<and> x < 2 ^ 63"

lemma wrap64_id [simp]: "int64_range x \<Longrightarrow> wrap64 x = x"
  by (simp add: wrap64_def int64_range_def)

lemma wrap64_range: "int64_range (wrap64 x)"
proof -
  have "(x + 2 ^ 63) mod 2 ^ 64 < (2 ^ 64 :: int)" by (rule pos_mod_bound) simp
  moreover have "0 \<le> (x + 2 ^ 63) mod (2 ^ 64 :: int)" by (rule pos_mod_sign) simp
  ultimately show ?thesis by (simp add: wrap64_def int64_range_def)
qed

text \<open>Go's \<open>int(x)\<close> for an unsigned \<open>x\<close>: the same bits read as two's complement.\<close>

definition int_of_u64 :: "u64 \<Rightarrow> int" where
  "int_of_u64 n = wrap64 (uint n)"

lemma int_of_u64_small:
  assumes "uint n < 2 ^ 63"
  shows "int_of_u64 n = uint n"
proof -
  have "0 \<le> uint n" by simp
  with assms have "int64_range (uint n)" unfolding int64_range_def by linarith
  then show ?thesis by (simp add: int_of_u64_def)
qed

section \<open>Slices\<close>

text \<open>
  A byte slice of Go has a length and a capacity: the bytes up to the length, and the rest
  of the backing array behind it. \<open>s[a:b]\<close> panics unless \<open>a \<le> b \<le> cap\<close>, so it may
  reach past the length.
\<close>

record slice =
  sdata :: bytes
  sspare :: bytes

definition slice_cap :: "slice \<Rightarrow> nat" where
  "slice_cap s = length (sdata s) + length (sspare s)"

definition reslice :: "slice \<Rightarrow> nat \<Rightarrow> nat \<Rightarrow> bytes outcome" where
  "reslice s a b =
     (if a \<le> b \<and> b \<le> slice_cap s then Ok (take (b - a) (drop a (sdata s @ sspare s))) else Panic)"

definition exact_slice :: "bytes \<Rightarrow> slice" where
  "exact_slice bs = \<lparr>sdata = bs, sspare = []\<rparr>"

text \<open>\<open>copy(dst[off:], src)\<close>: as many bytes as both sides hold.\<close>

definition copy_at :: "bytes \<Rightarrow> nat \<Rightarrow> bytes \<Rightarrow> bytes" where
  "copy_at dst off src =
     (let n = min (length dst - off) (length src)
      in take off dst @ take n src @ drop (off + n) dst)"

lemma length_copy_at: "off \<le> length dst \<Longrightarrow> length (copy_at dst off src) = length dst"
  by (simp add: copy_at_def Let_def)

lemma copy_at_fits:
  "off + length src \<le> length dst \<Longrightarrow>
   copy_at dst off src = take off dst @ src @ drop (off + length src) dst"
  by (auto simp: copy_at_def Let_def min_def)

section \<open>Lists and association lists\<close>

text \<open>
  A Go map is an association list with distinct keys; the order of the list is the order in
  which the run-time happens to iterate over it. Statements about lookups (\<open>map_of\<close>) do not
  depend on that order.
\<close>

type_synonym ('k, 'v) gomap = "('k \<times> 'v) list"

definition gokeys :: "('k, 'v) gomap \<Rightarrow> 'k list" where
  "gokeys m = List.map fst m"

definition gomap_wf :: "('k, 'v) gomap \<Rightarrow> bool" where
  "gomap_wf m \<longleftrightarrow> distinct (gokeys m)"

lemma gomap_wf_update [simp]: "gomap_wf m \<Longrightarrow> gomap_wf (AList.update k v m)"
  by (simp add: gomap_wf_def gokeys_def distinct_update)

lemma gomap_wf_Nil [simp]: "gomap_wf []"
  by (simp add: gomap_wf_def gokeys_def)

lemma map_of_update [simp]: "map_of (AList.update k v m) = (map_of m)(k \<mapsto> v)"
  by (rule update_conv')

lemma gomap_mem_iff: "gomap_wf m \<Longrightarrow> (k, v) \<in> set m \<longleftrightarrow> map_of m k = Some v"
  by (auto simp: gomap_wf_def gokeys_def intro: map_of_is_SomeI dest: map_of_SomeD)

lemma list_update_take_drop:
  "i < length xs \<Longrightarrow> xs[i := x] = take i xs @ x # drop (Suc i) xs"
  by (rule upd_conv_take_nth_drop)

end
