(* ===== verification/Vlq.thy ===== *)
theory Vlq
  imports Prelude
begin

text \<open>
  The variable length quantities of \<^verbatim>\<open>internal/pkg/bitcoincore/bitcoincorecompression/compression.go\<close>
  (size, encoder, decoder over a slice) and of \<^verbatim>\<open>internal/pkg/binaryutils/utils.go\<close> (decoder over
  a byte reader). The reference form \<open>vlq\<close> is the encoding as a pure byte list; the
  encoder of the code writes into a caller's buffer, least significant group first, and reverses.
\<close>

section \<open>The code\<close>

function serializeSizeVLQ_loop :: "u64 \<Rightarrow> nat \<Rightarrow> nat" where
  "serializeSizeVLQ_loop n sz =
     (if n > 0x7f then serializeSizeVLQ_loop (drop_bit 7 n - 1) (sz + 1) else sz)"
  by pat_completeness auto

lemma vlq_shift_uint:
  assumes "(0x7f :: u64) < n"
  shows "uint (drop_bit 7 n - 1) = uint n div 128 - 1"
proof -
  have n: "127 < uint n" using assms by (simp add: word_less_def)
  have d: "uint (drop_bit 7 n) = uint n div 128"
    by (simp add: drop_bit_eq_div uint_div)
  have "1 \<le> uint n div 128" using n by simp
  then have "(1 :: u64) \<le> drop_bit 7 n" by (simp add: word_le_def d)
  then have "uint (drop_bit 7 n - 1) = uint (drop_bit 7 n) - uint (1 :: u64)"
    by (rule uint_minus_simple_alt [THEN iffD1])
  with d show ?thesis by simp
qed

lemma vlq_shift_less:
  assumes "(0x7f :: u64) < n"
  shows "unat (drop_bit 7 n - 1) < unat n"
proof -
  have "127 < uint n" using assms by (simp add: word_less_def)
  then have "uint (drop_bit 7 n - 1) < uint n" using vlq_shift_uint [OF assms] by simp
  then show ?thesis by (simp add: unat_mono word_less_def)
qed

termination serializeSizeVLQ_loop
  by (relation "measure (\<lambda>(n, sz). unat n)") (auto simp: vlq_shift_less)

definition serializeSizeVLQ :: "u64 \<Rightarrow> nat" where
  "serializeSizeVLQ n = serializeSizeVLQ_loop n 1"

text \<open>The first loop of \<open>PutVLQ\<close>: \<open>target[offset] = ...\<close> panics past the end of the buffer.\<close>

function PutVLQ_loop :: "bytes \<Rightarrow> u64 \<Rightarrow> nat \<Rightarrow> (bytes \<times> nat) outcome" where
  "PutVLQ_loop target n offset =
     (let highBitMask = (if offset = 0 then 0x00 else 0x80) in
      if offset < length target then
        let target' = target[offset := ucast (n AND 0x7f) OR highBitMask] in
        if n \<le> 0x7f then Ok (target', offset)
        else PutVLQ_loop target' (drop_bit 7 n - 1) (offset + 1)
      else Panic)"
  by pat_completeness auto
termination
  by (relation "measure (\<lambda>(target, n, offset). unat n)") (auto simp: vlq_shift_less not_le)

text \<open>The second loop: swap inwards.\<close>

fun reverse_loop :: "'a list \<Rightarrow> nat \<Rightarrow> nat \<Rightarrow> 'a list" where
  "reverse_loop t i j = (if i < j then reverse_loop (t[i := t ! j, j := t ! i]) (i + 1) (j - 1) else t)"

definition PutVLQ :: "bytes \<Rightarrow> u64 \<Rightarrow> (bytes \<times> nat) outcome" where
  "PutVLQ target n =
     (case PutVLQ_loop target n 0 of
        Ok (t, offset) \<Rightarrow> Ok (reverse_loop t 0 offset, offset + 1)
      | Err e \<Rightarrow> Err e
      | Panic \<Rightarrow> Panic)"

fun deserializeVLQ_loop :: "u64 \<Rightarrow> nat \<Rightarrow> bytes \<Rightarrow> u64 \<times> nat" where
  "deserializeVLQ_loop n sz [] = (n, sz)"
| "deserializeVLQ_loop n sz (val # rest) =
     (let n' = push_bit 7 n OR ucast (val AND 0x7f) in
      if val AND 0x80 \<noteq> 0x80 then (n', Suc sz)
      else deserializeVLQ_loop (n' + 1) (Suc sz) rest)"

definition deserializeVLQ :: "bytes \<Rightarrow> u64 \<times> nat" where
  "deserializeVLQ serialized = deserializeVLQ_loop 0 0 serialized"

text \<open>
  The decoder of \<open>binaryutils\<close> reads from a byte reader: the reader's remaining bytes are its
  state, and the end of the stream ends the loop without an error.
\<close>

fun DeserializeVLQ_reader_loop :: "u64 \<Rightarrow> nat \<Rightarrow> bytes \<Rightarrow> (u64 \<times> nat) \<times> bytes" where
  "DeserializeVLQ_reader_loop n sz [] = ((n, sz), [])"
| "DeserializeVLQ_reader_loop n sz (val # buf) =
     (let n' = push_bit 7 n OR ucast (val AND 0x7F) in
      if val AND 0x80 \<noteq> 0x80 then ((n', Suc sz), buf)
      else DeserializeVLQ_reader_loop (n' + 1) (Suc sz) buf)"

definition DeserializeVLQ :: "bytes \<Rightarrow> (u64 \<times> nat) \<times> bytes" where
  "DeserializeVLQ buf = DeserializeVLQ_reader_loop 0 0 buf"

definition ReverseBytesWithCopy :: "'a list \<Rightarrow> 'a list" where
  "ReverseBytesWithCopy input = reverse_loop input 0 (length input - 1)"

declare serializeSizeVLQ_loop.simps [simp del] PutVLQ_loop.simps [simp del]
  reverse_loop.simps [simp del]

section \<open>The encoding as a byte list\<close>

text \<open>The groups of a number, the least significant first; \<open>m\<close> is the mark of the first group.\<close>

function vlq_groups :: "byte \<Rightarrow> u64 \<Rightarrow> bytes" where
  "vlq_groups m n =
     (ucast (n AND 0x7f) OR m) # (if n \<le> 0x7f then [] else vlq_groups 0x80 (drop_bit 7 n - 1))"
  by pat_completeness auto
termination
  by (relation "measure (\<lambda>(m, n). unat n)") (auto simp: vlq_shift_less not_le)

declare vlq_groups.simps [simp del]

definition vlq :: "u64 \<Rightarrow> bytes" where
  "vlq n = rev (vlq_groups 0 n)"

lemma vlq_groups_nonempty [simp]: "vlq_groups m n \<noteq> []"
  by (subst vlq_groups.simps) simp

lemma length_vlq_groups_mark: "length (vlq_groups m n) = length (vlq_groups m' n)"
  by (simp add: vlq_groups.simps [of m n] vlq_groups.simps [of m' n])

lemma length_vlq: "length (vlq n) = length (vlq_groups 0 n)"
  by (simp add: vlq_def)

lemma vlq_nonempty [simp]: "vlq n \<noteq> []" "0 < length (vlq n)"
  by (simp_all add: vlq_def)

lemma serializeSizeVLQ_loop_eq:
  "serializeSizeVLQ_loop n s + 1 = s + length (vlq_groups m n)"
proof (induction n s arbitrary: m rule: serializeSizeVLQ_loop.induct)
  case (1 n s)
  show ?case
  proof (cases "n > 0x7f")
    case True
    then have "serializeSizeVLQ_loop (drop_bit 7 n - 1) (s + 1) + 1
               = (s + 1) + length (vlq_groups 0x80 (drop_bit 7 n - 1))"
      by (rule 1)
    with True show ?thesis
      by (simp add: serializeSizeVLQ_loop.simps [of n s] vlq_groups.simps [of m n] not_le)
  next
    case False
    then have "n \<le> 0x7f" by simp
    with False show ?thesis
      by (simp add: serializeSizeVLQ_loop.simps [of n s] vlq_groups.simps [of m n])
  qed
qed

lemma serializeSizeVLQ_length: "serializeSizeVLQ n = length (vlq n)"
  using serializeSizeVLQ_loop_eq [of n 1 0] by (simp add: serializeSizeVLQ_def length_vlq)

section \<open>The encoder writes the reference encoding\<close>

lemma PutVLQ_loop_eq:
  assumes "m = (if offset = 0 then 0 else 0x80)"
  shows "PutVLQ_loop target n offset =
     (if offset + length (vlq_groups m n) \<le> length target
      then Ok (take offset target @ vlq_groups m n @ drop (offset + length (vlq_groups m n)) target,
               offset + length (vlq_groups m n) - 1)
      else Panic)"
  using assms
proof (induction target n offset arbitrary: m rule: PutVLQ_loop.induct)
  case (1 target n offset)
  let ?b = "ucast (n AND 0x7f) OR m :: byte"
  let ?t = "target[offset := ?b]"
  note unfold = PutVLQ_loop.simps [of target n offset] vlq_groups.simps [of m n]
  show ?case
  proof (cases "offset < length target")
    case False
    then show ?thesis by (simp add: unfold Let_def)
  next
    case lt: True
    show ?thesis
    proof (cases "n \<le> 0x7f")
      case True
      then have "vlq_groups m n = [?b]" by (simp add: vlq_groups.simps [of m n])
      with lt True "1.prems" show ?thesis
        by (simp add: PutVLQ_loop.simps [of target n offset] Let_def list_update_take_drop)
    next
      case False
      let ?g = "vlq_groups 0x80 (drop_bit 7 n - 1)"
      have IH: "PutVLQ_loop ?t (drop_bit 7 n - 1) (offset + 1) =
        (if offset + 1 + length ?g \<le> length ?t
         then Ok (take (offset + 1) ?t @ ?g @ drop (offset + 1 + length ?g) ?t,
                  offset + 1 + length ?g - 1)
         else Panic)"
        using "1.IH" [OF refl lt refl False] "1.prems" by simp
      have g: "vlq_groups m n = ?b # ?g" using False by (simp add: vlq_groups.simps [of m n])
      have "PutVLQ_loop target n offset = PutVLQ_loop ?t (drop_bit 7 n - 1) (offset + 1)"
        using lt False "1.prems" by (simp add: PutVLQ_loop.simps [of target n offset] Let_def)
      with IH lt show ?thesis by (simp add: g take_Suc_conv_app_nth)
    qed
  qed
qed

lemma reverse_loop_stop: "\<not> i < j \<Longrightarrow> reverse_loop t i j = t"
  by (simp add: reverse_loop.simps [of t i j])

lemma reverse_loop_swap:
  "reverse_loop (ys @ x # zs @ y # ws) (length ys) (Suc (length ys + length zs))
   = reverse_loop ((ys @ [y]) @ zs @ x # ws) (length (ys @ [y])) (length ys + length zs)"
  by (subst reverse_loop.simps) (simp add: list_update_append nth_append)

lemma reverse_loop_segment:
  "reverse_loop (ys @ zs @ ws) (length ys) (length ys + length zs - 1) = ys @ rev zs @ ws"
proof (induction zs arbitrary: ys ws rule: length_induct)
  case (1 zs)
  show ?case
  proof (cases zs)
    case Nil
    then show ?thesis by (simp add: reverse_loop_stop)
  next
    case (Cons x zs')
    show ?thesis
    proof (cases zs' rule: rev_cases)
      case Nil
      with Cons show ?thesis by (simp add: reverse_loop_stop)
    next
      case (snoc m y)
      have zs: "zs = x # m @ [y]" using Cons snoc by simp
      have "reverse_loop (ys @ zs @ ws) (length ys) (length ys + length zs - 1)
          = reverse_loop ((ys @ [y]) @ m @ x # ws) (length (ys @ [y])) (length (ys @ [y]) + length m - 1)"
        using reverse_loop_swap [of ys x m y ws] by (simp add: zs)
      also have "\<dots> = (ys @ [y]) @ rev m @ x # ws"
        using "1" [rule_format, of m "ys @ [y]" "x # ws"] by (simp add: zs)
      finally show ?thesis by (simp add: zs)
    qed
  qed
qed

lemma reverse_loop_full: "reverse_loop t 0 (length t - 1) = rev t"
  using reverse_loop_segment [of "[]" t "[]"] by simp

lemma ReverseBytesWithCopy_rev [simp]: "ReverseBytesWithCopy xs = rev xs"
  using reverse_loop_full [of xs] by (simp add: ReverseBytesWithCopy_def)

lemma PutVLQ_eq:
  "PutVLQ target n =
     (if length (vlq n) \<le> length target
      then Ok (vlq n @ drop (length (vlq n)) target, length (vlq n))
      else Panic)"
proof -
  let ?g = "vlq_groups 0 n"
  have g: "0 < length ?g" by simp
  have "reverse_loop (?g @ drop (length ?g) target) 0 (length ?g - 1) = rev ?g @ drop (length ?g) target"
    using reverse_loop_segment [of "[]" ?g] by simp
  with g show ?thesis
    by (simp add: PutVLQ_def PutVLQ_loop_eq [of 0] length_vlq vlq_def Suc_diff_Suc)
qed

section \<open>The decoder inverts the encoder\<close>

text \<open>Bit facts about one group of seven bits and its continuation mark.\<close>

lemma mask_7f: "(0x7f :: 'a :: len word) = mask 7"
  by (simp add: mask_eq_exp_minus_1)

lemma bit_80: "bit (0x80 :: 'a :: len word) i \<longleftrightarrow> i = 7 \<and> 7 < LENGTH('a)"
proof -
  have "(0x80 :: 'a word) = 2 ^ 7" by simp
  then show ?thesis by (simp only: bit_exp_iff) auto
qed

lemma group_last:
  fixes n :: u64
  shows "ucast (n AND 0x7f) AND 0x80 \<noteq> (0x80 :: byte)"
    and "ucast ((ucast (n AND 0x7f) :: byte) AND 0x7f) = n AND 0x7f"
proof -
  have "\<not> bit (ucast (n AND 0x7f) AND 0x80 :: byte) 7" "bit (0x80 :: byte) 7"
    by (simp_all add: bit_simps)
  then show "ucast (n AND 0x7f) AND 0x80 \<noteq> (0x80 :: byte)" by metis
  show "ucast ((ucast (n AND 0x7f) :: byte) AND 0x7f) = n AND 0x7f"
    unfolding mask_7f by (rule bit_word_eqI) (auto simp: bit_simps)
qed

lemma group_more:
  fixes n :: u64
  shows "(ucast (n AND 0x7f) OR 0x80) AND 0x80 = (0x80 :: byte)"
    and "ucast (((ucast (n AND 0x7f) OR 0x80) :: byte) AND 0x7f) = n AND 0x7f"
proof -
  show "(ucast (n AND 0x7f) OR 0x80) AND 0x80 = (0x80 :: byte)"
    by (rule bit_word_eqI) (auto simp: bit_simps bit_80)
  have "(ucast (n AND 0x7f) OR 0x80) AND 0x7f = (ucast (n AND 0x7f) AND 0x7f :: byte)"
    by (simp only: bit.conj_disj_distrib2) simp
  then show "ucast (((ucast (n AND 0x7f) OR 0x80) :: byte) AND 0x7f) = n AND 0x7f"
    using group_last(2) by metis
qed

lemma group_join:
  fixes n :: u64
  shows "push_bit 7 (drop_bit 7 n) OR (n AND 0x7f) = n"
  unfolding mask_7f by (rule bit_word_eqI) (auto simp: bit_simps)

lemma small_and_7f:
  assumes "n \<le> 0x7f"
  shows "n AND 0x7f = (n :: u64)"
proof -
  have "uint n < 2 ^ 7" using assms by (simp add: word_le_def)
  then have "take_bit 7 n = n" by (simp add: take_bit_eq_mod word_uint_eq_iff uint_mod)
  then show ?thesis by (simp add: mask_7f take_bit_eq_mask)
qed

lemma drop_bit_small: "n \<le> 0x7f \<Longrightarrow> push_bit 7 0 OR (n AND 0x7f) = (n :: u64)"
  by (simp add: small_and_7f)

text \<open>
  The continuation groups of \<open>k\<close> bring the decoder's accumulator to \<open>k + 1\<close>: this is why
  the encoder subtracts one at each shift.
\<close>

lemma deserialize_continuation:
  "deserializeVLQ_loop 0 s (rev (vlq_groups 0x80 k) @ rest)
   = deserializeVLQ_loop (k + 1) (s + length (vlq_groups 0x80 k)) rest"
proof (induction "0x80 :: byte" k arbitrary: rest rule: vlq_groups.induct)
  case (1 k)
  show ?case
  proof (cases "k \<le> 0x7f")
    case True
    then have "deserializeVLQ_loop 0 s (rev (vlq_groups 0x80 k) @ rest)
        = deserializeVLQ_loop ((k AND 0x7f) + 1) (Suc s) rest"
      by (simp add: vlq_groups.simps [of _ k] group_more Let_def)
    with True show ?thesis by (simp add: vlq_groups.simps [of _ k] small_and_7f)
  next
    case False
    let ?b = "ucast (k AND 0x7f) OR 0x80 :: byte"
    have "deserializeVLQ_loop 0 s (rev (vlq_groups 0x80 k) @ rest)
        = deserializeVLQ_loop 0 s (rev (vlq_groups 0x80 (drop_bit 7 k - 1)) @ ?b # rest)"
      using False by (simp add: vlq_groups.simps [of _ k])
    also have "\<dots> = deserializeVLQ_loop (drop_bit 7 k) (s + length (vlq_groups 0x80 (drop_bit 7 k - 1))) (?b # rest)"
      using "1" [OF False] by simp
    finally show ?thesis
      using False by (simp add: vlq_groups.simps [of _ k] group_more group_join Let_def)
  qed
qed

lemma deserialize_vlq: "deserializeVLQ (vlq n @ rest) = (n, length (vlq n))"
proof (cases "n \<le> 0x7f")
  case True
  then have "deserializeVLQ (vlq n @ rest) = (n AND 0x7f, length (vlq n))"
    by (simp add: deserializeVLQ_def vlq_def vlq_groups.simps [of 0 n] group_last Let_def)
  with True show ?thesis by (simp add: small_and_7f)
next
  case False
  let ?g = "vlq_groups 0x80 (drop_bit 7 n - 1)" and ?b = "ucast (n AND 0x7f) :: byte"
  have v: "vlq n = rev ?g @ [?b]" using False by (simp add: vlq_def vlq_groups.simps [of 0 n])
  have "deserializeVLQ (vlq n @ rest) = deserializeVLQ_loop (drop_bit 7 n) (length ?g) (?b # rest)"
    using deserialize_continuation [of 0 _ "?b # rest"] by (simp add: deserializeVLQ_def v)
  also have "\<dots> = (n, length (vlq n))"
    by (simp add: group_last group_join Let_def v)
  finally show ?thesis .
qed

text \<open>Reading from a reader is decoding the slice of what is left and moving past it.\<close>

lemma deserializeVLQ_loop_size:
  "sz \<le> snd (deserializeVLQ_loop n sz buf) \<and> snd (deserializeVLQ_loop n sz buf) \<le> sz + length buf"
proof (induction n sz buf rule: deserializeVLQ_loop.induct)
  case (2 n sz val rest)
  then show ?case by (simp add: Let_def) (metis Suc_leD)
qed simp

lemma deserializeVLQ_size: "snd (deserializeVLQ buf) \<le> length buf"
  using deserializeVLQ_loop_size [of 0 0 buf] by (simp add: deserializeVLQ_def)

lemma reader_loop_eq:
  "DeserializeVLQ_reader_loop n sz buf =
     (deserializeVLQ_loop n sz buf, drop (snd (deserializeVLQ_loop n sz buf) - sz) buf)"
proof (induction n sz buf rule: DeserializeVLQ_reader_loop.induct)
  case (2 n sz val buf)
  let ?n = "push_bit 7 n OR ucast (val AND 0x7F) :: u64"
  have "Suc sz \<le> snd (deserializeVLQ_loop (?n + 1) (Suc sz) buf)"
    using deserializeVLQ_loop_size by blast
  then have "snd (deserializeVLQ_loop (?n + 1) (Suc sz) buf) - sz
           = Suc (snd (deserializeVLQ_loop (?n + 1) (Suc sz) buf) - Suc sz)" by simp
  with 2 show ?case by (simp add: Let_def)
qed simp

lemma DeserializeVLQ_eq:
  "DeserializeVLQ buf = (deserializeVLQ buf, drop (snd (deserializeVLQ buf)) buf)"
  by (simp add: DeserializeVLQ_def deserializeVLQ_def reader_loop_eq)

lemma DeserializeVLQ_vlq: "DeserializeVLQ (vlq n @ rest) = ((n, length (vlq n)), rest)"
  by (simp add: DeserializeVLQ_eq deserialize_vlq)

text \<open>Ten bytes are enough for 64 bits.\<close>

lemma length_vlq_groups_bound:
  "uint n < 2 ^ (7 * k) \<Longrightarrow> 0 < k \<Longrightarrow> length (vlq_groups m n) \<le> k"
proof (induction k arbitrary: n m)
  case (Suc k)
  show ?case
  proof (cases "n \<le> 0x7f")
    case True
    then show ?thesis by (simp add: vlq_groups.simps [of m n])
  next
    case False
    then have gt: "0x7f < n" by simp
    then have big: "127 < uint n" by (simp add: word_less_def)
    have "uint n < 2 ^ (7 * k) * 128" using Suc.prems(1) by (simp add: power_add)
    then have lt: "uint n div 128 < 2 ^ (7 * k)" by (simp add: div_less_iff_less_mult)
    have "0 < k" using big Suc.prems(1) by (cases k) auto
    moreover have "uint (drop_bit 7 n - 1) < 2 ^ (7 * k)"
      using lt vlq_shift_uint [OF gt] by linarith
    ultimately have "length (vlq_groups 0x80 (drop_bit 7 n - 1)) \<le> k" by (rule Suc.IH [rotated])
    with False show ?thesis by (simp add: vlq_groups.simps [of m n])
  qed
qed simp

lemma length_vlq_le_10: "length (vlq n) \<le> 10"
proof -
  have "uint n < 2 ^ 64" using uint_lt2p [of n] by simp
  then have "uint n < 2 ^ (7 * 10)" by (rule less_trans) simp
  then show ?thesis unfolding length_vlq by (rule length_vlq_groups_bound) simp
qed

lemma vlq_small: "n \<le> 0x7f \<Longrightarrow> vlq n = [ucast n]"
  by (simp add: vlq_def vlq_groups.simps [of 0 n] small_and_7f)

lemma deserialize_small:
  assumes "b \<le> 0x7f"
  shows "deserializeVLQ (b # rest) = (ucast b, 1)"
proof -
  have u: "uint b \<le> 127" using assms by (simp add: word_le_def)
  have "uint (ucast b :: u64) = uint b" by (rule uint_up_ucast) (simp add: is_up)
  with u have "(ucast b :: u64) \<le> 0x7f" by (simp add: word_le_def)
  then have "vlq (ucast b) = [b]" by (simp add: vlq_small ucast_up_ucast_id is_up)
  with deserialize_vlq [of "ucast b" rest] show ?thesis by simp
qed

section \<open>Properties\<close>

text \<open>
  C23: \<open>PutVLQ\<close> writes exactly \<open>serializeSizeVLQ n\<close> bytes, leaves the rest of the buffer
  alone, and both decoders of the repository (over a slice, and over a byte reader, which also
  leaves the reader right behind the number) read the number back with its size.
\<close>

theorem PutVLQ_roundtrip:
  assumes "serializeSizeVLQ n \<le> length target"
  shows "\<exists>t. PutVLQ target n = Ok (t, serializeSizeVLQ n) \<and> length t = length target \<and>
    drop (serializeSizeVLQ n) t = drop (serializeSizeVLQ n) target \<and>
    deserializeVLQ t = (n, serializeSizeVLQ n) \<and>
    DeserializeVLQ t = ((n, serializeSizeVLQ n), drop (serializeSizeVLQ n) target)"
  using assms by (simp add: PutVLQ_eq serializeSizeVLQ_length deserialize_vlq DeserializeVLQ_vlq)

theorem PutVLQ_roundtrip_witness:
  "\<exists>t. PutVLQ [0, 0, 0xff] 300 = Ok (t, 2) \<and> drop 2 t = [0xff] \<and> deserializeVLQ t = (300, 2)"
proof -
  have n: "serializeSizeVLQ 300 = 2"
    by (simp add: serializeSizeVLQ_def serializeSizeVLQ_loop.simps)
  show ?thesis using PutVLQ_roundtrip [of 300 "[0, 0, 0xff]"] by (auto simp: n)
qed

text \<open>
  \<open>PutVLQ\<close> never returns an error; it panics exactly on a buffer shorter than
  \<open>serializeSizeVLQ n\<close>, and ten bytes are enough for every 64-bit number.
\<close>

theorem PutVLQ_panics_iff:
  "(PutVLQ target n = Panic \<longleftrightarrow> length target < serializeSizeVLQ n) \<and>
   (\<forall>e. PutVLQ target n \<noteq> Err e) \<and> serializeSizeVLQ n \<le> 10"
  by (simp add: PutVLQ_eq serializeSizeVLQ_length length_vlq_le_10 not_le)

end
