(* ===== verification/Amounts.thy ===== *)
theory Amounts
  imports Prelude
begin

text \<open>
  The amount compression of \<^verbatim>\<open>compression.go\<close> (\<open>CompressTxOutAmount\<close>,
  \<open>decompressTxOutAmount\<close>) and its second copy in
  \<^verbatim>\<open>internal/pkg/bitcoincore/utxocompression/compress.go\<close>, over unsigned 64-bit words. The
  reference is the same formula over unbounded naturals, where it is a bijection; the words
  compute it as long as nothing wraps, which covers every amount below \<open>2 ^ 60\<close>
  (the supply of the chain is below \<open>2 ^ 51\<close> satoshi).
\<close>

section \<open>The code\<close>

text \<open>\<open>for amount%10 == 0 && exponent < 9 { amount /= 10; exponent++ }\<close>\<close>

function strip_zeros_loop :: "u64 \<Rightarrow> u64 \<Rightarrow> u64 \<times> u64" where
  "strip_zeros_loop amount exponent =
     (if amount mod 10 = 0 \<and> exponent < 9
      then strip_zeros_loop (amount div 10) (exponent + 1)
      else (amount, exponent))"
  by pat_completeness auto

lemma exponent_step: "(exponent :: u64) < 9 \<Longrightarrow> unat (exponent + 1) = Suc (unat exponent)"
  by (simp add: unat_word_ariths word_less_nat_alt)

termination strip_zeros_loop
  by (relation "measure (\<lambda>(amount, exponent). 9 - unat exponent)")
    (auto simp: exponent_step word_less_nat_alt)

definition CompressTxOutAmount :: "u64 \<Rightarrow> u64" where
  "CompressTxOutAmount amount =
     (if amount = 0 then 0
      else case strip_zeros_loop amount 0 of (amount, exponent) \<Rightarrow>
        if exponent < 9 then
          let lastDigit = amount mod 10; amount = amount div 10 in
          1 + 10 * (9 * amount + lastDigit - 1) + exponent
        else 10 + 10 * (amount - 1))"

text \<open>\<open>for ; exponent > 0; exponent-- { n *= 10 }\<close>\<close>

function apply_exponent_loop :: "u64 \<Rightarrow> u64 \<Rightarrow> u64" where
  "apply_exponent_loop n exponent =
     (if exponent > 0 then apply_exponent_loop (n * 10) (exponent - 1) else n)"
  by pat_completeness auto
termination
  by (relation "measure (\<lambda>(n, exponent). unat exponent)")
    (auto simp: unat_minus_one word_gt_0 unat_gt_0)

definition decompressTxOutAmount :: "u64 \<Rightarrow> u64" where
  "decompressTxOutAmount amount =
     (if amount = 0 then 0
      else
        let amount = amount - 1;
            exponent = amount mod 10;
            amount = amount div 10;
            n = (if exponent < 9 then
                   let lastDigit = amount mod 9 + 1; amount = amount div 9 in amount * 10 + lastDigit
                 else amount + 1)
        in apply_exponent_loop n exponent)"

declare strip_zeros_loop.simps [simp del] apply_exponent_loop.simps [simp del]

text \<open>The copy in \<open>utxocompression\<close>, which the store's \<open>SetAmount\<close> and \<open>GetAmount\<close> call.\<close>

definition Utxo_CompressTxOutAmount :: "u64 \<Rightarrow> u64" where
  "Utxo_CompressTxOutAmount amount =
     (if amount = 0 then 0
      else case strip_zeros_loop amount 0 of (amount, exponent) \<Rightarrow>
        if exponent < 9 then
          let lastDigit = amount mod 10; amount = amount div 10 in
          1 + 10 * (9 * amount + lastDigit - 1) + exponent
        else 10 + 10 * (amount - 1))"

definition Utxo_DecompressTxOutAmount :: "u64 \<Rightarrow> u64" where
  "Utxo_DecompressTxOutAmount amount =
     (if amount = 0 then 0
      else
        let amount = amount - 1;
            exponent = amount mod 10;
            amount = amount div 10;
            n = (if exponent < 9 then
                   let lastDigit = amount mod 9 + 1; amount = amount div 9 in amount * 10 + lastDigit
                 else amount + 1)
        in apply_exponent_loop n exponent)"

lemma Utxo_copies [simp]:
  "Utxo_CompressTxOutAmount = CompressTxOutAmount"
  "Utxo_DecompressTxOutAmount = decompressTxOutAmount"
  by (simp_all add: fun_eq_iff Utxo_CompressTxOutAmount_def CompressTxOutAmount_def
      Utxo_DecompressTxOutAmount_def decompressTxOutAmount_def)

section \<open>The reference over naturals\<close>

fun strip_zeros :: "nat \<Rightarrow> nat \<Rightarrow> nat \<times> nat" where
  "strip_zeros 0 a = (a, 0)"
| "strip_zeros (Suc k) a =
     (if a mod 10 = 0 then (case strip_zeros k (a div 10) of (b, e) \<Rightarrow> (b, Suc e)) else (a, 0))"

definition compress_amount :: "nat \<Rightarrow> nat" where
  "compress_amount a =
     (if a = 0 then 0
      else case strip_zeros 9 a of (b, e) \<Rightarrow>
        if e < 9 then 1 + 10 * (9 * (b div 10) + b mod 10 - 1) + e else 10 + 10 * (b - 1))"

definition decompress_amount :: "nat \<Rightarrow> nat" where
  "decompress_amount c =
     (if c = 0 then 0
      else let x = (c - 1) div 10; e = (c - 1) mod 10
           in (if e < 9 then (x div 9) * 10 + (x mod 9 + 1) else x + 1) * 10 ^ e)"

lemma strip_zeros_value:
  "strip_zeros k a = (b, e) \<Longrightarrow> a = b * 10 ^ e \<and> e \<le> k \<and> (e < k \<longrightarrow> b mod 10 \<noteq> 0)"
proof (induction k arbitrary: a b e)
  case (Suc k)
  show ?case
  proof (cases "a mod 10 = 0")
    case True
    then obtain e' where e: "e = Suc e'" "strip_zeros k (a div 10) = (b, e')"
      using Suc.prems by (auto split: prod.splits)
    have "a div 10 = b * 10 ^ e' \<and> e' \<le> k \<and> (e' < k \<longrightarrow> b mod 10 \<noteq> 0)"
      by (rule Suc.IH [OF e(2)])
    moreover have "a = a div 10 * 10" using True by presburger
    ultimately show ?thesis using e(1) by simp
  qed (use Suc.prems in auto)
qed simp

lemma strip_zeros_unique:
  "0 < b \<Longrightarrow> e \<le> k \<Longrightarrow> (e < k \<longrightarrow> b mod 10 \<noteq> 0) \<Longrightarrow> strip_zeros k (b * 10 ^ e) = (b, e)"
proof (induction k arbitrary: e)
  case (Suc k)
  then show ?case by (cases e) auto
qed simp

lemma decompress_compress_amount: "decompress_amount (compress_amount a) = a"
proof (cases "a = 0")
  case False
  obtain b e where s: "strip_zeros 9 a = (b, e)" by fastforce
  have v: "a = b * 10 ^ e" "e \<le> 9" "e < 9 \<Longrightarrow> b mod 10 \<noteq> 0" "0 < b"
    using strip_zeros_value [OF s] False by auto
  show ?thesis
  proof (cases "e < 9")
    case True
    define q d where "q = b div 10" and "d = b mod 10"
    have d: "1 \<le> d" "d \<le> 9" "b = 10 * q + d" using v(3) [OF True] by (auto simp: q_def d_def)
    have c: "compress_amount a - 1 = 10 * (9 * q + d - 1) + e" "compress_amount a \<noteq> 0"
      using False s True by (simp_all add: compress_amount_def q_def d_def)
    have x: "(10 * (9 * q + d - 1) + e) div 10 = 9 * q + (d - 1)"
      "(10 * (9 * q + d - 1) + e) mod 10 = e"
      using True d by (simp_all add: div_add1_eq)
    have y: "(9 * q + (d - 1)) div 9 = q" "(9 * q + (d - 1)) mod 9 = d - 1"
      using d(1,2) by (cases d; simp)+
    have "decompress_amount (compress_amount a) = (q * 10 + (d - 1 + 1)) * 10 ^ e"
      using c(2) True by (simp only: decompress_amount_def Let_def c(1) x y if_True if_False)
    also have "q * 10 + (d - 1 + 1) = b" using d by simp
    also have "b * 10 ^ e = a" by (rule v(1) [symmetric])
    finally show ?thesis .
  next
    case F: False
    then have "compress_amount a - 1 = 10 * (b - 1) + 9" "compress_amount a \<noteq> 0" "e = 9"
      using False s v by (simp_all add: compress_amount_def)
    with v show ?thesis by (simp add: decompress_amount_def Let_def div_add1_eq)
  qed
qed (simp add: compress_amount_def decompress_amount_def)

lemma compress_decompress_amount: "compress_amount (decompress_amount c) = c"
proof (cases "c = 0")
  case False
  define x e where "x = (c - 1) div 10" and "e = (c - 1) mod 10"
  have c: "c = 1 + 10 * x + e" "e < 10" using False by (simp_all add: x_def e_def)
  show ?thesis
  proof (cases "e < 9")
    case True
    define b where "b = (x div 9) * 10 + (x mod 9 + 1)"
    have b: "b mod 10 = x mod 9 + 1" "b div 10 = x div 9" "0 < b"
      using mod_less_divisor [of 9 x] by (simp_all add: b_def)
    have "decompress_amount c = b * 10 ^ e"
      using False True by (simp add: decompress_amount_def Let_def b_def x_def e_def)
    moreover have "strip_zeros 9 (b * 10 ^ e) = (b, e)"
      using strip_zeros_unique [of b e 9] b True by simp
    ultimately show ?thesis using b True c(1) by (simp add: compress_amount_def)
  next
    case F: False
    then have e: "e = 9" using c(2) by simp
    then have e': "(c - 1) mod 10 = 9" by (simp add: e_def)
    have "decompress_amount c = Suc x * 10 ^ 9"
      using False e' by (simp add: decompress_amount_def x_def)
    moreover have "strip_zeros 9 (Suc x * 10 ^ 9) = (Suc x, 9)"
      using strip_zeros_unique [of "Suc x" 9 9] by simp
    ultimately show ?thesis using c(1) e by (simp add: compress_amount_def)
  qed
qed (simp add: compress_amount_def decompress_amount_def)

section \<open>The words compute the reference\<close>

lemma unat_div_10 [simp]: "unat ((a :: u64) div 10) = unat a div 10"
  and unat_mod_10 [simp]: "unat ((a :: u64) mod 10) = unat a mod 10"
  and unat_div_9 [simp]: "unat ((a :: u64) div 9) = unat a div 9"
  and unat_mod_9 [simp]: "unat ((a :: u64) mod 9) = unat a mod 9"
  by (simp_all add: unat_div_distrib unat_mod_distrib)

lemma mod_10_eq_0_iff: "(a :: u64) mod 10 = 0 \<longleftrightarrow> unat a mod 10 = 0"
  by (metis unat_0 unat_eq_zero unat_mod_10)

lemma strip_zeros_loop_eq:
  "strip_zeros_loop a ex = (b, e) \<Longrightarrow> unat ex \<le> 9 \<Longrightarrow>
   strip_zeros (9 - unat ex) (unat a) = (unat b, unat e - unat ex) \<and> unat ex \<le> unat e \<and> unat e \<le> 9"
proof (induction a ex arbitrary: b e rule: strip_zeros_loop.induct)
  case (1 a ex)
  show ?case
  proof (cases "a mod 10 = 0 \<and> ex < 9")
    case True
    then have ex: "unat ex < 9" "unat (ex + 1) = Suc (unat ex)"
      by (simp_all add: exponent_step word_less_nat_alt)
    have "strip_zeros_loop (a div 10) (ex + 1) = (b, e)"
      using "1.prems"(1) True by (simp add: strip_zeros_loop.simps [of a ex])
    then have IH: "strip_zeros (9 - Suc (unat ex)) (unat a div 10) = (unat b, unat e - Suc (unat ex))"
      "Suc (unat ex) \<le> unat e" "unat e \<le> 9"
      using "1.IH" [OF True] ex by auto
    have "9 - unat ex = Suc (9 - Suc (unat ex))" using ex by simp
    with IH True show ?thesis by (simp add: mod_10_eq_0_iff)
  next
    case False
    then have "strip_zeros_loop a ex = (a, ex)"
      by (subst strip_zeros_loop.simps) (rule if_not_P)
    with "1.prems"(1) have "b = a" "e = ex" by simp_all
    with False "1.prems"(2) show ?thesis
      by (cases "9 - unat ex") (auto simp: mod_10_eq_0_iff word_less_nat_alt)
  qed
qed

lemma apply_exponent_loop_eq:
  "unat n * 10 ^ unat e < 2 ^ 64 \<Longrightarrow> unat (apply_exponent_loop n e) = unat n * 10 ^ unat e"
proof (induction n e rule: apply_exponent_loop.induct)
  case (1 n e)
  show ?case
  proof (cases "e > 0")
    case True
    then have "e \<noteq> 0" by auto
    then have "unat (e - 1) = unat e - 1" "unat e \<noteq> 0"
      by (simp_all add: unat_minus_one unat_eq_zero)
    then obtain k where k: "unat e = Suc k" "unat (e - 1) = k" by (cases "unat e") auto
    have lt: "unat n * 10 * 10 ^ k < 2 ^ 64"
      using "1.prems" by (simp only: k power_Suc mult.assoc)
    have "unat n * 10 \<le> unat n * 10 * 10 ^ k" by simp
    then have "unat n * 10 < 2 ^ 64" using lt by (rule le_less_trans)
    then have n: "unat (n * 10) = unat n * 10" by (simp add: unat_word_ariths)
    have "apply_exponent_loop n e = apply_exponent_loop (n * 10) (e - 1)"
      using True by (simp only: apply_exponent_loop.simps [of n e] if_True)
    then show ?thesis using "1.IH" [OF True] lt by (simp only: n k power_Suc mult.assoc)
  next
    case False
    then have "e = 0" by (simp add: word_gt_0)
    then show ?thesis by (simp add: apply_exponent_loop.simps [of n 0])
  qed
qed

lemma unat_add_small: "unat a + unat b < 2 ^ 64 \<Longrightarrow> unat (a + b :: u64) = unat a + unat b"
  and unat_mult_small: "unat a * unat b < 2 ^ 64 \<Longrightarrow> unat (a * b :: u64) = unat a * unat b"
  by (simp_all add: unat_word_ariths)

lemma unat_pred: "0 < unat a \<Longrightarrow> unat (a - 1 :: u64) = unat a - 1"
  by (metis less_numeral_extra(3) unat_0 unat_minus_one)

lemma compressed_low:
  fixes q d e :: u64
  assumes "1 \<le> unat d" and "9 * unat q + unat d < 2 ^ 60" and "unat e < 10"
  shows "unat (1 + 10 * (9 * q + d - 1) + e) = 1 + 10 * (9 * unat q + unat d - 1) + unat e"
proof -
  have 1: "unat (9 * q) = 9 * unat q" using assms(2) by (subst unat_mult_small) simp_all
  have 2: "unat (9 * q + d) = 9 * unat q + unat d"
    using assms(2) by (subst unat_add_small) (simp_all add: 1)
  have 3: "unat (9 * q + d - 1) = 9 * unat q + unat d - 1"
    using assms(1) by (subst unat_pred) (simp_all add: 2)
  have 4: "unat (10 * (9 * q + d - 1)) = 10 * (9 * unat q + unat d - 1)"
    using assms(2) by (subst unat_mult_small, unfold 3) simp_all
  have 5: "unat (1 + 10 * (9 * q + d - 1)) = 1 + 10 * (9 * unat q + unat d - 1)"
    using assms(2) by (subst unat_add_small, unfold 4) simp_all
  show ?thesis using assms(2,3) by (subst unat_add_small, unfold 5) simp_all
qed

lemma compressed_high:
  fixes n :: u64
  assumes "0 < unat n" and "unat n < 2 ^ 60"
  shows "unat (10 + 10 * (n - 1)) = 10 + 10 * (unat n - 1)"
proof -
  have 1: "unat (n - 1) = unat n - 1" using assms(1) by (rule unat_pred)
  have 2: "unat (10 * (n - 1)) = 10 * (unat n - 1)"
    using assms(2) by (subst unat_mult_small, unfold 1) simp_all
  show ?thesis using assms(2) by (subst unat_add_small, unfold 2) simp_all
qed

lemma CompressTxOutAmount_unat:
  assumes "unat a < 2 ^ 60"
  shows "unat (CompressTxOutAmount a) = compress_amount (unat a)"
proof (cases "a = 0")
  case False
  obtain b e where s: "strip_zeros_loop a 0 = (b, e)" by fastforce
  from strip_zeros_loop_eq [OF s]
  have z: "strip_zeros 9 (unat a) = (unat b, unat e)" and e: "unat e \<le> 9" by simp_all
  have nz: "unat a \<noteq> 0" using False by (simp add: unat_eq_zero)
  note v = strip_zeros_value [OF z, THEN conjunct1]
    strip_zeros_value [OF z, THEN conjunct2, THEN conjunct2, rule_format]
  have "0 < unat b" using nz v(1) by (metis bot_nat_0.not_eq_extremum mult_0)
  note v = v this
  have b: "unat b < 2 ^ 60"
    by (rule le_less_trans [OF _ assms]) (simp add: v(1))
  have c: "CompressTxOutAmount a =
      (if e < 9 then 1 + 10 * (9 * (b div 10) + b mod 10 - 1) + e else 10 + 10 * (b - 1))"
    using False by (simp only: CompressTxOutAmount_def s Let_def prod.case if_False)
  show ?thesis
  proof (cases "unat e < 9")
    case True
    then have e9: "e < 9" by (simp add: word_less_nat_alt)
    have d: "1 \<le> unat (b mod 10)" using v(2) [OF True] by simp
    have "9 * unat (b div 10) + unat (b mod 10) \<le> 10 * unat (b div 10) + unat (b mod 10)"
      by (intro add_le_mono1 mult_le_mono1) simp
    also have "\<dots> = unat b" by (simp only: unat_div_10 unat_mod_10 mult_div_mod_eq)
    finally have q: "9 * unat (b div 10) + unat (b mod 10) < 2 ^ 60" using b by (rule le_less_trans)
    have "unat (CompressTxOutAmount a) =
        1 + 10 * (9 * unat (b div 10) + unat (b mod 10) - 1) + unat e"
      unfolding c if_P [OF e9] using d q True by (intro compressed_low) simp_all
    with nz z True show ?thesis by (simp add: compress_amount_def)
  next
    case F: False
    then have e9: "\<not> e < 9" by (simp add: word_less_nat_alt)
    have "unat (CompressTxOutAmount a) = 10 + 10 * (unat b - 1)"
      unfolding c if_not_P [OF e9] using v(3) b by (rule compressed_high)
    with nz z F show ?thesis by (simp add: compress_amount_def)
  qed
qed (simp add: CompressTxOutAmount_def compress_amount_def)

lemma decompressTxOutAmount_unat:
  assumes "decompress_amount (unat c) < 2 ^ 64"
  shows "unat (decompressTxOutAmount c) = decompress_amount (unat c)"
proof (cases "c = 0")
  case False
  let ?y = "c - 1"
  let ?x = "?y div 10" and ?e = "?y mod 10"
  have nz: "unat c \<noteq> 0" using False by (simp add: unat_eq_zero)
  have y: "unat ?y = unat c - 1" using False by (simp add: unat_minus_one)
  let ?n = "if ?e < 9 then ?x div 9 * 10 + (?x mod 9 + 1) else ?x + 1"
  let ?m = "if unat ?e < 9 then unat ?x div 9 * 10 + (unat ?x mod 9 + 1) else unat ?x + 1"
  have m: "decompress_amount (unat c) = ?m * 10 ^ unat ?e"
    using nz y by (simp add: decompress_amount_def Let_def)
  have "?m \<le> ?m * 10 ^ unat ?e" by simp
  with m assms have lt: "?m < 2 ^ 64" by linarith
  have "unat ?n = ?m"
  proof (cases "unat ?e < 9")
    case True
    then have e: "?e < 9" by (simp add: word_less_nat_alt)
    from lt True have lt': "unat ?x div 9 * 10 + (unat ?x mod 9 + 1) < 2 ^ 64" by simp
    then have "unat (?x div 9 * 10 + (?x mod 9 + 1)) = unat ?x div 9 * 10 + (unat ?x mod 9 + 1)"
      by (simp add: unat_word_ariths)
    with True e show ?thesis by simp
  next
    case F: False
    then have e: "\<not> ?e < 9" by (simp add: word_less_nat_alt)
    from lt F have "unat ?x + 1 < 2 ^ 64" by simp
    then have "unat (?x + 1) = unat ?x + 1" by (simp add: unat_word_ariths)
    with F e show ?thesis by simp
  qed
  then have "unat (apply_exponent_loop ?n ?e) = ?m * 10 ^ unat ?e"
    using apply_exponent_loop_eq [of ?n ?e] m assms by simp
  moreover have "decompressTxOutAmount c = apply_exponent_loop ?n ?e"
    using False by (simp only: decompressTxOutAmount_def Let_def if_False)
  ultimately show ?thesis by (simp only: m)
qed (simp add: decompressTxOutAmount_def decompress_amount_def)

text \<open>Decompression inverts compression on every amount below \<open>2 ^ 60\<close>.\<close>

lemma decompress_compress:
  assumes "unat a < 2 ^ 60"
  shows "decompressTxOutAmount (CompressTxOutAmount a) = a"
proof -
  have c: "unat (CompressTxOutAmount a) = compress_amount (unat a)"
    using assms by (rule CompressTxOutAmount_unat)
  then have "decompress_amount (unat (CompressTxOutAmount a)) = unat a"
    by (simp add: decompress_compress_amount)
  moreover from this assms have "decompress_amount (unat (CompressTxOutAmount a)) < 2 ^ 64" by simp
  ultimately show ?thesis
    using decompressTxOutAmount_unat by (simp add: word_unat_eq_iff)
qed

section \<open>Properties\<close>

lemma decompress_amount_0 [simp]: "decompress_amount 0 = 0"
  by (simp add: decompress_amount_def)

text \<open>
  C24: for every amount below \<open>2 ^ 60\<close> satoshi the 64-bit computation wraps nowhere: it is the
  compression formula over the naturals, and decompression gives the amount back.
\<close>

theorem amount_roundtrip:
  assumes "unat a < 2 ^ 60"
  shows "unat (CompressTxOutAmount a) = compress_amount (unat a) \<and>
    decompressTxOutAmount (CompressTxOutAmount a) = a \<and>
    Utxo_DecompressTxOutAmount (Utxo_CompressTxOutAmount a) = a"
  using CompressTxOutAmount_unat [OF assms] decompress_compress [OF assms] by simp

theorem amount_roundtrip_witness:
  "decompressTxOutAmount (CompressTxOutAmount 2099999997690000) = 2099999997690000"
  using amount_roundtrip [of 2099999997690000] by simp

text \<open>
  The other direction: a compressed amount whose value stays below \<open>2 ^ 60\<close> is the only
  compressed form of that value, so stored amounts are canonical.
\<close>

theorem amount_canonical:
  assumes "decompress_amount (unat c) < 2 ^ 60"
  shows "unat (decompressTxOutAmount c) = decompress_amount (unat c) \<and>
    CompressTxOutAmount (decompressTxOutAmount c) = c"
proof -
  have v: "unat (decompressTxOutAmount c) = decompress_amount (unat c)"
    using assms by (intro decompressTxOutAmount_unat) simp
  with assms have "unat (CompressTxOutAmount (decompressTxOutAmount c)) = unat c"
    by (simp add: CompressTxOutAmount_unat compress_decompress_amount)
  with v show ?thesis by (simp add: word_unat_eq_iff)
qed

theorem amount_canonical_witness:
  "CompressTxOutAmount (decompressTxOutAmount 50) = 50"
  using amount_canonical [of 50] by (simp add: decompress_amount_def)

end
