(* ===== verification/Scripts.thy ===== *)
theory Scripts
  imports Vlq Amounts
begin

text \<open>
  The script compression of \<^verbatim>\<open>bitcoincorecompression/compression.go\<close>: recognition of the standard
  scripts, \<open>compressedScriptSize\<close>, \<open>PutCompressedScript\<close>, \<open>DecompressScript\<close>, and the
  compressed transaction output (\<open>putCompressedTxOut\<close>, \<open>decodeCompressedTxOut\<close>).

  The elliptic curve library (\<^verbatim>\<open>btcec\<close>) is a parameter: parsing a public key and writing it
  uncompressed. A target buffer is a list of bytes whose capacity is its length, which is how every
  caller in the repository makes it; the argument of \<open>DecompressScript\<close> keeps its spare capacity.
\<close>

record 'key ec_lib =
  ParsePubKey :: "bytes \<Rightarrow> 'key option"
  SerializeUncompressed :: "'key \<Rightarrow> bytes"

text \<open>Opcodes (\<^verbatim>\<open>txscript.OP_...\<close>) and the identifiers of the special scripts.\<close>

abbreviation OP_DUP :: byte where "OP_DUP \<equiv> 0x76"
abbreviation OP_HASH160 :: byte where "OP_HASH160 \<equiv> 0xa9"
abbreviation OP_DATA_20 :: byte where "OP_DATA_20 \<equiv> 0x14"
abbreviation OP_DATA_33 :: byte where "OP_DATA_33 \<equiv> 0x21"
abbreviation OP_DATA_65 :: byte where "OP_DATA_65 \<equiv> 0x41"
abbreviation OP_EQUALVERIFY :: byte where "OP_EQUALVERIFY \<equiv> 0x88"
abbreviation OP_EQUAL :: byte where "OP_EQUAL \<equiv> 0x87"
abbreviation OP_CHECKSIG :: byte where "OP_CHECKSIG \<equiv> 0xac"

definition numSpecialScripts :: u64 where "numSpecialScripts = 6"

section \<open>Recognition\<close>

text \<open>\<open>Some\<close> hash for \<open>(true, hash)\<close>, \<open>None\<close> for \<open>(false, nil)\<close>.\<close>

definition isPubKeyHash :: "bytes \<Rightarrow> bytes option" where
  "isPubKeyHash script =
     (if length script = 25 \<and> script ! 0 = OP_DUP \<and> script ! 1 = OP_HASH160 \<and>
         script ! 2 = OP_DATA_20 \<and> script ! 23 = OP_EQUALVERIFY \<and> script ! 24 = OP_CHECKSIG
      then Some (take 20 (drop 3 script)) else None)"

definition isScriptHash :: "bytes \<Rightarrow> bytes option" where
  "isScriptHash script =
     (if length script = 23 \<and> script ! 0 = OP_HASH160 \<and> script ! 1 = OP_DATA_20 \<and>
         script ! 22 = OP_EQUAL
      then Some (take 20 (drop 2 script)) else None)"

definition isPubKey :: "'key ec_lib \<Rightarrow> bytes \<Rightarrow> bytes option" where
  "isPubKey ec script =
     (if length script = 35 \<and> script ! 0 = OP_DATA_33 \<and> script ! 34 = OP_CHECKSIG \<and>
         (script ! 1 = 0x02 \<or> script ! 1 = 0x03) \<and>
         ParsePubKey ec (take 33 (drop 1 script)) \<noteq> None
      then Some (take 33 (drop 1 script))
      else if length script = 67 \<and> script ! 0 = OP_DATA_65 \<and> script ! 66 = OP_CHECKSIG \<and>
         script ! 1 = 0x04 \<and> ParsePubKey ec (take 65 (drop 1 script)) \<noteq> None
      then Some (take 65 (drop 1 script))
      else None)"

section \<open>Sizes\<close>

definition compressedScriptSize :: "'key ec_lib \<Rightarrow> bytes \<Rightarrow> nat" where
  "compressedScriptSize ec pkScript =
     (if isPubKeyHash pkScript \<noteq> None then 21
      else if isScriptHash pkScript \<noteq> None then 21
      else if isPubKey ec pkScript \<noteq> None then 33
      else serializeSizeVLQ (of_nat (length pkScript) + numSpecialScripts) + length pkScript)"

definition decodeCompressedScriptSize :: "bytes \<Rightarrow> int" where
  "decodeCompressedScriptSize serialized =
     (case deserializeVLQ serialized of (scriptSize, bytesRead) \<Rightarrow>
        if bytesRead = 0 then 0
        else if scriptSize = 0 then 21
        else if scriptSize = 1 then 21
        else if scriptSize \<in> {2, 3, 4, 5} then 33
        else int_of_u64 (scriptSize - numSpecialScripts + of_nat bytesRead))"

section \<open>Compression\<close>

text \<open>
  \<open>target[0] = b; copy(target[1:n], src)\<close>: the index and the slice bound panic on a buffer that is
  too small. \<open>copy(target[k:], src)\<close> panics when \<open>k\<close> is past the end, and copies what fits.
\<close>

definition put_special :: "bytes \<Rightarrow> byte \<Rightarrow> nat \<Rightarrow> bytes \<Rightarrow> (bytes \<times> nat) outcome" where
  "put_special target b n src =
     (if n \<le> length target \<and> 0 < length target
      then Ok (copy_at (take n (target[0 := b])) 1 src @ drop n target, n)
      else Panic)"

definition put_tail :: "bytes \<Rightarrow> nat \<Rightarrow> bytes \<Rightarrow> bytes outcome" where
  "put_tail target k src = (if k \<le> length target then Ok (copy_at target k src) else Panic)"

definition put_general :: "bytes \<Rightarrow> bytes \<Rightarrow> (bytes \<times> nat) outcome" where
  "put_general target pkScript =
     bindO (PutVLQ target (of_nat (length pkScript) + numSpecialScripts)) (\<lambda>(target, vlqSizeLen).
     bindO (put_tail target vlqSizeLen pkScript) (\<lambda>target.
     Ok (target, vlqSizeLen + length pkScript)))"

definition PutCompressedScript :: "'key ec_lib \<Rightarrow> bytes \<Rightarrow> bytes \<Rightarrow> (bytes \<times> nat) outcome" where
  "PutCompressedScript ec target pkScript =
     (case isPubKeyHash pkScript of
        Some hash \<Rightarrow> put_special target 0 21 hash
      | None \<Rightarrow>
     (case isScriptHash pkScript of
        Some hash \<Rightarrow> put_special target 1 21 hash
      | None \<Rightarrow>
     (case isPubKey ec pkScript of
        Some serializedPubKey \<Rightarrow>
          (let pubKeyFormat = serializedPubKey ! 0 in
           if pubKeyFormat = 0x02 \<or> pubKeyFormat = 0x03
           then put_special target pubKeyFormat 33 (take 32 (drop 1 serializedPubKey))
           else if pubKeyFormat = 0x04
           then put_special target (pubKeyFormat OR (serializedPubKey ! 64 AND 0x01)) 33
                  (take 32 (drop 1 serializedPubKey))
           else put_general target pkScript)
      | None \<Rightarrow> put_general target pkScript)))"

section \<open>Decompression\<close>

definition p2pkh_script :: "bytes \<Rightarrow> bytes" where
  "p2pkh_script h =
     (copy_at ((replicate 25 0)[0 := OP_DUP, 1 := OP_HASH160, 2 := OP_DATA_20]) 3 h)
       [23 := OP_EQUALVERIFY, 24 := OP_CHECKSIG]"

definition p2sh_script :: "bytes \<Rightarrow> bytes" where
  "p2sh_script h =
     (copy_at ((replicate 23 0)[0 := OP_HASH160, 1 := OP_DATA_20]) 2 h)[22 := OP_EQUAL]"

definition p2pk_comp_script :: "byte \<Rightarrow> bytes \<Rightarrow> bytes" where
  "p2pk_comp_script b x =
     (copy_at ((replicate 35 0)[0 := OP_DATA_33, 1 := b]) 2 x)[34 := OP_CHECKSIG]"

definition p2pk_uncomp_script :: "bytes \<Rightarrow> bytes" where
  "p2pk_uncomp_script k =
     (copy_at ((replicate 67 0)[0 := OP_DATA_65]) 1 k)[66 := OP_CHECKSIG]"

text \<open>A nil result is the empty list: the callers use its bytes only.\<close>

definition DecompressScript :: "'key ec_lib \<Rightarrow> slice \<Rightarrow> bytes outcome" where
  "DecompressScript ec compressedPkScript =
     (if sdata compressedPkScript = [] then Ok []
      else case deserializeVLQ (sdata compressedPkScript) of (encodedScriptSize, bytesRead) \<Rightarrow>
        if encodedScriptSize = 0 then
          bindO (reslice compressedPkScript bytesRead (bytesRead + 20)) (\<lambda>h. Ok (p2pkh_script h))
        else if encodedScriptSize = 1 then
          bindO (reslice compressedPkScript bytesRead (bytesRead + 20)) (\<lambda>h. Ok (p2sh_script h))
        else if encodedScriptSize = 2 \<or> encodedScriptSize = 3 then
          bindO (reslice compressedPkScript bytesRead (bytesRead + 32))
            (\<lambda>x. Ok (p2pk_comp_script (ucast encodedScriptSize) x))
        else if encodedScriptSize = 4 \<or> encodedScriptSize = 5 then
          (let compressedKey = copy_at ((replicate 33 0)[0 := ucast (encodedScriptSize - 2)]) 1
                                 (drop 1 (sdata compressedPkScript)) in
           case ParsePubKey ec compressedKey of
             None \<Rightarrow> Ok []
           | Some key \<Rightarrow> Ok (p2pk_uncomp_script (SerializeUncompressed ec key)))
        else
          (let scriptSize = int_of_u64 (encodedScriptSize - numSpecialScripts) in
           if scriptSize < 0 then Panic
           else reslice compressedPkScript bytesRead (bytesRead + nat scriptSize)))"

section \<open>Transaction outputs\<close>

definition compressedTxOutSize :: "'key ec_lib \<Rightarrow> u64 \<Rightarrow> bytes \<Rightarrow> nat" where
  "compressedTxOutSize ec amount pkScript =
     serializeSizeVLQ (CompressTxOutAmount amount) + compressedScriptSize ec pkScript"

definition putCompressedTxOut ::
  "'key ec_lib \<Rightarrow> bytes \<Rightarrow> u64 \<Rightarrow> bytes \<Rightarrow> (bytes \<times> nat) outcome" where
  "putCompressedTxOut ec target amount pkScript =
     bindO (PutVLQ target (CompressTxOutAmount amount)) (\<lambda>(target, offset).
     bindO (PutCompressedScript ec (drop offset target) pkScript) (\<lambda>(rest, n).
     Ok (take offset target @ rest, offset + n)))"

definition decodeCompressedTxOut ::
  "'key ec_lib \<Rightarrow> slice \<Rightarrow> (u64 \<times> bytes \<times> int) outcome" where
  "decodeCompressedTxOut ec serialized =
     (case deserializeVLQ (sdata serialized) of (compressedAmount, bytesRead) \<Rightarrow>
        if length (sdata serialized) \<le> bytesRead
        then Err (Msg ''unexpected end of data after compressed amount'')
        else
          let tail = drop bytesRead (sdata serialized);
              scriptSize = decodeCompressedScriptSize tail in
          if int (length tail) < scriptSize
          then Err (Msg ''unexpected end of data after script size'')
          else if scriptSize < 0 then Panic
          else
            let amount = decompressTxOutAmount compressedAmount in
            bindO (DecompressScript ec
                     \<lparr>sdata = take (nat scriptSize) tail,
                      sspare = drop (nat scriptSize) tail @ sspare serialized\<rparr>) (\<lambda>script.
            Ok (amount, script, int bytesRead + scriptSize)))"

section \<open>The compressed form as a byte list\<close>

definition compress_script :: "'key ec_lib \<Rightarrow> bytes \<Rightarrow> bytes" where
  "compress_script ec s =
     (case isPubKeyHash s of Some h \<Rightarrow> 0 # h | None \<Rightarrow>
     (case isScriptHash s of Some h \<Rightarrow> 1 # h | None \<Rightarrow>
     (case isPubKey ec s of
        Some k \<Rightarrow> (if k ! 0 = 0x04 then 0x04 OR (k ! 64 AND 0x01) else k ! 0) # take 32 (drop 1 k)
      | None \<Rightarrow> vlq (of_nat (length s) + numSpecialScripts) @ s)))"

lemma split3: "s = take a s @ take b (drop a s) @ drop (b + a) s"
  by (metis append_take_drop_id drop_drop)

lemma take_nth:
  "1 \<le> length xs \<Longrightarrow> take (Suc 0) xs = [xs ! 0]"
  "2 \<le> length xs \<Longrightarrow> take 2 xs = [xs ! 0, xs ! 1]"
  "3 \<le> length xs \<Longrightarrow> take 3 xs = [xs ! 0, xs ! 1, xs ! 2]"
  by (auto simp: list_eq_iff_nth_eq less_Suc_eq eval_nat_numeral)

lemma drop_nth:
  "length xs = Suc n \<Longrightarrow> drop n xs = [xs ! n]"
  "length xs = Suc (Suc n) \<Longrightarrow> drop n xs = [xs ! n, xs ! Suc n]"
  by (simp_all add: Cons_nth_drop_Suc [symmetric])

lemma isPubKeyHash_iff:
  "isPubKeyHash s = Some h \<longleftrightarrow>
   length h = 20 \<and> s = [OP_DUP, OP_HASH160, OP_DATA_20] @ h @ [OP_EQUALVERIFY, OP_CHECKSIG]"
proof
  assume "isPubKeyHash s = Some h"
  then have l: "length s = 25" and h: "h = take 20 (drop 3 s)"
    and n: "s ! 0 = OP_DUP" "s ! 1 = OP_HASH160" "s ! 2 = OP_DATA_20" "s ! 23 = OP_EQUALVERIFY" "s ! 24 = OP_CHECKSIG"
    by (auto simp: isPubKeyHash_def split: if_splits)
  have "take 3 s = [OP_DUP, OP_HASH160, OP_DATA_20]" using l n by (simp add: take_nth)
  moreover have "drop 23 s = [OP_EQUALVERIFY, OP_CHECKSIG]" using l n by (simp add: drop_nth)
  ultimately show "length h = 20 \<and> s = [OP_DUP, OP_HASH160, OP_DATA_20] @ h @ [OP_EQUALVERIFY, OP_CHECKSIG]"
    using split3 [of s 3 20] l h by simp
qed (auto simp: isPubKeyHash_def nth_append)

lemma isScriptHash_iff:
  "isScriptHash s = Some h \<longleftrightarrow>
   length h = 20 \<and> s = [OP_HASH160, OP_DATA_20] @ h @ [OP_EQUAL]"
proof
  assume "isScriptHash s = Some h"
  then have l: "length s = 23" and h: "h = take 20 (drop 2 s)"
    and n: "s ! 0 = OP_HASH160" "s ! 1 = OP_DATA_20" "s ! 22 = OP_EQUAL"
    by (auto simp: isScriptHash_def split: if_splits)
  have "take 2 s = [OP_HASH160, OP_DATA_20]" using l n by (simp add: take_nth)
  moreover have "drop 22 s = [OP_EQUAL]" using l n by (simp add: drop_nth)
  ultimately show "length h = 20 \<and> s = [OP_HASH160, OP_DATA_20] @ h @ [OP_EQUAL]"
    using split3 [of s 2 20] l h by simp
qed (auto simp: isScriptHash_def nth_append)

lemma isPubKey_SomeE:
  assumes "isPubKey ec s = Some k"
  obtains (comp) "length k = 33" "k ! 0 = 0x02 \<or> k ! 0 = 0x03" "ParsePubKey ec k \<noteq> None"
      "s = [OP_DATA_33] @ k @ [OP_CHECKSIG]"
    | (uncomp) "length k = 65" "k ! 0 = 0x04" "ParsePubKey ec k \<noteq> None"
      "s = [OP_DATA_65] @ k @ [OP_CHECKSIG]"
proof -
  consider "length s = 35" "s ! 0 = OP_DATA_33" "s ! 34 = OP_CHECKSIG" "s ! 1 = 0x02 \<or> s ! 1 = 0x03"
      "ParsePubKey ec k \<noteq> None" "k = take 33 (drop 1 s)"
    | "length s = 67" "s ! 0 = OP_DATA_65" "s ! 66 = OP_CHECKSIG" "s ! 1 = 0x04"
      "ParsePubKey ec k \<noteq> None" "k = take 65 (drop 1 s)"
    using assms by (auto simp: isPubKey_def split: if_splits)
  then show thesis
  proof cases
    case 1
    then have "take (Suc 0) s = [OP_DATA_33]" "drop 34 s = [OP_CHECKSIG]"
      by (simp_all add: take_nth drop_nth)
    with 1 show thesis using split3 [of s 1 33] by (intro comp) auto
  next
    case 2
    then have "take (Suc 0) s = [OP_DATA_65]" "drop 66 s = [OP_CHECKSIG]"
      by (simp_all add: take_nth drop_nth)
    with 2 show thesis using split3 [of s 1 65] by (intro uncomp) auto
  qed
qed

lemma hash_length:
  "isPubKeyHash s = Some h \<Longrightarrow> length h = 20"
  "isScriptHash s = Some h \<Longrightarrow> length h = 20"
  by (simp_all add: isPubKeyHash_iff isScriptHash_iff)

lemma length_compress_script: "length (compress_script ec s) = compressedScriptSize ec s"
  by (auto simp: compress_script_def compressedScriptSize_def serializeSizeVLQ_length
      dest: hash_length elim: isPubKey_SomeE split: option.split)

lemma put_special_eq:
  "length src = n - 1 \<Longrightarrow> 0 < n \<Longrightarrow> n \<le> length target \<Longrightarrow>
   put_special target b n src = Ok ((b # src) @ drop n target, n)"
  by (cases target) (auto simp: put_special_def copy_at_fits take_Cons')

lemma put_general_eq:
  fixes s :: bytes
  assumes "length (vlq (of_nat (length s) + numSpecialScripts) @ s) \<le> length target"
  shows "put_general target s =
     Ok ((vlq (of_nat (length s) + numSpecialScripts) @ s) @
           drop (length (vlq (of_nat (length s) + numSpecialScripts) @ s)) target,
         length (vlq (of_nat (length s) + numSpecialScripts) @ s))"
  using assms by (simp add: put_general_def PutVLQ_eq put_tail_def copy_at_fits add.commute)

lemma PutCompressedScript_eq:
  assumes "compressedScriptSize ec s \<le> length target"
  shows "PutCompressedScript ec target s =
     Ok (compress_script ec s @ drop (compressedScriptSize ec s) target, compressedScriptSize ec s)"
proof -
  let ?c = "compress_script ec s"
  have len: "length ?c \<le> length target" using assms by (simp add: length_compress_script)
  have "PutCompressedScript ec target s = Ok (?c @ drop (length ?c) target, length ?c)"
  proof (cases "isPubKeyHash s")
    case h: (Some h)
    with hash_length len show ?thesis by (simp add: PutCompressedScript_def compress_script_def put_special_eq)
  next
    case 1: None
    show ?thesis
    proof (cases "isScriptHash s")
      case h: (Some h)
      with 1 hash_length len show ?thesis by (simp add: PutCompressedScript_def compress_script_def put_special_eq)
    next
      case 2: None
      show ?thesis
      proof (cases "isPubKey ec s")
        case None
        with 1 2 len show ?thesis
          using put_general_eq [of s target] by (simp add: PutCompressedScript_def compress_script_def)
      next
        case k: (Some k)
        then show ?thesis
          by (rule isPubKey_SomeE)
            (use 1 2 k len in \<open>auto simp: PutCompressedScript_def compress_script_def put_special_eq\<close>)
      qed
    qed
  qed
  then show ?thesis by (simp add: length_compress_script)
qed

section \<open>Decompression inverts compression\<close>

text \<open>
  What the code relies on of \<^verbatim>\<open>btcec\<close>: a valid uncompressed key \<open>0x04 || X || Y\<close> is
  recovered by parsing its compressed form \<open>(0x02 | oddness of Y) || X\<close> and serializing the result
  uncompressed.
\<close>

definition ec_laws :: "'key ec_lib \<Rightarrow> bool" where
  "ec_laws ec \<longleftrightarrow>
     (\<forall>k. length k = 65 \<longrightarrow> k ! 0 = 0x04 \<longrightarrow> ParsePubKey ec k \<noteq> None \<longrightarrow>
        (\<exists>key. ParsePubKey ec ((0x02 OR (k ! 64 AND 0x01)) # take 32 (drop 1 k)) = Some key \<and>
               SerializeUncompressed ec key = k))"

lemma reslice_after:
  "a = length xs \<Longrightarrow> b = length xs + length ys \<Longrightarrow> reslice \<lparr>sdata = xs @ ys, sspare = zs\<rparr> a b = Ok ys"
  by (simp add: reslice_def slice_cap_def)

lemma p2pkh_script_eq:
  "length h = 20 \<Longrightarrow> p2pkh_script h = [OP_DUP, OP_HASH160, OP_DATA_20] @ h @ [OP_EQUALVERIFY, OP_CHECKSIG]"
  by (simp add: p2pkh_script_def copy_at_fits list_update_append eval_nat_numeral)

lemma p2sh_script_eq:
  "length h = 20 \<Longrightarrow> p2sh_script h = [OP_HASH160, OP_DATA_20] @ h @ [OP_EQUAL]"
  by (simp add: p2sh_script_def copy_at_fits list_update_append eval_nat_numeral)

lemma p2pk_comp_script_eq:
  "length x = 32 \<Longrightarrow> p2pk_comp_script b x = [OP_DATA_33, b] @ x @ [OP_CHECKSIG]"
  by (simp add: p2pk_comp_script_def copy_at_fits list_update_append eval_nat_numeral)

lemma p2pk_uncomp_script_eq:
  "length k = 65 \<Longrightarrow> p2pk_uncomp_script k = [OP_DATA_65] @ k @ [OP_CHECKSIG]"
  by (simp add: p2pk_uncomp_script_def copy_at_fits list_update_append eval_nat_numeral)

text \<open>The general form: the encoded size is never one of the special identifiers.\<close>

lemma general_size:
  assumes "length s < 2 ^ 62"
  defines "n \<equiv> of_nat (length s) + numSpecialScripts"
  shows "n \<notin> {0, 1, 2, 3, 4, 5}" and "n - numSpecialScripts = of_nat (length s)"
    and "uint (of_nat (length s) :: u64) = int (length s)"
proof -
  show u: "uint (of_nat (length s) :: u64) = int (length s)"
    using assms(1) by (simp add: uint_nat unat_of_nat)
  have "unat n = length s + 6"
    using assms(1) unfolding n_def numSpecialScripts_def
    by (subst unat_add_small) (simp_all add: unat_of_nat)
  then show "n \<notin> {0, 1, 2, 3, 4, 5}" by auto
  show "n - numSpecialScripts = of_nat (length s)" by (simp add: n_def)
qed

lemma DecompressScript_general:
  assumes "length s < 2 ^ 62"
  shows "DecompressScript ec \<lparr>sdata = vlq (of_nat (length s) + numSpecialScripts) @ s, sspare = sp\<rparr> = Ok s"
proof -
  let ?n = "of_nat (length s) + numSpecialScripts"
  have d: "deserializeVLQ (vlq ?n @ s) = (?n, length (vlq ?n))" by (rule deserialize_vlq)
  have "int_of_u64 (?n - numSpecialScripts) = int (length s)"
    using general_size [OF assms] assms by (simp add: int_of_u64_small)
  then show ?thesis
    using general_size(1) [OF assms] d
    by (simp add: DecompressScript_def Let_def reslice_after del: add_diff_cancel_right')
qed

lemma odd_byte: "(b :: byte) AND 0x01 = 0 \<or> b AND 0x01 = 0x01"
  by (simp add: and_one_eq mod_2_eq_odd)

lemma DecompressScript_uncomp:
  assumes "ec_laws ec" and "length k = 65" and "k ! 0 = 0x04" and "ParsePubKey ec k \<noteq> None"
  shows "DecompressScript ec
           \<lparr>sdata = (0x04 OR (k ! 64 AND 0x01)) # take 32 (drop 1 k), sspare = sp\<rparr>
         = Ok ([OP_DATA_65] @ k @ [OP_CHECKSIG])"
proof -
  let ?x = "take 32 (drop (Suc 0) k)" and ?o = "k ! 64 AND 0x01 :: byte"
  obtain key where key: "ParsePubKey ec ((0x02 OR ?o) # ?x) = Some key" "SerializeUncompressed ec key = k"
    using assms unfolding ec_laws_def One_nat_def by blast
  have l: "length ?x = 32" using assms(2) by simp
  have o: "?o = 0 \<or> ?o = 1" using odd_byte by simp
  then have d: "deserializeVLQ ((0x04 OR ?o) # ?x) = (ucast (0x04 OR ?o), 1)"
    by (intro deserialize_small) auto
  have b: "ucast (ucast (0x04 OR ?o :: byte) - 2 :: u64) = (0x02 OR ?o :: byte)"
    "(ucast (0x04 OR ?o :: byte) :: u64) = 4 \<or> (ucast (0x04 OR ?o :: byte) :: u64) = 5"
    using o by auto
  have c: "copy_at ((replicate 33 0)[0 := b]) (Suc 0) ?x = b # ?x" for b
    using l by (simp add: copy_at_fits eval_nat_numeral)
  show ?thesis
    using d b key assms(2) by (auto simp: DecompressScript_def Let_def c p2pk_uncomp_script_eq)
qed

lemma DecompressScript_compress:
  assumes "ec_laws ec" and "length s < 2 ^ 62"
  shows "DecompressScript ec \<lparr>sdata = compress_script ec s, sspare = sp\<rparr> = Ok s"
proof (cases "isPubKeyHash s")
  case h: (Some h)
  then have "length h = 20" "s = p2pkh_script h" by (simp_all add: isPubKeyHash_iff p2pkh_script_eq)
  moreover have "compress_script ec s = 0 # h" using h by (simp add: compress_script_def)
  ultimately show ?thesis
    using deserialize_small [of 0 h] reslice_after [of 1 "[0]" 21 h sp]
    by (simp add: DecompressScript_def)
next
  case 1: None
  show ?thesis
  proof (cases "isScriptHash s")
    case h: (Some h)
    then have "length h = 20" "s = p2sh_script h" by (simp_all add: isScriptHash_iff p2sh_script_eq)
    moreover have "compress_script ec s = 1 # h" using 1 h by (simp add: compress_script_def)
    ultimately show ?thesis
      using deserialize_small [of 1 h] reslice_after [of 1 "[1]" 21 h sp]
      by (simp add: DecompressScript_def)
  next
    case 2: None
    show ?thesis
    proof (cases "isPubKey ec s")
      case None
      with 1 2 have "compress_script ec s = vlq (of_nat (length s) + numSpecialScripts) @ s"
        by (simp add: compress_script_def)
      then show ?thesis using assms(2) by (simp only: DecompressScript_general)
    next
      case k: (Some k)
      then show ?thesis
      proof (rule isPubKey_SomeE)
        assume k': "length k = 33" "k ! 0 = 0x02 \<or> k ! 0 = 0x03" "s = [OP_DATA_33] @ k @ [OP_CHECKSIG]"
        let ?x = "take 32 (drop 1 k)"
        have "k = k ! 0 # ?x" using k'(1) by (cases k) auto
        then have s: "s = [OP_DATA_33, k ! 0] @ ?x @ [OP_CHECKSIG]"
          using k'(3) by (metis append_Cons append_Nil)
        have l: "length ?x = 32" using k'(1) by simp
        have "compress_script ec s = k ! 0 # ?x" using 1 2 k k'(2) by (auto simp: compress_script_def)
        moreover have "s = p2pk_comp_script (k ! 0) ?x" using l by (subst s) (simp add: p2pk_comp_script_eq)
        ultimately show ?thesis
          using k'(2) deserialize_small [of "k ! 0" ?x] reslice_after [of 1 "[k ! 0]" 33 ?x sp] l
          by (auto simp: DecompressScript_def)
      next
        assume k': "length k = 65" "k ! 0 = 0x04" "ParsePubKey ec k \<noteq> None" "s = [OP_DATA_65] @ k @ [OP_CHECKSIG]"
        then have "compress_script ec s = (0x04 OR (k ! 64 AND 0x01)) # take 32 (drop 1 k)"
          using 1 2 k by (simp add: compress_script_def)
        with DecompressScript_uncomp [OF assms(1) k'(1-3)] k'(4) show ?thesis by (simp only:)
      qed
    qed
  qed
qed

text \<open>The head of the compressed form tells its size, with anything behind it.\<close>

lemma compress_script_cases:
  obtains (special) b x where "compress_script ec s = b # x" "b \<in> {0, 1, 2, 3, 4, 5}"
      "length x = (if b \<in> {0, 1} then 20 else 32)"
    | (general) "compress_script ec s = vlq (of_nat (length s) + numSpecialScripts) @ s"
proof (cases "isPubKeyHash s")
  case (Some h)
  then show thesis using hash_length by (intro special [of 0 h]) (auto simp: compress_script_def)
next
  case 1: None
  show thesis
  proof (cases "isScriptHash s")
    case (Some h)
    with 1 show thesis using hash_length by (intro special [of 1 h]) (auto simp: compress_script_def)
  next
    case 2: None
    show thesis
    proof (cases "isPubKey ec s")
      case None
      with 1 2 show thesis by (intro general) (simp add: compress_script_def)
    next
      case k: (Some k)
      let ?b = "if k ! 0 = 0x04 then 0x04 OR (k ! 64 AND 0x01) else k ! 0 :: byte"
      have "compress_script ec s = ?b # take 32 (drop 1 k)" using 1 2 k by (simp add: compress_script_def)
      moreover have "?b \<in> {2, 3, 4, 5}" "length (take 32 (drop 1 k)) = 32"
        using odd_byte [of "k ! 64"] k by (auto elim: isPubKey_SomeE)
      ultimately show thesis by (intro special) auto
    qed
  qed
qed

lemma decodeCompressedScriptSize_compress:
  assumes "length s < 2 ^ 62"
  shows "decodeCompressedScriptSize (compress_script ec s @ rest) = int (compressedScriptSize ec s)"
proof (cases rule: compress_script_cases [of ec s])
  case (special b x)
  have "b \<le> 0x7f" using special(2) by auto
  then have "deserializeVLQ (compress_script ec s @ rest) = (ucast b, 1)"
    using deserialize_small special(1) by simp
  moreover have "compressedScriptSize ec s = Suc (length x)"
    using special(1) length_compress_script by (metis length_Cons)
  ultimately show ?thesis
    using special(2,3) by (auto simp: decodeCompressedScriptSize_def)
next
  case general
  let ?n = "of_nat (length s) + numSpecialScripts :: u64"
  have d: "deserializeVLQ (compress_script ec s @ rest) = (?n, length (vlq ?n))"
    by (simp add: general deserialize_vlq)
  have l: "compressedScriptSize ec s = length (vlq ?n) + length s"
    using general length_compress_script by (metis length_append)
  have small: "length (vlq ?n) \<le> 10" by (rule length_vlq_le_10)
  have "unat (of_nat (length s) + of_nat (length (vlq ?n)) :: u64) = length s + length (vlq ?n)"
    using assms small by (subst unat_add_small) (simp_all add: unat_of_nat)
  then have "int_of_u64 (?n - numSpecialScripts + of_nat (length (vlq ?n))) = int (length s + length (vlq ?n))"
    using assms small by (subst int_of_u64_small) (simp_all add: uint_nat)
  then show ?thesis using d l general_size(1) [OF assms] by (simp add: decodeCompressedScriptSize_def)
qed

definition compress_txout :: "'key ec_lib \<Rightarrow> u64 \<Rightarrow> bytes \<Rightarrow> bytes" where
  "compress_txout ec amount s = vlq (CompressTxOutAmount amount) @ compress_script ec s"

lemma length_compress_txout: "length (compress_txout ec amount s) = compressedTxOutSize ec amount s"
  by (simp add: compress_txout_def compressedTxOutSize_def serializeSizeVLQ_length length_compress_script)

lemma putCompressedTxOut_eq:
  assumes "compressedTxOutSize ec amount s \<le> length target"
  shows "putCompressedTxOut ec target amount s =
     Ok (compress_txout ec amount s @ drop (compressedTxOutSize ec amount s) target,
         compressedTxOutSize ec amount s)"
  using assms
  by (simp add: putCompressedTxOut_def PutVLQ_eq PutCompressedScript_eq compress_txout_def
      compressedTxOutSize_def serializeSizeVLQ_length add.commute)

lemma decodeCompressedTxOut_compress:
  assumes "ec_laws ec" and "length s < 2 ^ 62" and "unat amount < 2 ^ 60"
  shows "decodeCompressedTxOut ec \<lparr>sdata = compress_txout ec amount s @ rest, sspare = sp\<rparr>
       = Ok (amount, s, int (compressedTxOutSize ec amount s))"
proof -
  let ?v = "vlq (CompressTxOutAmount amount)" and ?c = "compress_script ec s"
  have "?c \<noteq> []" by (cases rule: compress_script_cases [of ec s]) auto
  moreover have "deserializeVLQ (?v @ ?c @ rest) = (CompressTxOutAmount amount, length ?v)"
    by (rule deserialize_vlq)
  moreover have "DecompressScript ec \<lparr>sdata = ?c, sspare = rest @ sp\<rparr> = Ok s"
    using assms(1,2) by (rule DecompressScript_compress)
  ultimately show ?thesis
    using decodeCompressedScriptSize_compress [OF assms(2), of ec rest] decompress_compress [OF assms(3)]
    by (simp add: decodeCompressedTxOut_def compress_txout_def Let_def length_compress_script [symmetric]
        compressedTxOutSize_def serializeSizeVLQ_length)
qed

section \<open>Properties\<close>

text \<open>
  A library with two keys, for the examples: it knows the uncompressed key \<open>0x04 || 0.. || 0..\<close>
  and its compressed form.
\<close>

definition sample_ec :: "bytes ec_lib" where
  "sample_ec =
     \<lparr>ParsePubKey = (\<lambda>k. if k = 0x04 # replicate 64 0 \<or> k = 0x02 # replicate 32 0
                         then Some (0x04 # replicate 64 0) else None),
      SerializeUncompressed = (\<lambda>key. key)\<rparr>"

lemma sample_ec_laws: "ec_laws sample_ec"
  by (auto simp: ec_laws_def sample_ec_def nth_Cons' eval_nat_numeral)

text \<open>
  C22: a script put into a buffer that holds \<open>compressedScriptSize\<close> bytes occupies exactly those
  bytes, leaves the rest of the buffer alone, and \<open>DecompressScript\<close> gives the same script
  back: for the standard forms the hash or key alone is stored.
\<close>

theorem script_roundtrip:
  assumes "ec_laws ec" and "length s < 2 ^ 62" and "compressedScriptSize ec s \<le> length target"
  shows "\<exists>t. PutCompressedScript ec target s = Ok (t, compressedScriptSize ec s) \<and>
    drop (compressedScriptSize ec s) t = drop (compressedScriptSize ec s) target \<and>
    decodeCompressedScriptSize t = int (compressedScriptSize ec s) \<and>
    DecompressScript ec
      \<lparr>sdata = take (compressedScriptSize ec s) t, sspare = drop (compressedScriptSize ec s) t\<rparr> = Ok s"
  using PutCompressedScript_eq [OF assms(3)] decodeCompressedScriptSize_compress [OF assms(2), of ec]
    DecompressScript_compress [OF assms(1,2)]
  by (simp add: length_compress_script)

theorem script_roundtrip_witness:
  "\<exists>t n. PutCompressedScript sample_ec (replicate 40 0) (p2pkh_script (replicate 20 7)) = Ok (t, n) \<and>
     n = 21 \<and> DecompressScript sample_ec \<lparr>sdata = take n t, sspare = drop n t\<rparr>
       = Ok (p2pkh_script (replicate 20 7))"
proof -
  have "isPubKeyHash (p2pkh_script (replicate 20 7)) \<noteq> None"
    by (simp add: p2pkh_script_eq isPubKeyHash_iff)
  then have "compressedScriptSize sample_ec (p2pkh_script (replicate 20 7)) = 21"
    by (simp add: compressedScriptSize_def)
  then show ?thesis
    using script_roundtrip [OF sample_ec_laws, of "p2pkh_script (replicate 20 7)" "replicate 40 0"]
    by (simp add: p2pkh_script_eq) blast
qed

text \<open>
  A transaction output put into a large enough buffer is read back with its amount, its
  script and the number of bytes it takes, whatever follows it in the buffer.
\<close>

theorem txout_roundtrip:
  assumes "ec_laws ec" and "length s < 2 ^ 62" and "unat amount < 2 ^ 60"
    and "compressedTxOutSize ec amount s \<le> length target"
  shows "\<exists>t. putCompressedTxOut ec target amount s = Ok (t, compressedTxOutSize ec amount s) \<and>
    decodeCompressedTxOut ec (exact_slice t) = Ok (amount, s, int (compressedTxOutSize ec amount s))"
  using putCompressedTxOut_eq [OF assms(4)] decodeCompressedTxOut_compress [OF assms(1-3)]
  by (simp add: exact_slice_def)

theorem txout_roundtrip_witness:
  "\<exists>t n. putCompressedTxOut sample_ec (replicate 40 0) 5000000000 (p2sh_script (replicate 20 9)) = Ok (t, n) \<and>
     decodeCompressedTxOut sample_ec (exact_slice t) = Ok (5000000000, p2sh_script (replicate 20 9), int n)"
proof -
  have "isScriptHash (p2sh_script (replicate 20 9)) \<noteq> None"
    by (simp add: p2sh_script_eq isScriptHash_iff)
  then have "compressedScriptSize sample_ec (p2sh_script (replicate 20 9)) \<le> 21"
    by (simp add: compressedScriptSize_def)
  moreover have "serializeSizeVLQ (CompressTxOutAmount 5000000000) \<le> 10"
    by (simp add: serializeSizeVLQ_length length_vlq_le_10)
  ultimately show ?thesis
    using txout_roundtrip [OF sample_ec_laws, of "p2sh_script (replicate 20 9)" 5000000000 "replicate 40 0"]
    by (auto simp: p2sh_script_eq compressedTxOutSize_def)
qed

end
