(* ===== verification/Go_Stdlib.thy ===== *)
theory Go_Stdlib
  imports Prelude "HOL-Library.Char_ord"
begin

text \<open>
  The parts of Go's standard library the components call, over strings as lists of characters
  (one per byte): \<^verbatim>\<open>encoding/hex\<close>, \<^verbatim>\<open>strings.SplitN\<close>, \<^verbatim>\<open>strings.HasPrefix\<close>,
  \<^verbatim>\<open>strconv.FormatInt\<close> and \<^verbatim>\<open>strconv.ParseInt\<close> with base 10 and 64 bits.
\<close>

section \<open>Hexadecimal\<close>

definition hex_digit :: "nat \<Rightarrow> char" where
  "hex_digit n = ''0123456789abcdef'' ! n"

definition hex_EncodeToString :: "bytes \<Rightarrow> string" where
  "hex_EncodeToString bs = concat (List.map (\<lambda>b. [hex_digit (unat b div 16), hex_digit (unat b mod 16)]) bs)"

definition from_hex :: "char \<Rightarrow> nat option" where
  "from_hex c =
     (let n = of_char c :: nat in
      if 48 \<le> n \<and> n \<le> 57 then Some (n - 48)
      else if 97 \<le> n \<and> n \<le> 102 then Some (n - 87)
      else if 65 \<le> n \<and> n \<le> 70 then Some (n - 55)
      else None)"

text \<open>The pairs are decoded first; a last odd byte is an error of its own, or an invalid byte.\<close>

fun hex_DecodeString :: "string \<Rightarrow> bytes outcome" where
  "hex_DecodeString [] = Ok []"
| "hex_DecodeString [c] =
     (if from_hex c = None then Err (Foreign ''hex: invalid byte'') else Err (Foreign ''hex: odd length''))"
| "hex_DecodeString (c # d # s) =
     (case (from_hex c, from_hex d) of
        (Some a, Some b) \<Rightarrow> bindO (hex_DecodeString s) (\<lambda>bs. Ok (of_nat (16 * a + b) # bs))
      | _ \<Rightarrow> Err (Foreign ''hex: invalid byte''))"

lemma from_hex_digit: "n < 16 \<Longrightarrow> from_hex (hex_digit n) = Some n"
proof -
  have "\<forall>n \<in> set [0..<16]. from_hex (hex_digit n) = Some n"
    by (simp add: upt_rec from_hex_def hex_digit_def nth_Cons')
  then show "n < 16 \<Longrightarrow> from_hex (hex_digit n) = Some n" by simp
qed

lemma hex_roundtrip [simp]: "hex_DecodeString (hex_EncodeToString bs) = Ok bs"
proof (induction bs)
  case (Cons b bs)
  have "unat b < 256" by (rule order_less_le_trans [OF unsigned_less]) simp
  then have "from_hex (hex_digit (unat b div 16)) = Some (unat b div 16)"
    "from_hex (hex_digit (unat b mod 16)) = Some (unat b mod 16)"
    by (auto intro: from_hex_digit)
  moreover have "(of_nat (16 * (unat b div 16) + unat b mod 16) :: byte) = b" by simp
  ultimately show ?case
    using Cons by (simp add: hex_EncodeToString_def del: of_nat_add of_nat_mult)
qed (simp add: hex_EncodeToString_def)

lemma hex_EncodeToString_inj: "hex_EncodeToString a = hex_EncodeToString b \<longleftrightarrow> a = b"
  by (metis hex_roundtrip outcome.inject(1))

section \<open>Splitting\<close>

text \<open>\<open>SplitN(s, sep, n)\<close> for a separator of one character and \<open>n > 0\<close>.\<close>

fun SplitN :: "string \<Rightarrow> char \<Rightarrow> nat \<Rightarrow> string list" where
  "SplitN s sep 0 = []"
| "SplitN s sep (Suc 0) = [s]"
| "SplitN s sep (Suc n) =
     (case dropWhile (\<lambda>c. c \<noteq> sep) s of
        [] \<Rightarrow> [s]
      | _ # r \<Rightarrow> takeWhile (\<lambda>c. c \<noteq> sep) s # SplitN r sep n)"

lemma span_sep:
  assumes "sep \<notin> set a"
  shows "takeWhile (\<lambda>c. c \<noteq> sep) (a @ sep # r) = a" and "dropWhile (\<lambda>c. c \<noteq> sep) (a @ sep # r) = sep # r"
proof -
  have "\<And>c. c \<in> set a \<Longrightarrow> c \<noteq> sep" using assms by auto
  then show "takeWhile (\<lambda>c. c \<noteq> sep) (a @ sep # r) = a" "dropWhile (\<lambda>c. c \<noteq> sep) (a @ sep # r) = sep # r"
    by (simp_all add: takeWhile_append2 dropWhile_append2)
qed

lemma SplitN_step: "sep \<notin> set a \<Longrightarrow> SplitN (a @ sep # r) sep (Suc (Suc n)) = a # SplitN r sep (Suc n)"
  by (simp add: span_sep)

lemma append_sep_inject:
  assumes "sep \<notin> set a" and "sep \<notin> set b" and "a @ sep # r = b @ sep # s"
  shows "a = b \<and> r = s"
  using assms by (metis append_same_eq list.inject span_sep(1,2))

definition HasPrefix :: "string \<Rightarrow> string \<Rightarrow> bool" where
  "HasPrefix s p \<longleftrightarrow> take (length p) s = p"

lemma HasPrefix_iff: "HasPrefix s p \<longleftrightarrow> (\<exists>r. s = p @ r)"
  by (metis HasPrefix_def append_eq_conv_conj append_take_drop_id)

section \<open>Decimal numbers\<close>

definition digit :: "nat \<Rightarrow> char" where
  "digit n = ''0123456789'' ! n"

function nat_digits :: "nat \<Rightarrow> string" where
  "nat_digits n = (if n < 10 then [digit n] else nat_digits (n div 10) @ [digit (n mod 10)])"
  by pat_completeness auto
termination by (relation "measure id") auto

declare nat_digits.simps [simp del]

definition FormatInt :: "int \<Rightarrow> string" where
  "FormatInt n = (if n < 0 then CHR ''-'' # nat_digits (nat (- n)) else nat_digits (nat n))"

definition from_digit :: "char \<Rightarrow> nat option" where
  "from_digit c = (let n = of_char c :: nat in if 48 \<le> n \<and> n \<le> 57 then Some (n - 48) else None)"

fun parse_digits :: "nat \<Rightarrow> string \<Rightarrow> nat option" where
  "parse_digits acc [] = Some acc"
| "parse_digits acc (c # s) =
     (case from_digit c of None \<Rightarrow> None | Some d \<Rightarrow> parse_digits (10 * acc + d) s)"

definition parse_magnitude :: "string \<Rightarrow> nat option" where
  "parse_magnitude s = (if s = [] then None else parse_digits 0 s)"

definition ParseInt :: "string \<Rightarrow> int outcome" where
  "ParseInt s =
     (let (neg, body) = (case s of c # r \<Rightarrow>
            if c = CHR ''+'' then (False, r) else if c = CHR ''-'' then (True, r) else (False, s)
          | [] \<Rightarrow> (False, s)) in
      case parse_magnitude body of
        None \<Rightarrow> Err (Foreign ''strconv: invalid syntax'')
      | Some m \<Rightarrow>
          if \<not> neg \<and> 2 ^ 63 \<le> int m then Err (Foreign ''strconv: value out of range'')
          else if neg \<and> 2 ^ 63 < int m then Err (Foreign ''strconv: value out of range'')
          else Ok (if neg then - int m else int m))"

lemma from_digit_digit: "n < 10 \<Longrightarrow> from_digit (digit n) = Some n"
proof -
  have "\<forall>n \<in> set [0..<10]. from_digit (digit n) = Some n"
    by (simp add: upt_rec from_digit_def digit_def nth_Cons')
  then show "n < 10 \<Longrightarrow> from_digit (digit n) = Some n" by simp
qed

lemma parse_digits_append:
  "parse_digits acc (s @ t) = Option.bind (parse_digits acc s) (\<lambda>a. parse_digits a t)"
  by (induction acc s rule: parse_digits.induct) (auto split: option.split)

lemma parse_nat_digits: "parse_digits 0 (nat_digits n) = Some n"
proof (induction n rule: nat_digits.induct)
  case (1 n)
  show ?case
  proof (cases "n < 10")
    case True
    then show ?thesis by (simp add: nat_digits.simps [of n] from_digit_digit)
  next
    case False
    with 1 show ?thesis
      by (simp add: nat_digits.simps [of n] parse_digits_append from_digit_digit)
  qed
qed

lemma nat_digits_nonempty [simp]: "nat_digits n \<noteq> []"
  by (simp add: nat_digits.simps)

lemma nat_digits_chars: "c \<in> set (nat_digits n) \<Longrightarrow> from_digit c \<noteq> None"
proof (induction n rule: nat_digits.induct)
  case (1 n)
  then show ?case
    by (auto simp: nat_digits.simps [of n] from_digit_digit split: if_splits)
qed

lemma nat_digits_no:
  "CHR ''-'' \<notin> set (nat_digits n)" "CHR ''+'' \<notin> set (nat_digits n)" "CHR '':'' \<notin> set (nat_digits n)"
  by (auto dest!: nat_digits_chars simp: from_digit_def)

lemma FormatInt_no_colon: "CHR '':'' \<notin> set (FormatInt n)"
  by (simp add: FormatInt_def nat_digits_no)

lemma ParseInt_FormatInt: "int64_range n \<Longrightarrow> ParseInt (FormatInt n) = Ok n"
proof -
  assume r: "int64_range n"
  show ?thesis
  proof (cases "n < 0")
    case True
    then show ?thesis using r
      by (simp add: ParseInt_def FormatInt_def parse_magnitude_def parse_nat_digits int64_range_def)
  next
    case False
    obtain c s where cs: "nat_digits (nat n) = c # s" by (cases "nat_digits (nat n)") auto
    then have "c \<noteq> CHR ''-''" "c \<noteq> CHR ''+''" using nat_digits_no [of "nat n"] by auto
    then show ?thesis using r False cs parse_nat_digits [of "nat n"]
      by (simp add: ParseInt_def FormatInt_def parse_magnitude_def int64_range_def)
  qed
qed

end
