(* ===== verification/Utxo_Types.thy ===== *)
theory Utxo_Types
  imports Scripts Go_Stdlib
begin

text \<open>
  The data of the UTXO store: stored transaction outputs and their accessors
  (\<^verbatim>\<open>utxostore/types.go\<close>) and the checkpoint of one block (\<^verbatim>\<open>utxostore/checkpoint.go\<close>).

  The script library (\<^verbatim>\<open>txscript\<close>, \<^verbatim>\<open>btcutil\<close>) is a parameter: extracting the addresses of a
  script, the hash of an address, the key hash of a public key address, and the test for
  provably unspendable scripts. A \<open>*TransactionOutput\<close> is an option (nil is a spent output), the
  script of an output is kept without the spare capacity of its slice.
\<close>

record ('key, 'addr) btc_lib =
  btc_ec :: "'key ec_lib"
  ExtractPkScriptAddrs :: "bytes \<Rightarrow> 'addr list outcome"
  ScriptAddress :: "'addr \<Rightarrow> bytes"
  AddressPubKeyHash :: "'addr \<Rightarrow> 'addr option"
  IsUnspendable :: "bytes \<Rightarrow> bool"

record tx_output =
  CompressedScript :: bytes
  CompressedAmount :: u64

record tx_outputs =
  BlockHeight :: int
  Outputs :: "tx_output option list"

record utxo_entry =
  ue_TxID :: string
  ue_Vout :: "32 word"
  ue_Output :: "tx_output option"
  ue_BlockHeight :: int

definition SetAmount :: "u64 \<Rightarrow> tx_output \<Rightarrow> tx_output" where
  "SetAmount amount t = t\<lparr>CompressedAmount := Utxo_CompressTxOutAmount amount\<rparr>"

definition GetAmount :: "tx_output \<Rightarrow> u64" where
  "GetAmount t = Utxo_DecompressTxOutAmount (CompressedAmount t)"

definition GetScriptBytes :: "('key, 'addr) btc_lib \<Rightarrow> tx_output \<Rightarrow> bytes outcome" where
  "GetScriptBytes lib t = DecompressScript (btc_ec lib) (exact_slice (CompressedScript t))"

definition SetScriptBytes :: "('key, 'addr) btc_lib \<Rightarrow> bytes \<Rightarrow> tx_output \<Rightarrow> tx_output outcome" where
  "SetScriptBytes lib pkScript t =
     bindO (PutCompressedScript (btc_ec lib) (replicate (length pkScript + 16) 0) pkScript) (\<lambda>(buf, n).
     bindO (reslice (exact_slice buf) 0 n) (\<lambda>script.
     Ok (t\<lparr>CompressedScript := script\<rparr>)))"

text \<open>
  \<open>addr.ScriptAddress()\<close>, and for a public key address the hash of the key. The nil receiver of
  \<open>GetAddresses\<close> is the business of its callers.
\<close>

definition address_hash :: "('key, 'addr) btc_lib \<Rightarrow> 'addr \<Rightarrow> bytes" where
  "address_hash lib addr =
     (case AddressPubKeyHash lib addr of
        Some h \<Rightarrow> ScriptAddress lib h
      | None \<Rightarrow> ScriptAddress lib addr)"

definition GetAddresses :: "('key, 'addr) btc_lib \<Rightarrow> tx_output \<Rightarrow> string list outcome" where
  "GetAddresses lib t =
     bindO (GetScriptBytes lib t) (\<lambda>script.
     bindO (wrapO ''failed to extract addresses from the script'' (ExtractPkScriptAddrs lib script)) (\<lambda>addrs.
     Ok (List.map (\<lambda>a. hex_EncodeToString (address_hash lib a)) addrs)))"

text \<open>\<open>output.GetAddresses()\<close> through a pointer: the method reads a field of its receiver.\<close>

definition GetAddresses_ptr :: "('key, 'addr) btc_lib \<Rightarrow> tx_output option \<Rightarrow> string list outcome" where
  "GetAddresses_ptr lib p = (case p of None \<Rightarrow> Panic | Some t \<Rightarrow> GetAddresses lib t)"

definition isSpentOutput :: "tx_output option \<Rightarrow> bool" where
  "isSpentOutput output \<longleftrightarrow> output = None"

fun isAllSpent :: "tx_output option list \<Rightarrow> bool" where
  "isAllSpent [] = True"
| "isAllSpent (output # outputs) = (if \<not> isSpentOutput output then False else isAllSpent outputs)"

lemma isAllSpent_iff: "isAllSpent os \<longleftrightarrow> set os \<subseteq> {None}"
  by (induction os) (auto simp: isSpentOutput_def)

section \<open>Checkpoints\<close>

record checkpoint_block =
  cb_Height :: int
  cb_Hash :: string

text \<open>
  The pointers to the block descriptions may be nil; the getters of a nil description panic.
  The maps are in the order the run-time iterates over them.
\<close>

record checkpoint =
  PrevBlock :: "checkpoint_block option"
  NewBlock :: "checkpoint_block option"
  TxsBeforeUpdate :: "(string, tx_outputs) gomap"
  DereferencedAddressesTxs :: "(string, string list) gomap"
  NewTxOutputs :: "(string, tx_outputs) gomap"
  NewAddreessReferences :: "(string, string list) gomap"

definition NewUTXOSpendingCheckpoint ::
  "checkpoint_block option \<Rightarrow> checkpoint_block option \<Rightarrow> (string, tx_outputs) gomap \<Rightarrow>
   (string, string list) gomap \<Rightarrow> (string, tx_outputs) gomap \<Rightarrow> (string, string list) gomap \<Rightarrow> checkpoint" where
  "NewUTXOSpendingCheckpoint prev new before derefs newouts refs =
     \<lparr>PrevBlock = prev, NewBlock = new, TxsBeforeUpdate = before, DereferencedAddressesTxs = derefs,
      NewTxOutputs = newouts, NewAddreessReferences = refs\<rparr>"

definition deref_block :: "checkpoint_block option \<Rightarrow> checkpoint_block outcome" where
  "deref_block b = (case b of None \<Rightarrow> Panic | Some x \<Rightarrow> Ok x)"

definition GetPreviousBlockHash :: "checkpoint \<Rightarrow> string outcome" where
  "GetPreviousBlockHash u = bindO (deref_block (PrevBlock u)) (\<lambda>b. Ok (cb_Hash b))"
definition GetPreviousBlockheight :: "checkpoint \<Rightarrow> int outcome" where
  "GetPreviousBlockheight u = bindO (deref_block (PrevBlock u)) (\<lambda>b. Ok (cb_Height b))"
definition GetNextBlockHash :: "checkpoint \<Rightarrow> string outcome" where
  "GetNextBlockHash u = bindO (deref_block (NewBlock u)) (\<lambda>b. Ok (cb_Hash b))"
definition GetNewBlockHeight :: "checkpoint \<Rightarrow> int outcome" where
  "GetNewBlockHeight u = bindO (deref_block (NewBlock u)) (\<lambda>b. Ok (cb_Height b))"

lemmas checkpoint_block_getters = GetPreviousBlockHash_def GetPreviousBlockheight_def
  GetNextBlockHash_def GetNewBlockHeight_def deref_block_def

section \<open>Properties\<close>

lemma compressedScriptSize_le: "compressedScriptSize ec s \<le> length s + 16"
proof (cases "isPubKeyHash s = None \<and> isScriptHash s = None \<and> isPubKey ec s = None")
  case True
  then show ?thesis
    using length_vlq_le_10 [of "of_nat (length s) + numSpecialScripts"]
    by (simp add: compressedScriptSize_def serializeSizeVLQ_length)
next
  case False
  have "isPubKeyHash s \<noteq> None \<Longrightarrow> length s = 25" "isScriptHash s \<noteq> None \<Longrightarrow> length s = 23"
    by (auto simp: isPubKeyHash_iff isScriptHash_iff)
  moreover have "isPubKey ec s \<noteq> None \<Longrightarrow> 35 \<le> length s" by (auto elim: isPubKey_SomeE)
  ultimately show ?thesis using False by (auto simp: compressedScriptSize_def)
qed

lemma SetScriptBytes_eq:
  "SetScriptBytes lib s t = Ok (t\<lparr>CompressedScript := compress_script (btc_ec lib) s\<rparr>)"
  using compressedScriptSize_le [of "btc_ec lib" s]
  by (simp add: SetScriptBytes_def PutCompressedScript_eq length_compress_script [symmetric]
      reslice_def exact_slice_def slice_cap_def)

lemma GetScriptBytes_Set:
  "ec_laws (btc_ec lib) \<Longrightarrow> length s < 2 ^ 62 \<Longrightarrow>
   GetScriptBytes lib (t\<lparr>CompressedScript := compress_script (btc_ec lib) s\<rparr>) = Ok s"
  by (simp add: GetScriptBytes_def exact_slice_def DecompressScript_compress)

text \<open>
  The buffer \<open>SetScriptBytes\<close> allocates (16 bytes more than the script) is large enough for
  every script, so it neither panics nor truncates, and \<open>GetScriptBytes\<close> and \<open>GetAmount\<close> give
  back what was set.
\<close>

theorem stored_output_roundtrip:
  assumes "ec_laws (btc_ec lib)" and "length s < 2 ^ 62" and "unat a < 2 ^ 60"
  shows "\<exists>t'. bindO (SetScriptBytes lib s t) (\<lambda>t. Ok (SetAmount a t)) = Ok t' \<and>
    GetScriptBytes lib t' = Ok s \<and> GetAmount t' = a"
  using GetScriptBytes_Set [OF assms(1,2), of t] decompress_compress [OF assms(3)]
  by (simp add: SetScriptBytes_eq SetAmount_def GetAmount_def GetScriptBytes_def)

text \<open>A library for the examples: the address of a script is its bytes.\<close>

definition sample_lib :: "(bytes, bytes) btc_lib" where
  "sample_lib = \<lparr>btc_ec = sample_ec, ExtractPkScriptAddrs = (\<lambda>s. Ok [s]), ScriptAddress = (\<lambda>a. a),
     AddressPubKeyHash = (\<lambda>a. None), IsUnspendable = (\<lambda>s. s = [])\<rparr>"

theorem stored_output_roundtrip_witness:
  "\<exists>t'. bindO (SetScriptBytes sample_lib [1, 2, 3] \<lparr>CompressedScript = [], CompressedAmount = 0\<rparr>)
      (\<lambda>t. Ok (SetAmount 600 t)) = Ok t' \<and> GetScriptBytes sample_lib t' = Ok [1, 2, 3] \<and> GetAmount t' = 600"
  using stored_output_roundtrip [of sample_lib "[1, 2, 3]" 600 "\<lparr>CompressedScript = [], CompressedAmount = 0\<rparr>"]
    sample_ec_laws by (simp add: sample_lib_def)

end
