(* ===== verification/Store_Keys.thy ===== *)
theory Store_Keys
  imports Go_Stdlib
begin

text \<open>
  The keys of the UTXO store (\<^verbatim>\<open>internal/pkg/utxo/utxostore/key.go\<close>): every key of the
  database carries the version of the database, a type and a name. The lemmas show that keys of
  different versions, types or names never collide as strings.
\<close>

definition addressKeyType :: string where "addressKeyType = ''a''"
definition transactionIDKeyType :: string where "transactionIDKeyType = ''t''"
definition blockheightKeyType :: string where "blockheightKeyType = ''b''"

record storageKey =
  sk_dbVer :: string
  sk_prefix :: string
  sk_key :: string

definition newBlockHeightKey :: "string \<Rightarrow> storageKey" where
  "newBlockHeightKey ver = \<lparr>sk_dbVer = ver, sk_prefix = blockheightKeyType, sk_key = ''height''\<rparr>"

definition newBlockHashKey :: "string \<Rightarrow> storageKey" where
  "newBlockHashKey ver = \<lparr>sk_dbVer = ver, sk_prefix = blockheightKeyType, sk_key = ''hash''\<rparr>"

definition newAddressUTXOTxIDsSetKey :: "string \<Rightarrow> string \<Rightarrow> storageKey" where
  "newAddressUTXOTxIDsSetKey ver address =
     \<lparr>sk_dbVer = ver, sk_prefix = addressKeyType, sk_key = address\<rparr>"

definition newTransactionIDKey :: "string \<Rightarrow> string \<Rightarrow> storageKey" where
  "newTransactionIDKey ver txID =
     \<lparr>sk_dbVer = ver, sk_prefix = transactionIDKeyType, sk_key = txID\<rparr>"

definition StorageKeyFromString :: "string \<Rightarrow> storageKey outcome" where
  "StorageKeyFromString s =
     (let keyColumns = SplitN s (CHR '':'') 3 in
      if length keyColumns < 3 then Err ErrInvalidStorageKeyFormat
      else Ok \<lparr>sk_dbVer = keyColumns ! 0, sk_prefix = keyColumns ! 1, sk_key = keyColumns ! 1\<rparr>)"

definition key_String :: "storageKey \<Rightarrow> string" where
  "key_String s = sk_dbVer s @ '':'' @ sk_prefix s @ '':'' @ sk_key s"

definition TypeOf :: "storageKey \<Rightarrow> string \<Rightarrow> bool" where
  "TypeOf s t \<longleftrightarrow> sk_prefix s = t"

text \<open>The four keys of a version as strings.\<close>

abbreviation height_key :: "string \<Rightarrow> string" where
  "height_key ver \<equiv> key_String (newBlockHeightKey ver)"
abbreviation hash_key :: "string \<Rightarrow> string" where
  "hash_key ver \<equiv> key_String (newBlockHashKey ver)"
abbreviation addr_key :: "string \<Rightarrow> string \<Rightarrow> string" where
  "addr_key ver address \<equiv> key_String (newAddressUTXOTxIDsSetKey ver address)"
abbreviation tx_key :: "string \<Rightarrow> string \<Rightarrow> string" where
  "tx_key ver txID \<equiv> key_String (newTransactionIDKey ver txID)"

lemmas new_key_defs = newBlockHeightKey_def newBlockHashKey_def newAddressUTXOTxIDsSetKey_def
  newTransactionIDKey_def addressKeyType_def transactionIDKeyType_def blockheightKeyType_def

lemma key_String_inj:
  assumes "CHR '':'' \<notin> set (sk_dbVer a)" "CHR '':'' \<notin> set (sk_dbVer b)"
    and "CHR '':'' \<notin> set (sk_prefix a)" "CHR '':'' \<notin> set (sk_prefix b)"
    and "key_String a = key_String b"
  shows "sk_dbVer a = sk_dbVer b \<and> sk_prefix a = sk_prefix b \<and> sk_key a = sk_key b"
proof -
  let ?c = "CHR '':''"
  have "sk_dbVer a @ ?c # (sk_prefix a @ ?c # sk_key a) = sk_dbVer b @ ?c # (sk_prefix b @ ?c # sk_key b)"
    using assms(5) by (simp add: key_String_def)
  with append_sep_inject [OF assms(1,2)]
  have "sk_dbVer a = sk_dbVer b" "sk_prefix a @ ?c # sk_key a = sk_prefix b @ ?c # sk_key b" by blast+
  with append_sep_inject [OF assms(3,4)] show ?thesis by blast
qed

text \<open>Keys of one version: no premise on the version, the common prefix cancels.\<close>

lemma same_version_keys [simp]:
  "tx_key v x = tx_key v y \<longleftrightarrow> x = y"
  "addr_key v x = addr_key v y \<longleftrightarrow> x = y"
  "tx_key v x \<noteq> addr_key v y" "addr_key v y \<noteq> tx_key v x"
  "tx_key v x \<noteq> height_key v" "height_key v \<noteq> tx_key v x"
  "tx_key v x \<noteq> hash_key v" "hash_key v \<noteq> tx_key v x"
  "addr_key v y \<noteq> height_key v" "height_key v \<noteq> addr_key v y"
  "addr_key v y \<noteq> hash_key v" "hash_key v \<noteq> addr_key v y"
  "height_key v \<noteq> hash_key v" "hash_key v \<noteq> height_key v"
  by (simp_all add: key_String_def new_key_defs)

section \<open>Properties\<close>



text \<open>
  Parsing a key string gives back its version and its type, but the name it reports is the type
  again: the parser copies the second column twice.
\<close>

theorem StorageKeyFromString_of_String:
  assumes "CHR '':'' \<notin> set (sk_dbVer k)" and "CHR '':'' \<notin> set (sk_prefix k)"
  shows "StorageKeyFromString (key_String k) =
    Ok \<lparr>sk_dbVer = sk_dbVer k, sk_prefix = sk_prefix k, sk_key = sk_prefix k\<rparr>"
proof -
  let ?c = "CHR '':''"
  have "SplitN (sk_dbVer k @ ?c # (sk_prefix k @ ?c # sk_key k)) ?c (Suc (Suc (Suc 0)))
      = [sk_dbVer k, sk_prefix k, sk_key k]"
    using assms by (simp add: SplitN_step del: SplitN.simps(3))
  then show ?thesis by (simp add: StorageKeyFromString_def key_String_def eval_nat_numeral)
qed

theorem StorageKeyFromString_of_String_witness:
  "StorageKeyFromString (key_String (newTransactionIDKey ''1'' ''beef'')) = Ok (newTransactionIDKey ''1'' ''t'')"
  using StorageKeyFromString_of_String [of "newTransactionIDKey ''1'' ''beef''"] by (simp add: new_key_defs)

end
