(* ===== verification/Store_Interfaces.thy ===== *)
theory Store_Interfaces
  imports Utxo_Types Store_Keys
begin

text \<open>
  The interfaces the UTXO store is written against: \<open>keyvaluestore.Store\<close> and
  \<open>StoreWithTxManager\<close>, \<open>sets.Sets\<close> and \<open>SetsWithTxManager\<close>, \<open>txmanager.Transaction\<close> and its
  factory, and \<open>CheckpointStore\<close>, each as a record of operations on a world \<open>'w\<close>, and the laws their
  documentation promises as locales over views of that world: \<open>ks\<close> is the key space, \<open>pend\<close>
  the commands queued in a transaction and \<open>ck\<close> the stored checkpoint.
\<close>

section \<open>Values and the key space\<close>

text \<open>
  \<open>Get\<close> and \<open>Set\<close> take \<open>any\<close>: \<open>govalue\<close> lists the values the program stores, \<open>gotype\<close> the
  types of the destinations it passes (\<open>TAny\<close> for a destination of type \<open>any\<close>).
\<close>

datatype govalue =
    VInt64 int
  | VString string
  | VOutputs tx_outputs
  | VOutputList "tx_output option list"

datatype gotype = TInt64 | TString | TOutputs | TOutputList | TAny

fun gotype_of :: "govalue \<Rightarrow> gotype" where
  "gotype_of (VInt64 _) = TInt64"
| "gotype_of (VString _) = TString"
| "gotype_of (VOutputs _) = TOutputs"
| "gotype_of (VOutputList _) = TOutputList"

datatype entry = Val govalue | Members "string set" | Opaque

type_synonym kstate = "string \<rightharpoonup> entry"

definition members :: "kstate \<Rightarrow> string \<Rightarrow> string set" where
  "members m k = (case m k of Some (Members s) \<Rightarrow> s | _ \<Rightarrow> {})"

definition set_entry :: "string set \<Rightarrow> entry option" where
  "set_entry s = (if s = {} then None else Some (Members s))"

text \<open>The write commands; adding to or removing from a value that is no set changes nothing.\<close>

datatype kcmd =
    KPut string entry
  | KDel string
  | KAdd string "string list"
  | KRem string "string list"

abbreviation KSet :: "string \<Rightarrow> govalue \<Rightarrow> kcmd" where
  "KSet k v \<equiv> KPut k (Val v)"

definition holds_set :: "kstate \<Rightarrow> string \<Rightarrow> bool" where
  "holds_set m k \<longleftrightarrow> (case m k of None \<Rightarrow> True | Some (Members s) \<Rightarrow> s \<noteq> {} | _ \<Rightarrow> False)"

fun exec :: "kcmd \<Rightarrow> kstate \<Rightarrow> kstate" where
  "exec (KPut k e) m = m(k \<mapsto> e)"
| "exec (KDel k) m = m(k := None)"
| "exec (KAdd k xs) m = (if holds_set m k then m(k := set_entry (members m k \<union> set xs)) else m)"
| "exec (KRem k xs) m = (if holds_set m k then m(k := set_entry (members m k - set xs)) else m)"

fun run :: "kcmd list \<Rightarrow> kstate \<Rightarrow> kstate" where
  "run [] m = m"
| "run (c # cs) m = run cs (exec c m)"

fun cmd_key :: "kcmd \<Rightarrow> string" where
  "cmd_key (KPut k e) = k"
| "cmd_key (KDel k) = k"
| "cmd_key (KAdd k xs) = k"
| "cmd_key (KRem k xs) = k"

lemma run_append [simp]: "run (cs @ ds) m = run ds (run cs m)"
  by (induction cs arbitrary: m) auto

lemma exec_other [simp]: "cmd_key c \<noteq> k \<Longrightarrow> exec c m k = m k"
  by (cases c) auto

lemma run_other: "k \<notin> cmd_key ` set cs \<Longrightarrow> run cs m k = m k"
  by (induction cs arbitrary: m) auto

lemma members_None [simp]: "m k = None \<Longrightarrow> members m k = {}"
  by (simp add: members_def)

lemma members_cong: "m k = n k \<Longrightarrow> members m k = members n k"
  by (simp add: members_def)

lemma members_fun_upd [simp]: "members (m(k := set_entry s)) k = s"
  by (simp add: members_def set_entry_def)

lemma members_other [simp]: "k \<noteq> l \<Longrightarrow> members (m(k := e)) l = members m l"
  by (simp add: members_def)

lemma holds_set_entry: "holds_set m k \<longleftrightarrow> m k = set_entry (members m k)"
  by (auto simp: holds_set_def members_def set_entry_def split: option.splits entry.splits)

lemma holds_set_other: "k \<noteq> l \<Longrightarrow> holds_set (m(k := e)) l = holds_set m l"
  by (simp add: holds_set_def)

lemma holds_set_upd [simp]: "holds_set (m(k := set_entry s)) k"
  by (simp add: holds_set_def set_entry_def)

section \<open>The operations\<close>

text \<open>
  \<open>kv_MulGet\<close> returns what its callback and its decoder see: for each answered key, in order, the
  value decoded into the allocated destination, or \<open>None\<close> when nothing was stored.
\<close>

record 'w kv_store =
  kv_Get :: "gotype \<Rightarrow> string \<Rightarrow> ('w, govalue option) st"
  kv_MulGet :: "gotype \<Rightarrow> string list \<Rightarrow> ('w, (string \<times> govalue option) list) st"
  kv_Set :: "string \<Rightarrow> govalue \<Rightarrow> ('w, unit) st"
  kv_Delete :: "string \<Rightarrow> ('w, unit) st"
  kv_DeleteByPattern :: "string \<Rightarrow> ('w, unit) st"

record ('w, 'tx) kv_with_tx =
  kv_base :: "'w kv_store"
  kv_WithTx :: "'tx \<Rightarrow> 'w kv_store outcome"

record 'w sets_store =
  set_GetSet :: "string \<Rightarrow> ('w, string list) st"
  set_AddToSet :: "string \<Rightarrow> string list \<Rightarrow> ('w, unit) st"
  set_RemoveFromSet :: "string \<Rightarrow> string list \<Rightarrow> ('w, unit) st"
  set_DeleteSet :: "string \<Rightarrow> ('w, unit) st"

record ('w, 'tx) sets_with_tx =
  sets_base :: "'w sets_store"
  sets_WithTx :: "'tx \<Rightarrow> 'w sets_store outcome"

text \<open>
  A transaction factory (its argument is the list of watched keys of the settings), and the
  operations of the transactions it makes.
\<close>

record ('w, 'tx) tx_driver =
  tx_Begin :: "string list option \<Rightarrow> ('w, 'tx) st"
  tx_Commit :: "'tx \<Rightarrow> ('w, unit) st"
  tx_Rollback :: "'tx \<Rightarrow> ('w, unit) st"

record 'w checkpoint_store =
  cs_LastCheckpoint :: "('w, checkpoint option) st"
  cs_SaveCheckpoint :: "checkpoint \<Rightarrow> ('w, unit) st"
  cs_RemoveLatestCheckpoint :: "('w, unit) st"

section \<open>The laws\<close>

text \<open>
  A write either took effect or returned an error; an error leaves open whether the server
  executed the command (a lost answer). Errors of a provider are not sentinel errors of the store.
\<close>

datatype ckpt_file = NoFile | Saved checkpoint | Torn

definition foreign :: "go_error \<Rightarrow> bool" where
  "foreign e \<longleftrightarrow> \<not> errors_is e ErrNotFound \<and> \<not> errors_is e ErrBlockHashNotFound"

definition applies :: "('w \<Rightarrow> kstate) \<Rightarrow> ('w \<Rightarrow> 'r) \<Rightarrow> ('w, unit) st \<Rightarrow> kcmd \<Rightarrow> bool" where
  "applies ks ck f c \<longleftrightarrow> (\<forall>w r w'. f w = (r, w') \<longrightarrow>
     ck w' = ck w \<and> r \<noteq> Panic \<and>
     (r = Ok () \<longrightarrow> ks w' = exec c (ks w)) \<and>
     (ks w' = ks w \<or> ks w' = exec c (ks w)))"

definition queues ::
  "('w \<Rightarrow> kstate) \<Rightarrow> ('w \<Rightarrow> 'r) \<Rightarrow> ('w \<Rightarrow> 'tx \<Rightarrow> kcmd list) \<Rightarrow> 'tx \<Rightarrow> ('w, unit) st \<Rightarrow> kcmd list \<Rightarrow> bool" where
  "queues ks ck pend tx f cs \<longleftrightarrow> (\<forall>w. \<exists>w'. f w = (Ok (), w') \<and>
     ks w' = ks w \<and> ck w' = ck w \<and> pend w' tx = pend w tx @ cs)"

locale kv_laws =
  fixes S :: "'w kv_store" and ks :: "'w \<Rightarrow> kstate" and ck :: "'w \<Rightarrow> 'r"
  assumes Get_frame: "kv_Get S t k w = (r, w') \<Longrightarrow> ks w' = ks w \<and> ck w' = ck w \<and> r \<noteq> Panic"
    and Get_None: "kv_Get S t k w = (Ok None, w') \<Longrightarrow> ks w k = None"
    and Get_Some: "kv_Get S t k w = (Ok (Some v), w') \<Longrightarrow> ks w k \<noteq> None"
    and Get_value: "kv_Get S t k w = (Ok (Some v), w') \<Longrightarrow> ks w k = Some (Val u) \<Longrightarrow>
        gotype_of u = t \<Longrightarrow> v = u"
    and Get_error: "kv_Get S t k w = (Err e, w') \<Longrightarrow> foreign e"
    and Set: "applies ks ck (kv_Set S k v) (KSet k v)"
    and Delete: "applies ks ck (kv_Delete S k) (KDel k)"

locale sets_laws =
  fixes S :: "'w sets_store" and ks :: "'w \<Rightarrow> kstate" and ck :: "'w \<Rightarrow> 'r"
  assumes GetSet_frame: "set_GetSet S k w = (r, w') \<Longrightarrow> ks w' = ks w \<and> ck w' = ck w \<and> r \<noteq> Panic"
    and GetSet_members: "set_GetSet S k w = (Ok xs, w') \<Longrightarrow> set xs = members (ks w) k"
    and AddToSet: "applies ks ck (set_AddToSet S k xs) (KAdd k xs)"
    and RemoveFromSet: "applies ks ck (set_RemoveFromSet S k xs) (KRem k xs)"

text \<open>
  A transaction: the stores bound to it queue their writes without failing, commit runs the queue
  as one unit or not at all, rollback runs nothing.
\<close>

locale tx_laws =
  fixes D :: "('w, 'tx) tx_driver" and kvT :: "'tx \<Rightarrow> 'w kv_store outcome"
    and setsT :: "'tx \<Rightarrow> 'w sets_store outcome"
    and ks :: "'w \<Rightarrow> kstate" and ck :: "'w \<Rightarrow> 'r" and pend :: "'w \<Rightarrow> 'tx \<Rightarrow> kcmd list"
  assumes Begin_frame: "tx_Begin D keys w = (b, w') \<Longrightarrow> ks w' = ks w \<and> ck w' = ck w \<and> b \<noteq> Panic"
    and Begin_pend: "tx_Begin D keys w = (Ok tx, w') \<Longrightarrow> pend w' tx = []"
    and Commit_frame: "tx_Commit D tx w = (r, w') \<Longrightarrow> ck w' = ck w \<and> r \<noteq> Panic"
    and Commit_Ok: "tx_Commit D tx w = (Ok (), w') \<Longrightarrow> ks w' = run (pend w tx) (ks w)"
    and Commit_all_or_none:
      "tx_Commit D tx w = (r, w') \<Longrightarrow> ks w' = ks w \<or> ks w' = run (pend w tx) (ks w)"
    and Rollback_frame: "tx_Rollback D tx w = (r, w') \<Longrightarrow> ks w' = ks w \<and> ck w' = ck w \<and> r \<noteq> Panic"
    and kvT_total: "\<exists>s. kvT tx = Ok s"
    and setsT_total: "\<exists>s. setsT tx = Ok s"
    and kvT_Set: "kvT tx = Ok s \<Longrightarrow> queues ks ck pend tx (kv_Set s k v) [KSet k v]"
    and kvT_Delete: "kvT tx = Ok s \<Longrightarrow> queues ks ck pend tx (kv_Delete s k) [KDel k]"
    and setsT_Add: "setsT tx = Ok z \<Longrightarrow> queues ks ck pend tx (set_AddToSet z k xs) [KAdd k xs]"
    and setsT_Remove: "setsT tx = Ok z \<Longrightarrow> queues ks ck pend tx (set_RemoveFromSet z k xs) [KRem k xs]"

text \<open>
  A failed save leaves the file as it was, or complete, or torn: the write is not atomic. Reading a
  torn file is an error.
\<close>

locale checkpoint_laws =
  fixes C :: "'w checkpoint_store" and ks :: "'w \<Rightarrow> kstate" and ck :: "'w \<Rightarrow> ckpt_file"
  assumes Last_frame: "cs_LastCheckpoint C w = (l, w') \<Longrightarrow> ks w' = ks w \<and> ck w' = ck w \<and> l \<noteq> Panic"
    and Last_None: "cs_LastCheckpoint C w = (Ok None, w') \<Longrightarrow> ck w = NoFile"
    and Last_Some: "cs_LastCheckpoint C w = (Ok (Some cp), w') \<Longrightarrow> ck w = Saved cp"
    and Save_frame: "cs_SaveCheckpoint C cp w = (r, w') \<Longrightarrow> ks w' = ks w \<and> r \<noteq> Panic"
    and Save_Ok: "cs_SaveCheckpoint C cp w = (Ok (), w') \<Longrightarrow> ck w' = Saved cp"
    and Save_any: "cs_SaveCheckpoint C cp w = (r, w') \<Longrightarrow> ck w' = ck w \<or> ck w' = Saved cp \<or> ck w' = Torn"
    and Remove_frame: "cs_RemoveLatestCheckpoint C w = (r, w') \<Longrightarrow> ks w' = ks w \<and> r \<noteq> Panic"
    and Remove_Ok: "cs_RemoveLatestCheckpoint C w = (Ok (), w') \<Longrightarrow> ck w' = NoFile"
    and Remove_Err: "cs_RemoveLatestCheckpoint C w = (Err e, w') \<Longrightarrow> ck w' = ck w \<or> ck w' = NoFile"

lemma appliesD:
  assumes "applies ks ck f c" and "f w = (r, w')"
  shows "ck w' = ck w" and "r \<noteq> Panic" and "r = Ok () \<Longrightarrow> ks w' = exec c (ks w)"
    and "ks w' = ks w \<or> ks w' = exec c (ks w)"
  using assms unfolding applies_def by blast+

lemma applies_wrap: "applies ks ck f c \<Longrightarrow> applies ks ck (wrapS m f) c"
  by (auto simp: applies_def wrapS_def split: prod.splits)

lemma applies_mask: "applies ks ck f c \<Longrightarrow> applies ks ck (maskS e f) c"
  by (fastforce simp: applies_def maskS_def split: prod.splits outcome.splits)

text \<open>Queueing composes: a block of code that only queues is a list of commands.\<close>

named_theorems queue_intros \<open>composition of code that queues commands\<close>

lemma queuesE:
  assumes "queues ks ck pend tx f cs"
  obtains w' where "f w = (Ok (), w')" "ks w' = ks w" "ck w' = ck w" "pend w' tx = pend w tx @ cs"
  using assms unfolding queues_def by blast

lemma queues_wrap [queue_intros]: "queues ks ck pend tx f c \<Longrightarrow> queues ks ck pend tx (wrapS m f) c"
  by (simp add: queues_def wrapS_Ok_iff)

lemma queues_mask [queue_intros]: "queues ks ck pend tx f c \<Longrightarrow> queues ks ck pend tx (maskS e f) c"
  by (simp add: queues_def maskS_Ok_iff)

lemma queues_ret [queue_intros]: "queues ks ck pend tx (retS ()) []"
  by (simp add: queues_def retS_apply)

lemma queues_then [queue_intros]:
  assumes "queues ks ck pend tx f cs" and "queues ks ck pend tx g ds"
  shows "queues ks ck pend tx (thenS f g) (cs @ ds)"
  unfolding queues_def
proof
  fix w
  obtain w1 where 1: "f w = (Ok (), w1)" "ks w1 = ks w" "ck w1 = ck w" "pend w1 tx = pend w tx @ cs"
    using assms(1) by (rule queuesE)
  obtain w2 where 2: "g w1 = (Ok (), w2)" "ks w2 = ks w1" "ck w2 = ck w1" "pend w2 tx = pend w1 tx @ ds"
    using assms(2) by (rule queuesE)
  show "\<exists>w'. thenS f g w = (Ok (), w') \<and> ks w' = ks w \<and> ck w' = ck w \<and> pend w' tx = pend w tx @ cs @ ds"
    using 1 2 by (intro exI [of _ w2]) (simp add: thenS_step)
qed

lemma queues_for [queue_intros]:
  assumes "\<And>x. x \<in> set xs \<Longrightarrow> queues ks ck pend tx (f x) (cs x)"
  shows "queues ks ck pend tx (forS f xs) (concat (List.map cs xs))"
  using assms by (induction xs) (auto intro: queue_intros)

section \<open>Sequences of direct writes\<close>

text \<open>
  Code that runs the commands \<open>cs\<close> one by one against the server: on success all of them took
  effect; an error or a crash leaves the effect of a prefix.
\<close>

definition does :: "('w \<Rightarrow> kstate) \<Rightarrow> ('w \<Rightarrow> 'r) \<Rightarrow> ('w, unit) st \<Rightarrow> kcmd list \<Rightarrow> bool" where
  "does ks ck f cs \<longleftrightarrow> (\<forall>w r w'. f w = (r, w') \<longrightarrow>
     ck w' = ck w \<and> r \<noteq> Panic \<and> (r = Ok () \<longrightarrow> ks w' = run cs (ks w)) \<and>
     (\<exists>n. ks w' = run (take n cs) (ks w)))"

named_theorems does_intros \<open>composition of code that runs commands\<close>

lemma does_one [does_intros]: "applies ks ck f c \<Longrightarrow> does ks ck f [c]"
  unfolding applies_def does_def
proof (intro allI impI)
  fix w r w'
  assume a: "\<forall>w r w'. f w = (r, w') \<longrightarrow> ck w' = ck w \<and> r \<noteq> Panic \<and>
      (r = Ok () \<longrightarrow> ks w' = exec c (ks w)) \<and> (ks w' = ks w \<or> ks w' = exec c (ks w))"
    and f: "f w = (r, w')"
  then have "ks w' = run (take 0 [c]) (ks w) \<or> ks w' = run (take 1 [c]) (ks w)" by auto
  then have "\<exists>n. ks w' = run (take n [c]) (ks w)" by blast
  with a f show "ck w' = ck w \<and> r \<noteq> Panic \<and> (r = Ok () \<longrightarrow> ks w' = run [c] (ks w)) \<and>
      (\<exists>n. ks w' = run (take n [c]) (ks w))" by auto
qed

lemma does_ret [does_intros]: "does ks ck (retS ()) []"
  by (simp add: does_def retS_apply)

lemma does_wrap [does_intros]: "does ks ck f cs \<Longrightarrow> does ks ck (wrapS m f) cs"
  by (auto simp: does_def wrapS_def split: prod.splits)

lemma does_then [does_intros]:
  assumes f: "does ks ck f cs" and g: "does ks ck g ds"
  shows "does ks ck (thenS f g) (cs @ ds)"
  unfolding does_def
proof (intro allI impI)
  fix w r w'
  assume "thenS f g w = (r, w')"
  then show "ck w' = ck w \<and> r \<noteq> Panic \<and> (r = Ok () \<longrightarrow> ks w' = run (cs @ ds) (ks w)) \<and>
      (\<exists>n. ks w' = run (take n (cs @ ds)) (ks w))"
  proof (cases rule: thenS_cases)
    case (Ok a v)
    then have 1: "ck v = ck w" "ks v = run cs (ks w)" using f unfolding does_def by (cases a, blast)+
    from Ok(2) g obtain n where "ck w' = ck v" "r \<noteq> Panic" "r = Ok () \<longrightarrow> ks w' = run ds (ks v)"
      "ks w' = run (take n ds) (ks v)" unfolding does_def by blast
    moreover have "run (take (length cs + n) (cs @ ds)) (ks w) = run (take n ds) (ks v)" using 1 by simp
    ultimately show ?thesis using 1 by (metis run_append)
  next
    case (Err e)
    with f obtain n where "ck w' = ck w" "ks w' = run (take n cs) (ks w)" unfolding does_def by blast
    moreover have "take n cs = take (min n (length cs)) (cs @ ds)" by (simp add: min_def)
    ultimately show ?thesis using Err by (metis outcome.distinct(1,5))
  next
    case Panic
    with f show ?thesis unfolding does_def by blast
  qed
qed

lemma does_for [does_intros]:
  assumes "\<And>x. x \<in> set xs \<Longrightarrow> does ks ck (f x) (cs x)"
  shows "does ks ck (forS f xs) (concat (List.map cs xs))"
  using assms by (induction xs) (auto intro: does_intros)

lemma does_map [does_intros]:
  "(\<And>x. x \<in> set xs \<Longrightarrow> does ks ck (f x) [c x]) \<Longrightarrow> does ks ck (forS f xs) (List.map c xs)"
  using does_for [of xs ks ck f "\<lambda>x. [c x]"] by simp

section \<open>Reads\<close>

text \<open>
  \<open>obs ks ck f m Q E\<close>: from a world whose key space is \<open>m\<close>, \<open>f\<close> changes neither the key space nor
  the checkpoint, does not panic, and its result satisfies \<open>Q\<close>, its error \<open>E\<close>.
\<close>

definition obs :: "('w \<Rightarrow> kstate) \<Rightarrow> ('w \<Rightarrow> 'r) \<Rightarrow> ('w, 'a) st \<Rightarrow> kstate \<Rightarrow> ('a \<Rightarrow> bool) \<Rightarrow> (go_error \<Rightarrow> bool) \<Rightarrow> bool" where
  "obs ks ck f m Q E \<longleftrightarrow> (\<forall>w r w'. ks w = m \<longrightarrow> f w = (r, w') \<longrightarrow>
     ks w' = ks w \<and> ck w' = ck w \<and> r \<noteq> Panic \<and> (\<forall>a. r = Ok a \<longrightarrow> Q a) \<and> (\<forall>e. r = Err e \<longrightarrow> E e))"

lemma obsD:
  assumes "obs ks ck f m Q E" and "ks w = m" and "f w = (r, w')"
  shows "ks w' = ks w" and "ck w' = ck w" and "r \<noteq> Panic" and "r = Ok a \<Longrightarrow> Q a" and "r = Err e \<Longrightarrow> E e"
  using assms unfolding obs_def by blast+

lemma obs_weaken:
  "obs ks ck f m Q E \<Longrightarrow> (\<And>a. Q a \<Longrightarrow> Q' a) \<Longrightarrow> (\<And>e. E e \<Longrightarrow> E' e) \<Longrightarrow> obs ks ck f m Q' E'"
  unfolding obs_def by blast

lemma obs_ret: "Q a \<Longrightarrow> obs ks ck (retS a) m Q E"
  by (simp add: obs_def retS_apply)

lemma obs_fail: "E e \<Longrightarrow> obs ks ck (failS e) m Q E"
  by (simp add: obs_def failS_apply)

lemma obs_lift: "x \<noteq> Panic \<Longrightarrow> (\<And>a. x = Ok a \<Longrightarrow> Q a) \<Longrightarrow> (\<And>e. x = Err e \<Longrightarrow> E e) \<Longrightarrow> obs ks ck (liftO x) m Q E"
  by (simp add: obs_def liftO_apply)

lemma obsI:
  assumes "\<And>w r w'. ks w = m \<Longrightarrow> f w = (r, w') \<Longrightarrow>
    ks w' = ks w \<and> ck w' = ck w \<and> r \<noteq> Panic \<and> (\<forall>a. r = Ok a \<longrightarrow> Q a) \<and> (\<forall>e. r = Err e \<longrightarrow> E e)"
  shows "obs ks ck f m Q E"
  using assms unfolding obs_def by blast

lemma obs_wrap:
  assumes "obs ks ck f m Q (\<lambda>e. E (Wrap s e))" shows "obs ks ck (wrapS s f) m Q E"
proof (rule obsI)
  fix w r w' assume m: "ks w = m" and "wrapS s f w = (r, w')"
  then obtain q where q: "f w = (q, w')" "r = wrapO s q" by (auto simp: wrapS_def split: prod.splits)
  from obsD [OF assms m q(1)] q(2)
  show "ks w' = ks w \<and> ck w' = ck w \<and> r \<noteq> Panic \<and> (\<forall>a. r = Ok a \<longrightarrow> Q a) \<and> (\<forall>e. r = Err e \<longrightarrow> E e)"
    by (cases q) auto
qed

lemma obs_mask:
  assumes "obs ks ck f m Q (\<lambda>_. E e)" shows "obs ks ck (maskS e f) m Q E"
proof (rule obsI)
  fix w r w' assume m: "ks w = m" and "maskS e f w = (r, w')"
  moreover obtain q v where q: "f w = (q, v)" by fastforce
  ultimately have "v = w'" "r = (case q of Err _ \<Rightarrow> Err e | _ \<Rightarrow> q)"
    by (auto simp: maskS_def split: outcome.splits)
  with obsD [OF assms m q]
  show "ks w' = ks w \<and> ck w' = ck w \<and> r \<noteq> Panic \<and> (\<forall>a. r = Ok a \<longrightarrow> Q a) \<and> (\<forall>e. r = Err e \<longrightarrow> E e)"
    by (cases q) auto
qed

lemma obs_try:
  assumes "obs ks ck f m (\<lambda>a. Q (Inr a)) (\<lambda>e. Q (Inl e))" shows "obs ks ck (tryS f) m Q E"
proof (rule obsI)
  fix w r w' assume m: "ks w = m" and "tryS f w = (r, w')"
  moreover obtain q v where q: "f w = (q, v)" by fastforce
  ultimately have "v = w'" "r = (case q of Ok a \<Rightarrow> Ok (Inr a) | Err e \<Rightarrow> Ok (Inl e) | Panic \<Rightarrow> Panic)"
    by (auto simp: tryS_def split: outcome.splits)
  with obsD [OF assms m q]
  show "ks w' = ks w \<and> ck w' = ck w \<and> r \<noteq> Panic \<and> (\<forall>a. r = Ok a \<longrightarrow> Q a) \<and> (\<forall>e. r = Err e \<longrightarrow> E e)"
    by (cases q) auto
qed

lemma obs_bind:
  assumes f: "obs ks ck f m P E" and g: "\<And>a. P a \<Longrightarrow> obs ks ck (g a) m Q E"
  shows "obs ks ck (bindS f g) m Q E"
  unfolding obs_def
proof (intro allI impI)
  fix w r w'
  assume m: "ks w = m" and "bindS f g w = (r, w')"
  then obtain q v where q: "f w = (q, v)" by fastforce
  note fd = obsD [OF f m q]
  show "ks w' = ks w \<and> ck w' = ck w \<and> r \<noteq> Panic \<and> (\<forall>a. r = Ok a \<longrightarrow> Q a) \<and> (\<forall>e. r = Err e \<longrightarrow> E e)"
  proof (cases q)
    case (Ok a)
    then have "g a v = (r, w')" using \<open>bindS f g w = (r, w')\<close> q by (simp add: bindS_def)
    from obsD [OF g [OF fd(4) [OF Ok]] _ this] fd m show ?thesis by simp
  qed (use fd q m \<open>bindS f g w = (r, w')\<close> in \<open>auto simp: bindS_def\<close>)
qed

lemma obs_if:
  "(c \<Longrightarrow> obs ks ck f m Q E) \<Longrightarrow> (\<not> c \<Longrightarrow> obs ks ck g m Q E) \<Longrightarrow> obs ks ck (if c then f else g) m Q E"
  by simp

lemma obs_all:
  assumes "\<And>x. x \<in> set xs \<Longrightarrow> obs ks ck (f x) m (\<lambda>b. p x \<longrightarrow> b) E"
  shows "obs ks ck (allS f xs) m (\<lambda>b. list_all p xs \<longrightarrow> b) E"
  using assms
proof (induction xs)
  case (Cons x xs)
  show ?case unfolding allS.simps
    by (rule obs_bind [where P = "\<lambda>b. p x \<longrightarrow> b"])
      (use Cons in \<open>auto intro: obs_ret elim: obs_weaken\<close>)
qed (simp add: obs_ret)

context kv_laws
begin

lemma Get_obs: "obs ks ck (kv_Get S t k) m
  (\<lambda>r. case r of None \<Rightarrow> m k = None
     | Some v \<Rightarrow> m k \<noteq> None \<and> (\<forall>u. m k = Some (Val u) \<longrightarrow> gotype_of u = t \<longrightarrow> v = u)) foreign"
  by (rule obsI) (auto dest: Get_frame Get_None Get_Some Get_value Get_error split: option.splits)

end

context sets_laws
begin

lemma GetSet_obs: "obs ks ck (set_GetSet S k) m (\<lambda>xs. set xs = members m k) (\<lambda>_. True)"
  by (rule obsI) (auto dest: GetSet_frame GetSet_members)

end

end
