(* ===== verification/Tx_Manager.thy ===== *)
theory Tx_Manager
  imports Store_Interfaces
begin

text \<open>
  The transaction manager (\<^verbatim>\<open>transactionmanager/txmanager/manager.go\<close>): \<open>Do\<close> opens a transaction,
  runs a function in it and commits, or rolls back when the function or the commit fails. Its
  lemmas rest on the laws of the transaction interface alone.
\<close>

definition rollback_with :: "('w, 'tx) tx_driver \<Rightarrow> 'tx \<Rightarrow> go_error \<Rightarrow> ('w, unit) st" where
  "rollback_with D tx err =
     thenS (wrapS ''failed to rollaback transaction'' (tx_Rollback D tx)) (failS err)"

definition commit_or_rollback :: "('w, 'tx) tx_driver \<Rightarrow> 'tx \<Rightarrow> ('w, unit) st" where
  "commit_or_rollback D tx =
     bindS (tryS (tx_Commit D tx)) (\<lambda>res.
     case res of
       Inl err \<Rightarrow> rollback_with D tx (Wrap ''failed to commit transaction'' err)
     | Inr _ \<Rightarrow> retS ())"

definition Do :: "('w, 'tx) tx_driver option \<Rightarrow> string list option \<Rightarrow> ('tx \<Rightarrow> ('w, unit) st) \<Rightarrow> ('w, unit) st" where
  "Do txFactory settings fn =
     (case txFactory of
        None \<Rightarrow> failS (Msg ''txFactory is nil'')
      | Some D \<Rightarrow>
          bindS (wrapS ''failed to create transaction'' (tx_Begin D settings)) (\<lambda>tx.
          bindS (tryS (fn tx)) (\<lambda>res.
          case res of
            Inl err \<Rightarrow> rollback_with D tx err
          | Inr _ \<Rightarrow> commit_or_rollback D tx)))"

context tx_laws
begin

lemma rollback_with_frame:
  assumes "rollback_with D tx err w = (r, w')"
  shows "ks w' = ks w \<and> ck w' = ck w \<and> (\<exists>e. r = Err e)"
  using assms unfolding rollback_with_def thenS_def
  by (auto elim!: bindS_cases wrapS_cases dest: Rollback_frame simp: failS_apply)

lemma commit_or_rollback_outcome:
  assumes "commit_or_rollback D tx w = (r, w')"
  shows "ck w' = ck w \<and> r \<noteq> Panic \<and> (ks w' = ks w \<or> ks w' = run (pend w tx) (ks w)) \<and>
    (r = Ok () \<longrightarrow> ks w' = run (pend w tx) (ks w))"
  using assms unfolding commit_or_rollback_def
proof (cases rule: bindS_cases)
  case (Ok res w1)
  from Ok(1) show ?thesis
  proof (cases rule: tryS_cases)
    case (Inr u)
    then have "tx_Commit D tx w = (Ok (), w1)" by simp
    with Ok(2) Inr(2) Commit_Ok Commit_frame show ?thesis by (simp add: retS_apply)
  next
    case (Inl e)
    with Ok(2) have "ks w' = ks w1 \<and> ck w' = ck w1 \<and> (\<exists>e. r = Err e)"
      using rollback_with_frame by simp
    with Commit_all_or_none [OF Inl(1)] Commit_frame [OF Inl(1)] show ?thesis by auto
  qed simp
qed (auto elim!: tryS_cases dest: Commit_frame)

text \<open>A block in the transaction that only queues: either all of its commands run or none.\<close>

lemma Do_outcome:
  assumes "Do (Some D) keys fn w = (r, w')"
    and fn: "\<And>tx v q v'. fn tx v = (q, v') \<Longrightarrow> ks v' = ks v \<and> ck v' = ck v \<and> q \<noteq> Panic"
  defines "committed \<equiv> \<exists>tx w1 w2. tx_Begin D keys w = (Ok tx, w1) \<and> fn tx w1 = (Ok (), w2) \<and>
      ks w' = run (pend w2 tx) (ks w)"
  shows "ck w' = ck w \<and> r \<noteq> Panic \<and> (ks w' = ks w \<or> committed) \<and> (r = Ok () \<longrightarrow> committed)"
  using assms(1) unfolding Do_def option.case
proof (cases rule: bindS_cases)
  case (Ok tx w1)
  then have b: "tx_Begin D keys w = (Ok tx, w1)" by (simp add: wrapS_Ok_iff)
  note b' = Begin_frame [OF b]
  from Ok(2) show ?thesis
  proof (cases rule: bindS_cases)
    case f: (Ok res w2)
    from f(1) show ?thesis
    proof (cases rule: tryS_cases)
      case (Inr u)
      then have fw: "fn tx w1 = (Ok (), w2)" by simp
      from f(2) Inr(2) have "commit_or_rollback D tx w2 = (r, w')" by simp
      from commit_or_rollback_outcome [OF this] b b' fw fn [OF fw]
      show ?thesis unfolding committed_def by auto
    next
      case (Inl e)
      with f(2) have "ks w' = ks w2 \<and> ck w' = ck w2 \<and> (\<exists>e. r = Err e)"
        using rollback_with_frame by simp
      with fn [OF Inl(1)] b' show ?thesis by auto
    qed simp
  qed (use b' in \<open>auto elim!: tryS_cases dest: fn\<close>)
qed (auto elim!: wrapS_cases dest: Begin_frame)

lemma Do_queues:
  assumes "Do (Some D) keys fn w = (r, w')"
    and fn: "\<And>tx. queues ks ck pend tx (fn tx) cs"
  shows "ck w' = ck w \<and> r \<noteq> Panic \<and> (ks w' = ks w \<or> ks w' = run cs (ks w)) \<and>
    (r = Ok () \<longrightarrow> ks w' = run cs (ks w))"
proof -
  have fr: "fn tx v = (q, v') \<Longrightarrow> ks v' = ks v \<and> ck v' = ck v \<and> q = Ok () \<and> pend v' tx = pend v tx @ cs" for tx v q v'
    using fn [of tx] by (fastforce elim: queuesE [where w = v])
  have c: "tx_Begin D keys w = (Ok tx, w1) \<Longrightarrow> fn tx w1 = (Ok (), w2) \<Longrightarrow> pend w2 tx = cs" for tx w1 w2
    using Begin_pend fr by fastforce
  have "ck w' = ck w \<and> r \<noteq> Panic \<and>
      (ks w' = ks w \<or> (\<exists>tx w1 w2. tx_Begin D keys w = (Ok tx, w1) \<and> fn tx w1 = (Ok (), w2) \<and>
        ks w' = run (pend w2 tx) (ks w))) \<and>
      (r = Ok () \<longrightarrow> (\<exists>tx w1 w2. tx_Begin D keys w = (Ok tx, w1) \<and> fn tx w1 = (Ok (), w2) \<and>
        ks w' = run (pend w2 tx) (ks w)))"
    by (rule Do_outcome [OF assms(1)]) (use fr in auto)
  then show ?thesis using c by auto
qed

end

end
