(* ===== verification/Utxo_Store.thy ===== *)
theory Utxo_Store
  imports Tx_Manager
begin

text \<open>
  The UTXO store (\<^verbatim>\<open>utxostore/utxostore.go\<close>, \<^verbatim>\<open>indexbyaddress.go\<close>): block height and hash, outputs
  by transaction, the address index, and the checkpoint protocol that makes the update of one block
  recoverable. The store is written against the interfaces of \<open>Store_Interfaces\<close>; \<open>base_store\<close>
  is the part of a \<open>Store\<close> that the operations on keys use, bound to the server or, by \<open>WithTx\<close>,
  to a transaction. The mutex around the recovery is not modelled: operations run one at a time.
\<close>

record 'w base_store =
  b_s :: "'w kv_store"
  b_sets :: "'w sets_store"
  b_dbVer :: string

record ('w, 'tx) utxo_store =
  us_s :: "('w, 'tx) kv_with_tx"
  us_sets :: "('w, 'tx) sets_with_tx"
  us_txManager :: "('w, 'tx) tx_driver option"
  us_checkpointsStore :: "'w checkpoint_store"
  us_dbVer :: string

text \<open>The mutable part of a \<open>Store\<close>: the world behind its interfaces and its consistency flag.\<close>

record 'w store_state =
  world :: 'w
  isConsist :: bool

definition base :: "('w, 'tx) utxo_store \<Rightarrow> 'w base_store" where
  "base u = \<lparr>b_s = kv_base (us_s u), b_sets = sets_base (us_sets u), b_dbVer = us_dbVer u\<rparr>"

lemma base_sel [simp]:
  "b_s (base u) = kv_base (us_s u)" "b_sets (base u) = sets_base (us_sets u)" "b_dbVer (base u) = us_dbVer u"
  by (simp_all add: base_def)

definition WithTx :: "('w, 'tx) utxo_store \<Rightarrow> 'tx \<Rightarrow> 'w base_store outcome" where
  "WithTx u tx =
     bindO (kv_WithTx (us_s u) tx) (\<lambda>storerWithTx.
     bindO (sets_WithTx (us_sets u) tx) (\<lambda>setsWithTx.
     Ok \<lparr>b_s = storerWithTx, b_sets = setsWithTx, b_dbVer = us_dbVer u\<rparr>))"

definition on_world :: "('w, 'a) st \<Rightarrow> ('w store_state, 'a) st" where
  "on_world f = (\<lambda>s. case f (world s) of (r, w') \<Rightarrow> (r, s\<lparr>world := w'\<rparr>))"

definition set_consist :: "bool \<Rightarrow> ('w store_state, unit) st" where
  "set_consist c = (\<lambda>s. (Ok (), s\<lparr>isConsist := c\<rparr>))"

text \<open>\<open>if !u.isConsist { return ErrInconsistenceState }\<close> in front of every exported operation.\<close>

definition guarded :: "('w store_state, 'a) st \<Rightarrow> ('w store_state, 'a) st" where
  "guarded f = (\<lambda>s. if \<not> isConsist s then (Err ErrInconsistenceState, s) else f s)"

text \<open>The destination of a decoder: a value of another type leaves it at its zero value.\<close>

fun as_int64 :: "govalue \<Rightarrow> int" where
  "as_int64 (VInt64 n) = n" | "as_int64 _ = 0"
fun as_string :: "govalue \<Rightarrow> string" where
  "as_string (VString s) = s" | "as_string _ = ''''"
fun as_outputs :: "govalue \<Rightarrow> tx_outputs" where
  "as_outputs (VOutputs os) = os" | "as_outputs _ = \<lparr>BlockHeight = 0, Outputs = []\<rparr>"
fun as_output_list :: "govalue \<Rightarrow> tx_output option list" where
  "as_output_list (VOutputList os) = os" | "as_output_list _ = []"

section \<open>Block height and hash\<close>

definition getBlockHeight :: "'w base_store \<Rightarrow> ('w, int) st" where
  "getBlockHeight u =
     bindS (wrapS ''failed to get current block height'' (kv_Get (b_s u) TInt64 (height_key (b_dbVer u)))) (\<lambda>res.
     retS (case res of Some v \<Rightarrow> as_int64 v | None \<Rightarrow> 0))"

definition getBlockHash :: "'w base_store \<Rightarrow> ('w, string) st" where
  "getBlockHash u =
     bindS (wrapS ''failed to get current block hash'' (kv_Get (b_s u) TString (hash_key (b_dbVer u)))) (\<lambda>res.
     case res of Some v \<Rightarrow> retS (as_string v) | None \<Rightarrow> failS ErrBlockHashNotFound)"

definition setBlockHeight :: "'w base_store \<Rightarrow> int \<Rightarrow> ('w, unit) st" where
  "setBlockHeight u blockHeight =
     wrapS ''failed to store new block height'' (kv_Set (b_s u) (height_key (b_dbVer u)) (VInt64 blockHeight))"

definition setBlockHash :: "'w base_store \<Rightarrow> string \<Rightarrow> ('w, unit) st" where
  "setBlockHash u blockHash =
     wrapS ''failed to store new block hash'' (kv_Set (b_s u) (hash_key (b_dbVer u)) (VString blockHash))"

section \<open>The address index\<close>

definition deleteAdressUTXOTransactionIds :: "'w base_store \<Rightarrow> string \<Rightarrow> string list \<Rightarrow> ('w, unit) st" where
  "deleteAdressUTXOTransactionIds u address txIDs =
     wrapS ''failed to delete address UTXO tx ids''
       (set_RemoveFromSet (b_sets u) (addr_key (b_dbVer u) address) txIDs)"

definition getAddressUTXOTransactionIds :: "'w base_store \<Rightarrow> string \<Rightarrow> ('w, string list) st" where
  "getAddressUTXOTransactionIds u address =
     wrapS ''get address UTXO tx ids set error'' (set_GetSet (b_sets u) (addr_key (b_dbVer u) address))"

definition addAddressUTXOTransactionIds :: "'w base_store \<Rightarrow> string \<Rightarrow> string list \<Rightarrow> ('w, unit) st" where
  "addAddressUTXOTransactionIds u address txIDs =
     wrapS ''failed to add address UTXO tx ids''
       (set_AddToSet (b_sets u) (addr_key (b_dbVer u) address) txIDs)"

definition removeAddressTxIDS :: "'w base_store \<Rightarrow> string \<Rightarrow> string list \<Rightarrow> ('w, unit) st" where
  "removeAddressTxIDS u address txIDs =
     wrapS ''delete address UTXO tx ids error'' (deleteAdressUTXOTransactionIds u address txIDs)"

section \<open>Outputs\<close>

definition getOutputsByTxID :: "'w base_store \<Rightarrow> string \<Rightarrow> ('w, tx_outputs) st" where
  "getOutputsByTxID u txID =
     bindS (wrapS ''failed to get outputs'' (kv_Get (b_s u) TOutputs (tx_key (b_dbVer u) txID))) (\<lambda>res.
     case res of Some v \<Rightarrow> retS (as_outputs v) | None \<Rightarrow> failS ErrNotFound)"

definition spendAllOutputs :: "'w base_store \<Rightarrow> string \<Rightarrow> ('w, unit) st" where
  "spendAllOutputs u txID =
     wrapS ''delete outputs error'' (kv_Delete (b_s u) (tx_key (b_dbVer u) txID))"

definition setNewTxOutputs :: "'w base_store \<Rightarrow> string \<Rightarrow> tx_outputs \<Rightarrow> ('w, unit) st" where
  "setNewTxOutputs u txID txOutputsEntry =
     wrapS ''failed to store tx outputs'' (kv_Set (b_s u) (tx_key (b_dbVer u) txID) (VOutputs txOutputsEntry))"

definition setTransactionOutputs :: "'w base_store \<Rightarrow> string \<Rightarrow> tx_outputs \<Rightarrow> ('w, unit) st" where
  "setTransactionOutputs u txID newTxOutputsEntry = setNewTxOutputs u txID newTxOutputsEntry"

definition areExistsOutputs :: "'w base_store \<Rightarrow> string \<Rightarrow> ('w, bool) st" where
  "areExistsOutputs u txID =
     bindS (wrapS ''failed to get transaction outputs'' (kv_Get (b_s u) TAny (tx_key (b_dbVer u) txID))) (\<lambda>res.
     retS (res \<noteq> None))"

text \<open>\<open>txIDsByAdddress[address] = append(txIDsByAdddress[address], txID)\<close> for every unspent output.\<close>

fun txIDsByAddress_addrs :: "string \<Rightarrow> (string, string list) gomap \<Rightarrow> string list \<Rightarrow> (string, string list) gomap" where
  "txIDsByAddress_addrs txID m [] = m"
| "txIDsByAddress_addrs txID m (address # addrs) =
     txIDsByAddress_addrs txID
       (AList.update address ((case map_of m address of None \<Rightarrow> [] | Some ids \<Rightarrow> ids) @ [txID]) m) addrs"

fun txIDsByAddress :: "('key, 'addr) btc_lib \<Rightarrow> string \<Rightarrow> (string, string list) gomap \<Rightarrow>
    tx_output option list \<Rightarrow> (string, string list) gomap outcome" where
  "txIDsByAddress lib txID m [] = Ok m"
| "txIDsByAddress lib txID m (None # outputs) = txIDsByAddress lib txID m outputs"
| "txIDsByAddress lib txID m (Some output # outputs) =
     bindO (wrapO ''failed to get output addresses'' (GetAddresses lib output)) (\<lambda>addrs.
     txIDsByAddress lib txID (txIDsByAddress_addrs txID m addrs) outputs)"

definition createAddressUTXOTxIdIndex ::
  "('key, 'addr) btc_lib \<Rightarrow> 'w base_store \<Rightarrow> string \<Rightarrow> tx_output option list \<Rightarrow> ('w, unit) st" where
  "createAddressUTXOTxIdIndex lib u txID outputs =
     bindS (liftO (txIDsByAddress lib txID [] outputs)) (\<lambda>m.
     forS (\<lambda>(address, txIDs). addAddressUTXOTransactionIds u address txIDs) m)"

definition addTransactionOutputs ::
  "('key, 'addr) btc_lib \<Rightarrow> 'w base_store \<Rightarrow> string \<Rightarrow> tx_outputs \<Rightarrow> ('w, unit) st" where
  "addTransactionOutputs lib u txID txOutputsEntry =
     thenS (setNewTxOutputs u txID txOutputsEntry)
       (createAddressUTXOTxIdIndex lib u txID (Outputs txOutputsEntry))"

definition addTransactionOutputsBatch ::
  "('key, 'addr) btc_lib \<Rightarrow> ('w, 'tx) utxo_store \<Rightarrow> (string, tx_outputs) gomap \<Rightarrow> ('w, unit) st" where
  "addTransactionOutputsBatch lib u batch =
     Do (us_txManager u) None (\<lambda>tx.
       bindS (wrapS ''failed to begin transaction'' (liftO (WithTx u tx))) (\<lambda>selfWithTx.
       forS (\<lambda>(txID, txOutputsEntry). addTransactionOutputs lib selfWithTx txID txOutputsEntry) batch))"

section \<open>Reading and spending\<close>

text \<open>
  \<open>getUnspentOutputsByAddress\<close>: the outputs of every transaction the index names, in the order
  \<open>MulGet\<close> reports them, kept when unspent and when their script still pays the address. A
  transaction the database does not hold yields an entry without outputs.
\<close>

fun unspent_of_outputs :: "('key, 'addr) btc_lib \<Rightarrow> string \<Rightarrow> string \<Rightarrow> tx_outputs \<Rightarrow> nat \<Rightarrow>
    tx_output option list \<Rightarrow> utxo_entry list outcome" where
  "unspent_of_outputs lib address txID entry vout [] = Ok []"
| "unspent_of_outputs lib address txID entry vout (output # outputs) =
     (if isSpentOutput output then unspent_of_outputs lib address txID entry (vout + 1) outputs
      else
        bindO (wrapO ''failed to get addresses'' (GetAddresses_ptr lib output)) (\<lambda>addresses.
        bindO (unspent_of_outputs lib address txID entry (vout + 1) outputs) (\<lambda>rest.
        Ok (if address \<in> set addresses
            then \<lparr>ue_TxID = txID, ue_Vout = of_nat vout, ue_Output = Outputs entry ! vout,
                  ue_BlockHeight = BlockHeight entry\<rparr> # rest
            else rest))))"

fun unspent_of_entries :: "('key, 'addr) btc_lib \<Rightarrow> string \<Rightarrow> (string \<times> tx_outputs) list \<Rightarrow>
    utxo_entry list outcome" where
  "unspent_of_entries lib address [] = Ok []"
| "unspent_of_entries lib address ((txID, entry) # es) =
     bindO (unspent_of_outputs lib address txID entry 0 (Outputs entry)) (\<lambda>res.
     bindO (unspent_of_entries lib address es) (\<lambda>rest. Ok (res @ rest)))"

definition getUnspentOutputsByAddress ::
  "('key, 'addr) btc_lib \<Rightarrow> 'w base_store \<Rightarrow> string \<Rightarrow> ('w, utxo_entry list) st" where
  "getUnspentOutputsByAddress lib u address =
     bindS (getAddressUTXOTransactionIds u address) (\<lambda>txIDsWithOutputs.
     if txIDsWithOutputs = [] then retS []
     else
       let txIDKeys = List.map (tx_key (b_dbVer u)) txIDsWithOutputs;
           txIDKeysFormatted = map_of (rev (zip txIDKeys txIDsWithOutputs)) in
       bindS (wrapS ''failed to get tx outputs'' (kv_MulGet (b_s u) TOutputs txIDKeys)) (\<lambda>values.
       liftO (unspent_of_entries lib address
         (List.map (\<lambda>(key, val).
            ((case txIDKeysFormatted key of Some txID \<Rightarrow> txID | None \<Rightarrow> ''''),
             (case val of Some v \<Rightarrow> as_outputs v | None \<Rightarrow> \<lparr>BlockHeight = 0, Outputs = []\<rparr>))) values))))"

text \<open>
  \<open>spendOutputFromList\<close> writes \<open>nil\<close> into the caller's slice, checks what is left, and stores or
  deletes the slice. The result carries the changed slice as its last component.
\<close>

fun unspent_addresses :: "('key, 'addr) btc_lib \<Rightarrow> tx_output option list \<Rightarrow> string list outcome" where
  "unspent_addresses lib [] = Ok []"
| "unspent_addresses lib (None # outputs) = unspent_addresses lib outputs"
| "unspent_addresses lib (Some output # outputs) =
     bindO (wrapO ''failed to get output addresses'' (GetAddresses lib output)) (\<lambda>addrs.
     bindO (unspent_addresses lib outputs) (\<lambda>rest. Ok (addrs @ rest)))"

definition spendOutputFromList :: "('key, 'addr) btc_lib \<Rightarrow> 'w base_store \<Rightarrow> string \<Rightarrow> int \<Rightarrow>
    tx_output option list \<Rightarrow> ('w, string list \<times> tx_output \<times> tx_output option list) st" where
  "spendOutputFromList lib u txID idx outputs =
     (let txOutputsKey = tx_key (b_dbVer u) txID in
      if idx < 0 \<or> int (length outputs) \<le> idx then failS ErrNotFound
      else case outputs ! nat idx of
        None \<Rightarrow> failS ErrAlreadySpent
      | Some spentOutput \<Rightarrow>
          let outputs = outputs[nat idx := None] in
          bindS (liftO (unspent_addresses lib outputs)) (\<lambda>unspentTxOutputAddresses.
          bindS (liftO (wrapO ''failed to get output addresses'' (GetAddresses lib spentOutput))) (\<lambda>spentOutputAddrs.
          let dereferencedAddressed = filter (\<lambda>a. a \<notin> set unspentTxOutputAddresses) spentOutputAddrs in
          thenS (if isAllSpent outputs
                 then wrapS ''failed to delete transaction id key'' (kv_Delete (b_s u) txOutputsKey)
                 else wrapS ''failed to set transaction id key'' (kv_Set (b_s u) txOutputsKey (VOutputList outputs)))
            (retS (dereferencedAddressed, spentOutput, outputs)))))"

definition spendOutput :: "('key, 'addr) btc_lib \<Rightarrow> 'w base_store \<Rightarrow> string \<Rightarrow> int \<Rightarrow>
    ('w, string list \<times> tx_output \<times> tx_output option list) st" where
  "spendOutput lib u txID idx =
     bindS (wrapS ''failed to get transaction outputs''
       (kv_Get (b_s u) TOutputList (tx_key (b_dbVer u) txID))) (\<lambda>res.
     case res of
       None \<Rightarrow> failS ErrNotFound
     | Some v \<Rightarrow> spendOutputFromList lib u txID idx (as_output_list v))"

definition Flush :: "'w base_store \<Rightarrow> ('w, unit) st" where
  "Flush u = wrapS ''flush error'' (kv_DeleteByPattern (b_s u) (b_dbVer u @ '':*''))"

section \<open>The checkpoint protocol\<close>

text \<open>\<open>lo.Every(collection, subset)\<close> and \<open>lo.None(collection, subset)\<close>.\<close>

definition lo_Every :: "'a list \<Rightarrow> 'a list \<Rightarrow> bool" where
  "lo_Every collection sub \<longleftrightarrow> list_all (\<lambda>x. x \<in> set collection) sub"

definition lo_None :: "'a list \<Rightarrow> 'a list \<Rightarrow> bool" where
  "lo_None collection sub \<longleftrightarrow> list_all (\<lambda>x. x \<notin> set collection) sub"

definition downCheckpoint :: "'w base_store \<Rightarrow> checkpoint \<Rightarrow> ('w, unit) st" where
  "downCheckpoint u cp =
     bindS (liftO (GetPreviousBlockHash cp)) (\<lambda>previousBlockHash.
     bindS (liftO (GetPreviousBlockheight cp)) (\<lambda>previousBlockHeight.
     thenS (wrapS ''failed to restore block hash'' (setBlockHash u previousBlockHash))
    (thenS (wrapS ''failed to restore block height'' (setBlockHeight u previousBlockHeight))
    (thenS (forS (\<lambda>(addr, txIDs). wrapS ''failed to remove address tx ids'' (removeAddressTxIDS u addr txIDs))
              (NewAddreessReferences cp))
    (thenS (forS (\<lambda>(addr, txIDs). wrapS ''failed to add dereferenced addres tx ids''
                    (addAddressUTXOTransactionIds u addr txIDs))
              (DereferencedAddressesTxs cp))
    (thenS (forS (\<lambda>(txID, _).
                    if map_of (TxsBeforeUpdate cp) txID = None
                    then wrapS ''failed to remove new tx outputs'' (spendAllOutputs u txID)
                    else retS ())
              (NewTxOutputs cp))
           (forS (\<lambda>(txID, outputs). wrapS ''failed to restore transaction outputs''
                    (setTransactionOutputs u txID outputs))
              (TxsBeforeUpdate cp))))))))"

definition isConsistenceWithCheckpoint :: "'w base_store \<Rightarrow> checkpoint \<Rightarrow> ('w, bool) st" where
  "isConsistenceWithCheckpoint u cp =
     bindS (wrapS ''failed to get current block hash'' (getBlockHash u)) (\<lambda>currentBlockHash.
     bindS (liftO (GetNextBlockHash cp)) (\<lambda>nextBlockHash.
     if currentBlockHash \<noteq> nextBlockHash then retS False
     else
       bindS (wrapS ''failed to get current block height'' (getBlockHeight u)) (\<lambda>currentBlockHeight.
       bindS (liftO (GetNewBlockHeight cp)) (\<lambda>newBlockHeight.
       if currentBlockHeight \<noteq> newBlockHeight then retS False
       else
         bindS (allS (\<lambda>(addr, txIDS).
             bindS (wrapS ''failed to get address transaction ids'' (getAddressUTXOTransactionIds u addr))
               (\<lambda>currentTxIDS. retS (lo_Every currentTxIDS txIDS))) (NewAddreessReferences cp)) (\<lambda>ok.
         if \<not> ok then retS False
         else
           bindS (allS (\<lambda>(addr, txIDS).
               bindS (wrapS ''failed to get address transaction ids'' (getAddressUTXOTransactionIds u addr))
                 (\<lambda>currentTxIDS. retS (lo_None currentTxIDS txIDS))) (DereferencedAddressesTxs cp)) (\<lambda>ok.
           if \<not> ok then retS False
           else
             allS (\<lambda>(txID, txOutputsEntry).
               if isAllSpent (Outputs txOutputsEntry)
               then
                 bindS (tryS (getOutputsByTxID u txID)) (\<lambda>res.
                 case res of
                   Inl err \<Rightarrow> if errors_is err ErrNotFound then retS True
                              else failS (Wrap ''failed to get tx outputs'' err)
                 | Inr _ \<Rightarrow> retS False)
               else
                 bindS (wrapS ''failed to get transaction outputs'' (getOutputsByTxID u txID))
                   (\<lambda>currentOutputs. retS (currentOutputs = txOutputsEntry)))
               (NewTxOutputs cp)))))))"

text \<open>
  The recovery at start-up. After a successful restore the code returns without setting the
  consistency flag, unlike the two other successful paths.
\<close>

definition checkConsistencyAndTryToFix :: "('w, 'tx) utxo_store \<Rightarrow> ('w store_state, unit) st" where
  "checkConsistencyAndTryToFix u = (\<lambda>s.
     if isConsist s then (Ok (), s)
     else
       bindS (on_world (wrapS ''failed to get latest checkpoint'' (cs_LastCheckpoint (us_checkpointsStore u))))
       (\<lambda>latest.
        case latest of
          None \<Rightarrow> set_consist True
        | Some latestCheckpoint \<Rightarrow>
            bindS (on_world (maskS (Msg ''failed to check store consistency with checkpoint'')
              (isConsistenceWithCheckpoint (base u) latestCheckpoint))) (\<lambda>ok.
            if ok
            then thenS (on_world (wrapS ''failed to remove last checkpoint''
                    (cs_RemoveLatestCheckpoint (us_checkpointsStore u))))
                  (set_consist True)
            else thenS (on_world (wrapS ''failed to downgrade to previouse state before checkpoint''
                    (downCheckpoint (base u) latestCheckpoint)))
                  (on_world (maskS (Msg ''failed to remove checkpoint'')
                    (cs_RemoveLatestCheckpoint (us_checkpointsStore u)))))) s)"

definition New :: "('w, 'tx) utxo_store \<Rightarrow> 'w \<Rightarrow> unit outcome \<times> 'w store_state" where
  "New u w = wrapS ''failed to check consistency'' (checkConsistencyAndTryToFix u)
     \<lparr>world = w, isConsist = False\<rparr>"

definition newTransactionOutputsStringKeys :: "string \<Rightarrow> string list \<Rightarrow> string list" where
  "newTransactionOutputsStringKeys dbVer txIDs = List.map (\<lambda>txID. key_String (newTransactionIDKey dbVer txID)) txIDs"

definition newAddressStringKeys :: "string \<Rightarrow> string list \<Rightarrow> string list" where
  "newAddressStringKeys dbVer addresses =
     List.map (\<lambda>addr. key_String (newAddressUTXOTxIDsSetKey dbVer addr)) addresses"

definition getStoreKeysToWatchFromCheckpointUP ::
  "'w base_store \<Rightarrow> string list \<Rightarrow> string list \<Rightarrow> string list \<Rightarrow> string list" where
  "getStoreKeysToWatchFromCheckpointUP u changingTxIDS dereferencedAddresses newAddressReferences =
     [key_String (newBlockHeightKey (b_dbVer u)), key_String (newBlockHeightKey (b_dbVer u))] @
     newTransactionOutputsStringKeys (b_dbVer u) changingTxIDS @
     newAddressStringKeys (b_dbVer u) dereferencedAddresses @
     newAddressStringKeys (b_dbVer u) newAddressReferences"

text \<open>The block of commands one transaction runs; the errors of the output writes are dropped.\<close>

definition up_block :: "'w base_store \<Rightarrow> string \<Rightarrow> int \<Rightarrow> (string, tx_outputs) gomap \<Rightarrow>
    (string, string list) gomap \<Rightarrow> (string, string list) gomap \<Rightarrow> ('w, unit) st" where
  "up_block selfWithTx newBlockHash newBlockHeight newTxOutputs dereferencedAddresses newAddressReferences =
     thenS (wrapS ''failed to set block height'' (setBlockHash selfWithTx newBlockHash))
    (thenS (wrapS ''failed to set block height'' (setBlockHeight selfWithTx newBlockHeight))
    (thenS (forS (\<lambda>(txID, txOutputsEntry).
                    if isAllSpent (Outputs txOutputsEntry)
                    then ignoreS (spendAllOutputs selfWithTx txID)
                    else ignoreS (setTransactionOutputs selfWithTx txID txOutputsEntry)) newTxOutputs)
    (thenS (forS (\<lambda>(address, txIDRefs). wrapS ''failed to add address tx ids''
                    (addAddressUTXOTransactionIds selfWithTx address txIDRefs)) newAddressReferences)
           (forS (\<lambda>(address, dereferencedTxIDs).
                    maskS (Msg ''failed to remove adddress tx id references'')
                    (deleteAdressUTXOTransactionIds selfWithTx address dereferencedTxIDs))
              dereferencedAddresses))))"

definition spendOutputsWithNewBlockInfo :: "('w, 'tx) utxo_store \<Rightarrow> string \<Rightarrow> int \<Rightarrow>
    (string, tx_outputs) gomap \<Rightarrow> (string, string list) gomap \<Rightarrow> (string, string list) gomap \<Rightarrow>
    ('w store_state, unit) st" where
  "spendOutputsWithNewBlockInfo u newBlockHash newBlockHeight newTxOutputs dereferencedAddresses
       newAddressReferences =
     (let watchKeys = getStoreKeysToWatchFromCheckpointUP (base u) (gokeys newTxOutputs)
            (gokeys dereferencedAddresses) (gokeys newAddressReferences) in
      bindS (tryS (on_world (Do (us_txManager u) (Some watchKeys) (\<lambda>tx.
         bindS (wrapS ''failed to wrap store in transaction'' (liftO (WithTx u tx))) (\<lambda>selfWithTx.
         up_block selfWithTx newBlockHash newBlockHeight newTxOutputs dereferencedAddresses
           newAddressReferences))))) (\<lambda>res.
      case res of
        Inl err \<Rightarrow> thenS (set_consist False) (failS (Wrap ''failed to comlete transaction'' err))
      | Inr _ \<Rightarrow> retS ()))"

definition CommitCheckpoint :: "('w, 'tx) utxo_store \<Rightarrow> checkpoint \<Rightarrow> ('w store_state, unit) st" where
  "CommitCheckpoint u cp = guarded (
     thenS (on_world (wrapS ''failed to save checkppoint before update''
              (cs_SaveCheckpoint (us_checkpointsStore u) cp)))
    (bindS (liftO (GetNextBlockHash cp)) (\<lambda>hash.
     bindS (liftO (GetNewBlockHeight cp)) (\<lambda>height.
     thenS (spendOutputsWithNewBlockInfo u hash height (NewTxOutputs cp) (DereferencedAddressesTxs cp)
              (NewAddreessReferences cp))
           (on_world (wrapS ''failed to remove latest checkpoint''
              (cs_RemoveLatestCheckpoint (us_checkpointsStore u))))))))"

section \<open>The exported operations\<close>

definition GetBlockHeight :: "('w, 'tx) utxo_store \<Rightarrow> ('w store_state, int) st" where
  "GetBlockHeight u = guarded (on_world (getBlockHeight (base u)))"
definition GetBlockHash :: "('w, 'tx) utxo_store \<Rightarrow> ('w store_state, string) st" where
  "GetBlockHash u = guarded (on_world (getBlockHash (base u)))"
definition SetBlockHeight :: "('w, 'tx) utxo_store \<Rightarrow> int \<Rightarrow> ('w store_state, unit) st" where
  "SetBlockHeight u h = guarded (on_world (setBlockHeight (base u) h))"
definition SetBlockHash :: "('w, 'tx) utxo_store \<Rightarrow> string \<Rightarrow> ('w store_state, unit) st" where
  "SetBlockHash u h = guarded (on_world (setBlockHash (base u) h))"
definition RemoveAddressTxIDs :: "('w, 'tx) utxo_store \<Rightarrow> string \<Rightarrow> string list \<Rightarrow> ('w store_state, unit) st" where
  "RemoveAddressTxIDs u a ids = guarded (on_world (removeAddressTxIDS (base u) a ids))"
definition GetUnspentOutputsByAddress ::
  "('key, 'addr) btc_lib \<Rightarrow> ('w, 'tx) utxo_store \<Rightarrow> string \<Rightarrow> ('w store_state, utxo_entry list) st" where
  "GetUnspentOutputsByAddress lib u a = guarded (on_world (getUnspentOutputsByAddress lib (base u) a))"
definition GetOutputsByTxID :: "('w, 'tx) utxo_store \<Rightarrow> string \<Rightarrow> ('w store_state, tx_outputs) st" where
  "GetOutputsByTxID u txID = guarded (on_world (getOutputsByTxID (base u) txID))"
definition SpendOutputFromRetrievedOutputs :: "('key, 'addr) btc_lib \<Rightarrow> ('w, 'tx) utxo_store \<Rightarrow> string \<Rightarrow>
    tx_output option list \<Rightarrow> int \<Rightarrow> ('w store_state, string list \<times> tx_output \<times> tx_output option list) st" where
  "SpendOutputFromRetrievedOutputs lib u txID outputs idx =
     guarded (on_world (spendOutputFromList lib (base u) txID idx outputs))"
definition SpendAllOutputs :: "('w, 'tx) utxo_store \<Rightarrow> string \<Rightarrow> ('w store_state, unit) st" where
  "SpendAllOutputs u txID = guarded (on_world (spendAllOutputs (base u) txID))"
definition SpendOutput :: "('key, 'addr) btc_lib \<Rightarrow> ('w, 'tx) utxo_store \<Rightarrow> string \<Rightarrow> int \<Rightarrow>
    ('w store_state, string list \<times> tx_output \<times> tx_output option list) st" where
  "SpendOutput lib u txID idx = guarded (on_world (spendOutput lib (base u) txID idx))"
definition SetTransactionOutputs :: "('w, 'tx) utxo_store \<Rightarrow> string \<Rightarrow> tx_outputs \<Rightarrow> ('w store_state, unit) st" where
  "SetTransactionOutputs u txID entry = guarded (on_world (setTransactionOutputs (base u) txID entry))"
definition AreExiststsOutputs :: "('w, 'tx) utxo_store \<Rightarrow> string \<Rightarrow> ('w store_state, bool) st" where
  "AreExiststsOutputs u txID = guarded (on_world (areExistsOutputs (base u) txID))"
definition AddTransactionOutputs ::
  "('key, 'addr) btc_lib \<Rightarrow> ('w, 'tx) utxo_store \<Rightarrow> string \<Rightarrow> tx_outputs \<Rightarrow> ('w store_state, unit) st" where
  "AddTransactionOutputs lib u txID entry = guarded (on_world (addTransactionOutputs lib (base u) txID entry))"
definition AddTransactionOutputsBatch ::
  "('key, 'addr) btc_lib \<Rightarrow> ('w, 'tx) utxo_store \<Rightarrow> (string, tx_outputs) gomap \<Rightarrow> ('w store_state, unit) st" where
  "AddTransactionOutputsBatch lib u batch = guarded (on_world (addTransactionOutputsBatch lib u batch))"

end
