(* ===== verification/Utxo_Recovery.thy ===== *)
theory Utxo_Recovery
  imports Utxo_Store
begin

text \<open>
  Correctness of the checkpoint protocol of the UTXO store. The commands one block runs
  (\<open>up_cmds\<close>) and the commands its restoration runs (\<open>down_cmds\<close>) are computed from the
  checkpoint; the lemmas of the locale \<open>utxo_backend\<close> (the laws of every interface the store uses)
  show that the code runs exactly these, and the lemmas on key spaces that the second list undoes
  any part of the first. A crash is an execution in which, from some operation on, every operation
  fails without effect, so statements about all outcomes cover it.
\<close>

section \<open>The commands of a block\<close>

definition put_cmd :: "string \<Rightarrow> string \<times> tx_outputs \<Rightarrow> kcmd" where
  "put_cmd v = (\<lambda>(txID, entry).
     if isAllSpent (Outputs entry) then KDel (tx_key v txID) else KSet (tx_key v txID) (VOutputs entry))"

definition up_cmds :: "string \<Rightarrow> checkpoint_block \<Rightarrow> checkpoint \<Rightarrow> kcmd list" where
  "up_cmds v nb cp =
     [KSet (hash_key v) (VString (cb_Hash nb)), KSet (height_key v) (VInt64 (cb_Height nb))] @
     List.map (put_cmd v) (NewTxOutputs cp) @
     List.map (\<lambda>(a, ids). KAdd (addr_key v a) ids) (NewAddreessReferences cp) @
     List.map (\<lambda>(a, ids). KRem (addr_key v a) ids) (DereferencedAddressesTxs cp)"

definition created :: "checkpoint \<Rightarrow> (string \<times> tx_outputs) list" where
  "created cp = filter (\<lambda>(txID, _). map_of (TxsBeforeUpdate cp) txID = None) (NewTxOutputs cp)"

definition down_cmds :: "string \<Rightarrow> checkpoint_block \<Rightarrow> checkpoint \<Rightarrow> kcmd list" where
  "down_cmds v pb cp =
     [KSet (hash_key v) (VString (cb_Hash pb)), KSet (height_key v) (VInt64 (cb_Height pb))] @
     List.map (\<lambda>(a, ids). KRem (addr_key v a) ids) (NewAddreessReferences cp) @
     List.map (\<lambda>(a, ids). KAdd (addr_key v a) ids) (DereferencedAddressesTxs cp) @
     List.map (\<lambda>(txID, _). KDel (tx_key v txID)) (created cp) @
     List.map (\<lambda>(txID, entry). KSet (tx_key v txID) (VOutputs entry)) (TxsBeforeUpdate cp)"

section \<open>Effect on the key space\<close>

definition ids_of :: "(string, string list) gomap \<Rightarrow> string \<Rightarrow> string set" where
  "ids_of xs a = (\<Union>p \<in> set xs. if fst p = a then set (snd p) else {})"

lemma ids_of_Cons: "ids_of ((b, ids) # xs) a = (if b = a then set ids else {}) \<union> ids_of xs a"
  by (simp add: ids_of_def)

lemma ids_of_Nil [simp]: "ids_of [] a = {}"
  by (simp add: ids_of_def)

lemma ids_of_mem: "(a, ids) \<in> set xs \<Longrightarrow> set ids \<subseteq> ids_of xs a"
  by (force simp: ids_of_def)

lemma exec_set_cmd:
  assumes "holds_set m (addr_key v a)" and "c = KAdd (addr_key v b) ids \<or> c = KRem (addr_key v b) ids"
  shows "holds_set (exec c m) (addr_key v a)"
  using assms by (cases "a = b") (auto simp: holds_set_other)

lemma run_adds:
  assumes "\<And>a. holds_set m (addr_key v a)"
  shows "holds_set (run (List.map (\<lambda>(a, ids). KAdd (addr_key v a) ids) xs) m) (addr_key v a) \<and>
    members (run (List.map (\<lambda>(a, ids). KAdd (addr_key v a) ids) xs) m) (addr_key v a)
      = members m (addr_key v a) \<union> ids_of xs a"
  using assms
proof (induction xs arbitrary: m)
  case (Cons p xs)
  obtain b ids where p: "p = (b, ids)" by fastforce
  let ?m = "exec (KAdd (addr_key v b) ids) m"
  have h: "\<And>a. holds_set ?m (addr_key v a)" using Cons.prems exec_set_cmd by blast
  have "members ?m (addr_key v a) = members m (addr_key v a) \<union> (if b = a then set ids else {})"
    using Cons.prems [of b] by auto
  with Cons.IH [OF h] p show ?case by (auto simp: ids_of_Cons)
qed simp

lemma run_rems:
  assumes "\<And>a. holds_set m (addr_key v a)"
  shows "holds_set (run (List.map (\<lambda>(a, ids). KRem (addr_key v a) ids) xs) m) (addr_key v a) \<and>
    members (run (List.map (\<lambda>(a, ids). KRem (addr_key v a) ids) xs) m) (addr_key v a)
      = members m (addr_key v a) - ids_of xs a"
  using assms
proof (induction xs arbitrary: m)
  case (Cons p xs)
  obtain b ids where p: "p = (b, ids)" by fastforce
  let ?m = "exec (KRem (addr_key v b) ids) m"
  have h: "\<And>a. holds_set ?m (addr_key v a)" using Cons.prems exec_set_cmd by blast
  have "members ?m (addr_key v a) = members m (addr_key v a) - (if b = a then set ids else {})"
    using Cons.prems [of b] by auto
  with Cons.IH [OF h] p show ?case by (auto simp: ids_of_Cons)
qed simp

lemma run_sets:
  assumes "\<And>t e. (t, e) \<in> set xs \<Longrightarrow> n (tx_key v t) = Some (Val (VOutputs e))" and "t \<in> fst ` set xs"
  shows "run (List.map (\<lambda>(t, e). KSet (tx_key v t) (VOutputs e)) xs) m (tx_key v t) = n (tx_key v t)"
  using assms
proof (induction xs arbitrary: m)
  case (Cons p xs)
  obtain u e where p: "p = (u, e)" by fastforce
  show ?case
  proof (cases "t \<in> fst ` set xs")
    case True
    then show ?thesis using Cons p by auto
  next
    case False
    then have "run (List.map (\<lambda>(t, e). KSet (tx_key v t) (VOutputs e)) xs) m' (tx_key v t) = m' (tx_key v t)" for m'
      by (intro run_other) force
    moreover have "t = u" using False Cons.prems(2) p by simp
    moreover have "n (tx_key v u) = Some (Val (VOutputs e))" using Cons.prems(1) [of u e] p by simp
    ultimately show ?thesis using p by simp
  qed
qed simp

lemma run_dels:
  assumes "t \<in> fst ` set xs"
  shows "run (List.map (\<lambda>(t, e). KDel (tx_key v t)) xs) m (tx_key v t) = None"
  using assms
proof (induction xs arbitrary: m)
  case (Cons p xs)
  obtain u e where p: "p = (u, e)" by fastforce
  show ?case
  proof (cases "t \<in> fst ` set xs")
    case False
    then have "run (List.map (\<lambda>(t, e). KDel (tx_key v t)) xs) m' (tx_key v t) = m' (tx_key v t)" for m'
      by (intro run_other) force
    with False Cons.prems p show ?thesis by auto
  qed (use Cons p in auto)
qed simp

section \<open>Restoring\<close>

text \<open>
  \<open>describes v pb cp old\<close>: the checkpoint was taken in \<open>old\<close>: it records the block, the outputs
  it overwrites and creates, new references absent from the index and references present in it.
  \<open>restorable v cp old m\<close>: \<open>m\<close> differs from \<open>old\<close> in what the checkpoint touches only. Every
  prefix of the update and of the restoration keeps it.
\<close>

definition changed :: "checkpoint \<Rightarrow> string \<Rightarrow> string set" where
  "changed cp a = ids_of (NewAddreessReferences cp) a \<union> ids_of (DereferencedAddressesTxs cp) a"

definition touched_txs :: "checkpoint \<Rightarrow> string set" where
  "touched_txs cp = fst ` set (NewTxOutputs cp) \<union> fst ` set (TxsBeforeUpdate cp)"

definition touched :: "string \<Rightarrow> checkpoint \<Rightarrow> string set" where
  "touched v cp = {hash_key v, height_key v} \<union> tx_key v ` touched_txs cp \<union> range (addr_key v)"

definition describes :: "string \<Rightarrow> checkpoint_block \<Rightarrow> checkpoint \<Rightarrow> kstate \<Rightarrow> bool" where
  "describes v pb cp old \<longleftrightarrow>
     PrevBlock cp = Some pb \<and>
     old (hash_key v) = Some (Val (VString (cb_Hash pb))) \<and>
     old (height_key v) = Some (Val (VInt64 (cb_Height pb))) \<and>
     (\<forall>a. holds_set old (addr_key v a)) \<and>
     (\<forall>a. ids_of (NewAddreessReferences cp) a \<inter> members old (addr_key v a) = {}) \<and>
     (\<forall>a. ids_of (DereferencedAddressesTxs cp) a \<subseteq> members old (addr_key v a)) \<and>
     (\<forall>(t, e) \<in> set (TxsBeforeUpdate cp). old (tx_key v t) = Some (Val (VOutputs e))) \<and>
     (\<forall>(t, e) \<in> set (created cp). old (tx_key v t) = None)"

definition restorable :: "string \<Rightarrow> checkpoint \<Rightarrow> kstate \<Rightarrow> kstate \<Rightarrow> bool" where
  "restorable v cp old m \<longleftrightarrow>
     (\<forall>k. k \<notin> touched v cp \<longrightarrow> m k = old k) \<and>
     (\<forall>a. holds_set m (addr_key v a)) \<and>
     (\<forall>a. members m (addr_key v a) - changed cp a = members old (addr_key v a) - changed cp a)"

lemma restorable_refl: "describes v pb cp old \<Longrightarrow> restorable v cp old old"
  by (simp add: restorable_def describes_def)

lemma restorable_value:
  assumes "restorable v cp old m" and "cmd_key c \<in> {hash_key v, height_key v} \<union> tx_key v ` touched_txs cp"
  shows "restorable v cp old (exec c m)"
proof -
  have k: "cmd_key c \<in> touched v cp" "\<And>a. addr_key v a \<noteq> cmd_key c"
    using assms(2) by (auto simp: touched_def)
  then have e: "exec c m (addr_key v a) = m (addr_key v a)" for a by (metis exec_other)
  then have "holds_set (exec c m) (addr_key v a) = holds_set m (addr_key v a)"
    "members (exec c m) (addr_key v a) = members m (addr_key v a)" for a
    by (simp_all add: holds_set_def members_def)
  moreover have "k \<notin> touched v cp \<Longrightarrow> exec c m k = m k" for k using k(1) by (metis exec_other)
  ultimately show ?thesis using assms(1) by (simp add: restorable_def)
qed

lemma restorable_set:
  assumes "restorable v cp old m" and "set ids \<subseteq> changed cp a"
    and "c = KAdd (addr_key v a) ids \<or> c = KRem (addr_key v a) ids"
  shows "restorable v cp old (exec c m)"
proof -
  have h: "holds_set m (addr_key v b)" for b using assms(1) by (simp add: restorable_def)
  have "members (exec c m) (addr_key v b) - changed cp b = members m (addr_key v b) - changed cp b" for b
    using h [of a] assms(2,3) by (cases "b = a") auto
  moreover have "k \<notin> touched v cp \<Longrightarrow> exec c m k = m k" for k
    using assms(3) by (auto simp: touched_def)
  ultimately show ?thesis
    using assms exec_set_cmd [OF h] by (simp add: restorable_def)
qed

definition cmd_for :: "string \<Rightarrow> checkpoint \<Rightarrow> kcmd \<Rightarrow> bool" where
  "cmd_for v cp c \<longleftrightarrow> cmd_key c \<in> {hash_key v, height_key v} \<union> tx_key v ` touched_txs cp \<or>
     (\<exists>a ids. set ids \<subseteq> changed cp a \<and> (c = KAdd (addr_key v a) ids \<or> c = KRem (addr_key v a) ids))"

lemma restorable_exec: "restorable v cp old m \<Longrightarrow> cmd_for v cp c \<Longrightarrow> restorable v cp old (exec c m)"
  unfolding cmd_for_def using restorable_value restorable_set by blast

lemma restorable_run:
  "restorable v cp old m \<Longrightarrow> \<forall>c \<in> set cs. cmd_for v cp c \<Longrightarrow> restorable v cp old (run cs m)"
  by (induction cs arbitrary: m) (auto intro: restorable_exec)

lemma cmd_for_up: "c \<in> set (up_cmds v nb cp) \<Longrightarrow> cmd_for v cp c"
  by (auto simp: up_cmds_def cmd_for_def put_cmd_def touched_txs_def changed_def
      split: if_splits dest!: ids_of_mem) force+

lemma cmd_for_down: "c \<in> set (down_cmds v pb cp) \<Longrightarrow> cmd_for v cp c"
  by (auto simp: down_cmds_def cmd_for_def created_def touched_txs_def changed_def
      split: if_splits dest!: ids_of_mem) force+

lemma down_head:
  "run (down_cmds v pb cp) m =
     run (List.map (\<lambda>(t, e). KSet (tx_key v t) (VOutputs e)) (TxsBeforeUpdate cp))
    (run (List.map (\<lambda>(t, _). KDel (tx_key v t)) (created cp))
    (run (List.map (\<lambda>(a, ids). KAdd (addr_key v a) ids) (DereferencedAddressesTxs cp))
    (run (List.map (\<lambda>(a, ids). KRem (addr_key v a) ids) (NewAddreessReferences cp))
      (m(hash_key v \<mapsto> Val (VString (cb_Hash pb)), height_key v \<mapsto> Val (VInt64 (cb_Height pb)))))))"
  by (simp add: down_cmds_def)

lemma cmd_key_put_cmd [simp]: "cmd_key (put_cmd v p) = tx_key v (fst p)"
  by (simp add: put_cmd_def split: prod.split)

lemma run_tx_other:
  assumes "\<And>t. k \<noteq> tx_key v t"
  shows "run (List.map (\<lambda>(t, e). KSet (tx_key v t) (VOutputs e)) xs) m k = m k"
    and "run (List.map (\<lambda>(t, e). KDel (tx_key v t)) xs) m k = m k"
    and "run (List.map (put_cmd v) xs) m k = m k"
  by (rule run_other, use assms in force)+

lemma run_addr_other:
  assumes "\<And>a. k \<noteq> addr_key v a"
  shows "run (List.map (\<lambda>(a, ids). KAdd (addr_key v a) ids) xs) m k = m k"
    and "run (List.map (\<lambda>(a, ids). KRem (addr_key v a) ids) xs) m k = m k"
  by (rule run_other, use assms in force)+

lemma run_tx_untouched:
  assumes "t \<notin> fst ` set xs"
  shows "run (List.map (\<lambda>(t, e). KSet (tx_key v t) (VOutputs e)) xs) m (tx_key v t) = m (tx_key v t)"
    and "run (List.map (\<lambda>(t, e). KDel (tx_key v t)) xs) m (tx_key v t) = m (tx_key v t)"
    and "run (List.map (put_cmd v) xs) m (tx_key v t) = m (tx_key v t)"
  by (rule run_other, use assms in force)+

lemma created_iff: "t \<in> fst ` set (created cp) \<longleftrightarrow> t \<in> fst ` set (NewTxOutputs cp) \<and> t \<notin> fst ` set (TxsBeforeUpdate cp)"
  by (force simp: created_def map_of_eq_None_iff)

text \<open>The restoration gives the old key space, from any state between the old and the new one.\<close>

lemma down_restores:
  assumes d: "describes v pb cp old" and r: "restorable v cp old m"
  shows "run (down_cmds v pb cp) m = old"
proof
  fix k
  let ?m1 = "m(hash_key v \<mapsto> Val (VString (cb_Hash pb)), height_key v \<mapsto> Val (VInt64 (cb_Height pb)))"
  let ?m2 = "run (List.map (\<lambda>(a, ids). KRem (addr_key v a) ids) (NewAddreessReferences cp)) ?m1"
  let ?m3 = "run (List.map (\<lambda>(a, ids). KAdd (addr_key v a) ids) (DereferencedAddressesTxs cp)) ?m2"
  consider (addr) a where "k = addr_key v a" | (tx) t where "k = tx_key v t"
    | (block) "k \<in> {hash_key v, height_key v}"
    | (other) "\<And>a. k \<noteq> addr_key v a" "\<And>t. k \<noteq> tx_key v t" "k \<notin> {hash_key v, height_key v}"
    by blast
  then show "run (down_cmds v pb cp) m k = old k"
  proof cases
    case addr
    have h1: "holds_set ?m1 (addr_key v b)" "members ?m1 (addr_key v b) = members m (addr_key v b)" for b
      using r by (simp_all add: restorable_def holds_set_other)
    note h2 = run_rems [of ?m1, OF h1(1)]
    have h3: "holds_set ?m3 k \<and> members ?m3 k =
        (members m k - ids_of (NewAddreessReferences cp) a) \<union> ids_of (DereferencedAddressesTxs cp) a"
      using run_adds [of ?m2] h2 h1(2) addr by simp
    have "members m k - changed cp a = members old k - changed cp a"
      "ids_of (NewAddreessReferences cp) a \<inter> members old k = {}"
      "ids_of (DereferencedAddressesTxs cp) a \<subseteq> members old k"
      using d r addr by (simp_all add: describes_def restorable_def)
    with h3 have "members ?m3 k = members old k" by (auto simp: changed_def)
    moreover have "holds_set old k" using d addr by (simp add: describes_def)
    ultimately have "?m3 k = old k" using h3 by (metis holds_set_entry)
    then show ?thesis using addr by (simp add: down_head run_tx_other)
  next
    case tx
    show ?thesis
    proof (cases "t \<in> fst ` set (TxsBeforeUpdate cp)")
      case True
      have "run (down_cmds v pb cp) m k = old k"
        unfolding down_head tx by (rule run_sets) (use d True in \<open>auto simp: describes_def\<close>)
      then show ?thesis .
    next
      case before: False
      show ?thesis
      proof (cases "t \<in> fst ` set (NewTxOutputs cp)")
        case True
        with before have "t \<in> fst ` set (created cp)" by (simp add: created_iff)
        moreover from this have "old (tx_key v t) = None" using d by (auto simp: describes_def)
        ultimately show ?thesis using before
          by (simp add: tx down_head run_tx_untouched run_dels)
      next
        case False
        with before have "t \<notin> fst ` set (created cp)" by (simp add: created_iff)
        then have "run (down_cmds v pb cp) m k = m k"
          using before by (simp add: tx down_head run_tx_untouched run_addr_other)
        moreover have "tx_key v t \<notin> touched v cp"
          using before False by (force simp: touched_def touched_txs_def)
        ultimately show ?thesis using r tx by (simp add: restorable_def)
      qed
    qed
  next
    case block
    then show ?thesis using d
      by (auto simp: down_head run_tx_other run_addr_other describes_def)
  next
    case other
    then have "run (down_cmds v pb cp) m k = m k"
      by (simp add: down_head run_tx_other run_addr_other)
    moreover have "k \<notin> touched v cp" using other by (auto simp: touched_def)
    ultimately show ?thesis using r by (simp add: restorable_def)
  qed
qed

section \<open>The new state\<close>

lemma up_head:
  "run (up_cmds v nb cp) m =
     run (List.map (\<lambda>(a, ids). KRem (addr_key v a) ids) (DereferencedAddressesTxs cp))
    (run (List.map (\<lambda>(a, ids). KAdd (addr_key v a) ids) (NewAddreessReferences cp))
    (run (List.map (put_cmd v) (NewTxOutputs cp))
      (m(hash_key v \<mapsto> Val (VString (cb_Hash nb)), height_key v \<mapsto> Val (VInt64 (cb_Height nb))))))"
  by (simp add: up_cmds_def)

lemma run_puts:
  assumes "gomap_wf xs" and "(t, e) \<in> set xs"
  shows "run (List.map (put_cmd v) xs) m (tx_key v t) =
    (if isAllSpent (Outputs e) then None else Some (Val (VOutputs e)))"
  using assms
proof (induction xs arbitrary: m)
  case (Cons p xs)
  have w: "gomap_wf xs" "fst p \<notin> fst ` set xs" using Cons.prems(1) by (auto simp: gomap_wf_def gokeys_def)
  show ?case
  proof (cases "(t, e) \<in> set xs")
    case False
    with Cons.prems(2) have "p = (t, e)" by simp
    with w(2) show ?thesis by (simp add: run_tx_untouched) (simp add: put_cmd_def)
  qed (use Cons.IH w in simp)
qed simp

lemma up_lookup:
  assumes "gomap_wf (NewTxOutputs cp)" and "\<And>a. holds_set m (addr_key v a)"
  shows "run (up_cmds v nb cp) m (hash_key v) = Some (Val (VString (cb_Hash nb)))"
    and "run (up_cmds v nb cp) m (height_key v) = Some (Val (VInt64 (cb_Height nb)))"
    and "holds_set (run (up_cmds v nb cp) m) (addr_key v a)"
    and "members (run (up_cmds v nb cp) m) (addr_key v a) =
      (members m (addr_key v a) \<union> ids_of (NewAddreessReferences cp) a) - ids_of (DereferencedAddressesTxs cp) a"
    and "(t, e) \<in> set (NewTxOutputs cp) \<Longrightarrow> run (up_cmds v nb cp) m (tx_key v t) =
      (if isAllSpent (Outputs e) then None else Some (Val (VOutputs e)))"
    and "t \<notin> fst ` set (NewTxOutputs cp) \<Longrightarrow> run (up_cmds v nb cp) m (tx_key v t) = m (tx_key v t)"
proof -
  let ?m0 = "m(hash_key v \<mapsto> Val (VString (cb_Hash nb)), height_key v \<mapsto> Val (VInt64 (cb_Height nb)))"
  let ?m1 = "run (List.map (put_cmd v) (NewTxOutputs cp)) ?m0"
  have same: "?m1 (addr_key v b) = m (addr_key v b)" for b by (simp add: run_tx_other)
  then have 1: "holds_set ?m1 (addr_key v b)" "members ?m1 (addr_key v b) = members m (addr_key v b)" for b
    using assms(2) [of b] by (simp_all add: holds_set_def members_def)
  note 2 = run_adds [of ?m1, OF 1(1)]
  note 3 = run_rems [of "run (List.map (\<lambda>(a, ids). KAdd (addr_key v a) ids) (NewAddreessReferences cp)) ?m1"]
  show "holds_set (run (up_cmds v nb cp) m) (addr_key v a)"
    and "members (run (up_cmds v nb cp) m) (addr_key v a) =
      (members m (addr_key v a) \<union> ids_of (NewAddreessReferences cp) a) - ids_of (DereferencedAddressesTxs cp) a"
    using 1 2 3 by (simp_all add: up_head)
  show "run (up_cmds v nb cp) m (hash_key v) = Some (Val (VString (cb_Hash nb)))"
    "run (up_cmds v nb cp) m (height_key v) = Some (Val (VInt64 (cb_Height nb)))"
    by (simp_all add: up_head run_tx_other run_addr_other)
  show "(t, e) \<in> set (NewTxOutputs cp) \<Longrightarrow> run (up_cmds v nb cp) m (tx_key v t) =
      (if isAllSpent (Outputs e) then None else Some (Val (VOutputs e)))"
    using assms(1) by (simp add: up_head run_addr_other run_puts)
  show "t \<notin> fst ` set (NewTxOutputs cp) \<Longrightarrow> run (up_cmds v nb cp) m (tx_key v t) = m (tx_key v t)"
    by (simp add: up_head run_addr_other run_tx_untouched)
qed

lemma describes_restorable_up:
  "describes v pb cp old \<Longrightarrow> restorable v cp old (run (up_cmds v nb cp) old)"
  using restorable_refl restorable_run cmd_for_up by blast

section \<open>The code runs these commands\<close>

lemma on_world_iff:
  "on_world f s = (r, s') \<longleftrightarrow> (\<exists>w'. f (world s) = (r, w') \<and> s' = s\<lparr>world := w'\<rparr>)"
  by (auto simp: on_world_def split: prod.splits)

lemma on_world_wrap:
  assumes "on_world (wrapS m f) s = (r, s')"
  obtains q w' where "f (world s) = (q, w')" "s' = s\<lparr>world := w'\<rparr>" "r = wrapO m q"
  using assms by (auto simp: on_world_iff wrapS_def split: prod.splits)

lemma on_world_mask:
  assumes "on_world (maskS e f) s = (r, s')"
  obtains q w' where "f (world s) = (q, w')" "s' = s\<lparr>world := w'\<rparr>"
    "r = (case q of Err _ \<Rightarrow> Err e | _ \<Rightarrow> q)"
  using assms by (auto simp: on_world_iff maskS_def split: prod.splits outcome.splits)

lemma queues_ignore [queue_intros]:
  assumes "queues ks ck pend tx f cs" shows "queues ks ck pend tx (ignoreS f) cs"
  unfolding queues_def
proof
  fix w
  obtain w' where "f w = (Ok (), w')" "ks w' = ks w" "ck w' = ck w" "pend w' tx = pend w tx @ cs"
    using assms by (rule queuesE)
  then show "\<exists>w'. ignoreS f w = (Ok (), w') \<and> ks w' = ks w \<and> ck w' = ck w \<and> pend w' tx = pend w tx @ cs"
    by (simp add: ignoreS_def bindS_def tryS_def retS_def)
qed

lemma queues_map [queue_intros]:
  "(\<And>x. x \<in> set xs \<Longrightarrow> queues ks ck pend tx (f x) [c x]) \<Longrightarrow>
   queues ks ck pend tx (forS f xs) (List.map c xs)"
  using queues_for [of xs ks ck pend tx f "\<lambda>x. [c x]"] by simp

locale utxo_backend =
  kv_laws "kv_base (us_s U)" ks ck + sets_laws "sets_base (us_sets U)" ks ck +
  checkpoint_laws "us_checkpointsStore U" ks ck +
  tx_laws D "kv_WithTx (us_s U)" "sets_WithTx (us_sets U)" ks ck pend
  for U :: "('w, 'tx) utxo_store" and D :: "('w, 'tx) tx_driver" and ks :: "'w \<Rightarrow> kstate"
    and ck :: "'w \<Rightarrow> ckpt_file" and pend :: "'w \<Rightarrow> 'tx \<Rightarrow> kcmd list" +
  assumes txManager: "us_txManager U = Some D"

context utxo_backend
begin

lemma WithTx_obtain:
  obtains s z where "WithTx U tx = Ok \<lparr>b_s = s, b_sets = z, b_dbVer = us_dbVer U\<rparr>"
    "kv_WithTx (us_s U) tx = Ok s" "sets_WithTx (us_sets U) tx = Ok z"
  using kvT_total [of tx] setsT_total [of tx] by (auto simp: WithTx_def)

lemma up_block_queues:
  assumes "kv_WithTx (us_s U) tx = Ok s" and "sets_WithTx (us_sets U) tx = Ok z"
  shows "queues ks ck pend tx (up_block \<lparr>b_s = s, b_sets = z, b_dbVer = v\<rparr> (cb_Hash nb) (cb_Height nb)
      (NewTxOutputs cp) (DereferencedAddressesTxs cp) (NewAddreessReferences cp)) (up_cmds v nb cp)"
proof -
  note q = kvT_Set [OF assms(1)] kvT_Delete [OF assms(1)] setsT_Add [OF assms(2)] setsT_Remove [OF assms(2)]
  have "up_cmds v nb cp = [KSet (hash_key v) (VString (cb_Hash nb))] @ ([KSet (height_key v) (VInt64 (cb_Height nb))] @
     (List.map (put_cmd v) (NewTxOutputs cp) @
     (List.map (\<lambda>(a, ids). KAdd (addr_key v a) ids) (NewAddreessReferences cp) @
     List.map (\<lambda>(a, ids). KRem (addr_key v a) ids) (DereferencedAddressesTxs cp))))"
    by (simp add: up_cmds_def)
  then show ?thesis
    unfolding up_block_def setBlockHash_def setBlockHeight_def spendAllOutputs_def setTransactionOutputs_def
      setNewTxOutputs_def addAddressUTXOTransactionIds_def deleteAdressUTXOTransactionIds_def put_cmd_def
    by (simp only:) (intro queues_then queues_map; clarsimp simp: q queues_wrap queues_ignore queues_mask)
qed

definition in_tx :: "checkpoint_block \<Rightarrow> checkpoint \<Rightarrow> 'tx \<Rightarrow> ('w, unit) st" where
  "in_tx nb cp = (\<lambda>tx. bindS (wrapS ''failed to wrap store in transaction'' (liftO (WithTx U tx))) (\<lambda>b.
     up_block b (cb_Hash nb) (cb_Height nb) (NewTxOutputs cp) (DereferencedAddressesTxs cp)
       (NewAddreessReferences cp)))"

lemma in_tx_queues: "queues ks ck pend tx (in_tx nb cp tx) (up_cmds (us_dbVer U) nb cp)"
proof -
  obtain s z where b: "WithTx U tx = Ok \<lparr>b_s = s, b_sets = z, b_dbVer = us_dbVer U\<rparr>"
    "kv_WithTx (us_s U) tx = Ok s" "sets_WithTx (us_sets U) tx = Ok z" by (rule WithTx_obtain)
  show ?thesis using up_block_queues [OF b(2,3)] by (simp add: in_tx_def b(1) go_simps)
qed

end

lemma created_cmds:
  "List.map (\<lambda>(t, _). KDel (tx_key v t)) (created cp) =
     concat (List.map (\<lambda>(t, _). if map_of (TxsBeforeUpdate cp) t = None then [KDel (tx_key v t)] else [])
       (NewTxOutputs cp))"
proof -
  have "List.map (\<lambda>(t, _). KDel (tx_key v t)) (filter (\<lambda>(t, _). p t) xs) =
      concat (List.map (\<lambda>(t, _). if p t then [KDel (tx_key v t)] else []) xs)"
    for p and xs :: "(string \<times> tx_outputs) list"
    by (induction xs) auto
  then show ?thesis by (simp add: created_def)
qed

text \<open>What a store that has executed the checkpoint looks like.\<close>

definition is_new :: "string \<Rightarrow> checkpoint_block \<Rightarrow> checkpoint \<Rightarrow> kstate \<Rightarrow> bool" where
  "is_new v nb cp m \<longleftrightarrow>
     m (hash_key v) = Some (Val (VString (cb_Hash nb))) \<and>
     m (height_key v) = Some (Val (VInt64 (cb_Height nb))) \<and>
     (\<forall>(a, ids) \<in> set (NewAddreessReferences cp). set ids \<subseteq> members m (addr_key v a)) \<and>
     (\<forall>(a, ids) \<in> set (DereferencedAddressesTxs cp). set ids \<inter> members m (addr_key v a) = {}) \<and>
     (\<forall>(t, e) \<in> set (NewTxOutputs cp). m (tx_key v t) =
        (if isAllSpent (Outputs e) then None else Some (Val (VOutputs e))))"

lemma up_is_new:
  assumes "describes v pb cp old" and "gomap_wf (NewTxOutputs cp)"
  shows "is_new v nb cp (run (up_cmds v nb cp) old)"
proof -
  have h: "\<And>a. holds_set old (addr_key v a)"
    and n: "\<And>a. ids_of (NewAddreessReferences cp) a \<inter> members old (addr_key v a) = {}"
    and d: "\<And>a. ids_of (DereferencedAddressesTxs cp) a \<subseteq> members old (addr_key v a)"
    using assms(1) by (auto simp: describes_def)
  note u = up_lookup [OF assms(2) h]
  have "set ids \<subseteq> members (run (up_cmds v nb cp) old) (addr_key v a)" if "(a, ids) \<in> set (NewAddreessReferences cp)" for a ids
    using ids_of_mem [OF that] n [of a] d [of a] by (auto simp: u(4))
  moreover have "set ids \<inter> members (run (up_cmds v nb cp) old) (addr_key v a) = {}"
    if "(a, ids) \<in> set (DereferencedAddressesTxs cp)" for a ids
    using ids_of_mem [OF that] by (auto simp: u(4))
  ultimately show ?thesis using u(1,2,5) unfolding is_new_def by fast
qed

context utxo_backend
begin

lemma getBlockHash_obs:
  "obs ks ck (getBlockHash (base U)) m
     (\<lambda>h. \<forall>s. m (hash_key (us_dbVer U)) = Some (Val (VString s)) \<longrightarrow> h = s) (\<lambda>_. True)"
  unfolding getBlockHash_def base_sel
  by (rule obs_bind [OF obs_wrap [OF obs_weaken [OF Get_obs]]])
    (auto intro!: obs_ret obs_fail split: option.splits)

lemma getBlockHeight_obs:
  "obs ks ck (getBlockHeight (base U)) m
     (\<lambda>h. \<forall>n. m (height_key (us_dbVer U)) = Some (Val (VInt64 n)) \<longrightarrow> h = n) (\<lambda>_. True)"
  unfolding getBlockHeight_def base_sel
  by (rule obs_bind [OF obs_wrap [OF obs_weaken [OF Get_obs]]])
    (auto intro!: obs_ret split: option.splits)

lemma getAddress_obs:
  "obs ks ck (getAddressUTXOTransactionIds (base U) a) m
     (\<lambda>xs. set xs = members m (addr_key (us_dbVer U) a)) (\<lambda>_. True)"
  unfolding getAddressUTXOTransactionIds_def base_sel
  using GetSet_obs by (auto intro: obs_wrap)

lemma getOutputs_obs:
  "obs ks ck (getOutputsByTxID (base U) t) m
     (\<lambda>e. m (tx_key (us_dbVer U) t) \<noteq> None \<and>
          (\<forall>e'. m (tx_key (us_dbVer U) t) = Some (Val (VOutputs e')) \<longrightarrow> e = e'))
     (\<lambda>e. errors_is e ErrNotFound \<longrightarrow> m (tx_key (us_dbVer U) t) = None)"
  unfolding getOutputsByTxID_def base_sel
  by (rule obs_bind [OF obs_wrap [OF obs_weaken [OF Get_obs]]])
    (auto intro!: obs_ret obs_fail simp: foreign_def split: option.splits)

end

context utxo_backend
begin

lemma refs_obs:
  assumes "\<And>xs. set xs = members m (addr_key (us_dbVer U) a) \<Longrightarrow> p \<longrightarrow> q xs"
  shows "obs ks ck (bindS (wrapS e (getAddressUTXOTransactionIds (base U) a)) (\<lambda>cur. retS (q cur))) m
    (\<lambda>b. p \<longrightarrow> b) (\<lambda>_. True)"
  by (rule obs_bind [OF obs_wrap [OF getAddress_obs]], rule obs_ret, rule assms)

lemma spent_obs:
  "obs ks ck (bindS (tryS (getOutputsByTxID (base U) t)) (\<lambda>res. case res of
      Inl err \<Rightarrow> if errors_is err ErrNotFound then retS True else failS (Wrap x err)
    | Inr _ \<Rightarrow> retS False)) m (\<lambda>b. m (tx_key (us_dbVer U) t) = None \<longrightarrow> b) (\<lambda>_. True)"
proof (rule obs_bind)
  show "obs ks ck (tryS (getOutputsByTxID (base U) t)) m
      (\<lambda>r. \<forall>e. r = Inr e \<longrightarrow> m (tx_key (us_dbVer U) t) \<noteq> None) (\<lambda>_. True)"
    by (rule obs_try, rule obs_weaken [OF getOutputs_obs]) simp_all
qed (auto intro: obs_ret obs_fail split: sum.split)

lemma unspent_obs:
  "obs ks ck (bindS (wrapS y (getOutputsByTxID (base U) t)) (\<lambda>cur. retS (cur = e))) m
     (\<lambda>b. m (tx_key (us_dbVer U) t) = Some (Val (VOutputs e)) \<longrightarrow> b) (\<lambda>_. True)"
  by (rule obs_bind [OF obs_wrap [OF obs_weaken [OF getOutputs_obs]]], assumption, simp)
    (rule obs_ret, simp)

lemma isConsistence_obs:
  assumes "NewBlock cp = Some nb"
  shows "obs ks ck (isConsistenceWithCheckpoint (base U) cp) m
    (\<lambda>b. (is_new (us_dbVer U) nb cp m \<longrightarrow> b) \<and>
         (\<forall>s. m (hash_key (us_dbVer U)) = Some (Val (VString s)) \<longrightarrow> s \<noteq> cb_Hash nb \<longrightarrow> \<not> b)) (\<lambda>_. True)"
  (is "obs _ _ _ _ ?Q _")
proof -
  let ?v = "us_dbVer U"
  have g: "GetNextBlockHash cp = Ok (cb_Hash nb)" "GetNewBlockHeight cp = Ok (cb_Height nb)"
    using assms by (simp_all add: checkpoint_block_getters)
  let ?refs = "\<lambda>(a, ids). set ids \<subseteq> members m (addr_key ?v a)"
  let ?derefs = "\<lambda>(a, ids). set ids \<inter> members m (addr_key ?v a) = {}"
  let ?outs = "\<lambda>(t, e). m (tx_key ?v t) = (if isAllSpent (Outputs e) then None else Some (Val (VOutputs e)))"
  have refs: "obs ks ck (allS (\<lambda>(a, ids). bindS (wrapS e (getAddressUTXOTransactionIds (base U) a))
      (\<lambda>cur. retS (lo_Every cur ids))) (NewAddreessReferences cp)) m
      (\<lambda>b. list_all ?refs (NewAddreessReferences cp) \<longrightarrow> b) (\<lambda>_. True)" for e
    by (rule obs_all) (auto intro!: refs_obs simp: lo_Every_def list_all_iff)
  have derefs: "obs ks ck (allS (\<lambda>(a, ids). bindS (wrapS e (getAddressUTXOTransactionIds (base U) a))
      (\<lambda>cur. retS (lo_None cur ids))) (DereferencedAddressesTxs cp)) m
      (\<lambda>b. list_all ?derefs (DereferencedAddressesTxs cp) \<longrightarrow> b) (\<lambda>_. True)" for e
    by (rule obs_all) (auto intro!: refs_obs simp: lo_None_def list_all_iff)
  have outs: "obs ks ck (allS (\<lambda>(t, e). if isAllSpent (Outputs e)
      then bindS (tryS (getOutputsByTxID (base U) t)) (\<lambda>res. case res of
             Inl err \<Rightarrow> if errors_is err ErrNotFound then retS True else failS (Wrap x err)
           | Inr _ \<Rightarrow> retS False)
      else bindS (wrapS y (getOutputsByTxID (base U) t)) (\<lambda>cur. retS (cur = e)))
      (NewTxOutputs cp)) m (\<lambda>b. list_all ?outs (NewTxOutputs cp) \<longrightarrow> b) (\<lambda>_. True)" for x y
    by (rule obs_all) (simp add: split_beta spent_obs unspent_obs)
  have new: "is_new ?v nb cp m \<longleftrightarrow> m (hash_key ?v) = Some (Val (VString (cb_Hash nb))) \<and>
      m (height_key ?v) = Some (Val (VInt64 (cb_Height nb))) \<and> list_all ?refs (NewAddreessReferences cp) \<and>
      list_all ?derefs (DereferencedAddressesTxs cp) \<and> list_all ?outs (NewTxOutputs cp)"
    by (simp add: is_new_def list_all_iff)
  show ?thesis
    unfolding isConsistenceWithCheckpoint_def g liftO_simps bindS_retS
    apply (rule obs_bind [OF obs_wrap [OF getBlockHash_obs]])
    apply (rule obs_if)
     apply (rule obs_ret, force simp: new)
    apply (rule obs_weaken [where Q = "\<lambda>b. is_new ?v nb cp m \<longrightarrow> b" and E = "\<lambda>_. True"])
      apply (rule obs_bind [OF obs_wrap [OF getBlockHeight_obs]])
      apply (rule obs_if, rule obs_ret, force simp: new)
      apply (rule obs_bind [OF refs], rule obs_if, rule obs_ret, force simp: new)
      apply (rule obs_bind [OF derefs], rule obs_if, rule obs_ret, force simp: new)
      apply (rule obs_weaken [OF outs], simp add: new, simp)
     apply auto
    done
qed

end

context utxo_backend
begin

lemma down_does:
  assumes "PrevBlock cp = Some pb"
  shows "does ks ck (downCheckpoint (base U) cp) (down_cmds (us_dbVer U) pb cp)"
proof -
  let ?v = "us_dbVer U"
  have g: "GetPreviousBlockHash cp = Ok (cb_Hash pb)" "GetPreviousBlockheight cp = Ok (cb_Height pb)"
    using assms by (simp_all add: checkpoint_block_getters)
  note one = does_one [OF Set] does_one [OF Delete] does_one [OF AddToSet] does_one [OF RemoveFromSet]
  have c: "down_cmds ?v pb cp = [KSet (hash_key ?v) (VString (cb_Hash pb))] @ ([KSet (height_key ?v) (VInt64 (cb_Height pb))] @
     (List.map (\<lambda>(a, ids). KRem (addr_key ?v a) ids) (NewAddreessReferences cp) @
     (List.map (\<lambda>(a, ids). KAdd (addr_key ?v a) ids) (DereferencedAddressesTxs cp) @
     (concat (List.map (\<lambda>(t, _). if map_of (TxsBeforeUpdate cp) t = None then [KDel (tx_key ?v t)] else [])
       (NewTxOutputs cp)) @
     List.map (\<lambda>(txID, entry). KSet (tx_key ?v txID) (VOutputs entry)) (TxsBeforeUpdate cp)))))"
    by (simp add: down_cmds_def created_cmds)
  show ?thesis
    unfolding c downCheckpoint_def g liftO_simps bindS_retS setBlockHash_def setBlockHeight_def
      removeAddressTxIDS_def deleteAdressUTXOTransactionIds_def addAddressUTXOTransactionIds_def
      spendAllOutputs_def setTransactionOutputs_def setNewTxOutputs_def base_sel
    by (intro does_then does_map does_for; clarsimp simp: one does_wrap does_ret)
qed

lemma spend_outcome:
  assumes "spendOutputsWithNewBlockInfo U (cb_Hash nb) (cb_Height nb) (NewTxOutputs cp)
      (DereferencedAddressesTxs cp) (NewAddreessReferences cp) s = (r, s')"
  defines "new \<equiv> run (up_cmds (us_dbVer U) nb cp) (ks (world s))"
  shows "ck (world s') = ck (world s)" and "r \<noteq> Panic"
    and "ks (world s') = ks (world s) \<or> ks (world s') = new"
    and "r = Ok () \<Longrightarrow> ks (world s') = new \<and> isConsist s' = isConsist s"
    and "r \<noteq> Ok () \<Longrightarrow> \<not> isConsist s'"
proof -
  define keys where "keys = getStoreKeysToWatchFromCheckpointUP (base U) (gokeys (NewTxOutputs cp))
            (gokeys (DereferencedAddressesTxs cp)) (gokeys (NewAddreessReferences cp))"
  have "bindS (tryS (on_world (Do (Some D) (Some keys) (in_tx nb cp)))) (\<lambda>res. case res of
        Inl err \<Rightarrow> thenS (set_consist False) (failS (Wrap ''failed to comlete transaction'' err))
      | Inr _ \<Rightarrow> retS ()) s = (r, s')"
    using assms(1) unfolding spendOutputsWithNewBlockInfo_def Let_def txManager keys_def in_tx_def .
  then have all: "ck (world s') = ck (world s) \<and> r \<noteq> Panic \<and> (ks (world s') = ks (world s) \<or> ks (world s') = new) \<and>
      (r = Ok () \<longrightarrow> ks (world s') = new \<and> isConsist s' = isConsist s) \<and> (r \<noteq> Ok () \<longrightarrow> \<not> isConsist s')"
  proof (cases rule: bindS_cases)
    case st: (Ok res s1)
    from st(1) obtain q w1 where q: "Do (Some D) (Some keys) (in_tx nb cp) (world s) = (q, w1)"
      and s1: "s1 = s\<lparr>world := w1\<rparr>" and res: "res = (case q of Ok a \<Rightarrow> Inr a | Err e \<Rightarrow> Inl e)" "q \<noteq> Panic"
      by (auto simp: tryS_def on_world_def split: prod.splits outcome.splits)
    note d = Do_queues [OF q in_tx_queues, folded new_def]
    show ?thesis
    proof (cases q)
      case (Ok a)
      with st(2) res s1 have "s' = s\<lparr>world := w1\<rparr>" "r = Ok ()" by (simp_all add: retS_apply)
      with d Ok show ?thesis by simp
    next
      case (Err e)
      with st(2) res s1 have "s' = s\<lparr>world := w1, isConsist := False\<rparr>" "\<exists>e. r = Err e"
        by (auto simp: thenS_def bindS_def set_consist_def failS_apply)
      with d show ?thesis by auto
    qed (use res in simp)
  next
    case (Err e)
    then show ?thesis by (auto elim: tryS_cases)
  next
    case Panic
    then obtain w1 where "Do (Some D) (Some keys) (in_tx nb cp) (world s) = (Panic, w1)"
      by (auto elim!: tryS_cases simp: on_world_iff)
    from Do_queues [OF this in_tx_queues] show ?thesis by simp
  qed
  then show "ck (world s') = ck (world s)" "r \<noteq> Panic"
    "ks (world s') = ks (world s) \<or> ks (world s') = new"
    "r = Ok () \<Longrightarrow> ks (world s') = new \<and> isConsist s' = isConsist s"
    "r \<noteq> Ok () \<Longrightarrow> \<not> isConsist s'" by blast+
qed

end

section \<open>Outcomes of a commit and of a start\<close>

text \<open>The states a crash can leave, with the checkpoint file.\<close>

definition safe :: "string \<Rightarrow> checkpoint_block \<Rightarrow> checkpoint_block \<Rightarrow> checkpoint \<Rightarrow> kstate \<Rightarrow> kstate \<Rightarrow> ckpt_file \<Rightarrow> bool" where
  "safe v pb nb cp old m f \<longleftrightarrow>
     (f = NoFile \<and> (m = old \<or> m = run (up_cmds v nb cp) old)) \<or>
     (f = Torn \<and> m = old) \<or>
     (f = Saved cp \<and> (m = run (up_cmds v nb cp) old \<or>
        restorable v cp old m \<and> m (hash_key v) = Some (Val (VString (cb_Hash pb)))))"

lemma down_prefix:
  assumes "restorable v cp old m" and "m (hash_key v) = Some (Val (VString (cb_Hash pb)))"
  shows "restorable v cp old (run (take n (down_cmds v pb cp)) m)"
    and "run (take n (down_cmds v pb cp)) m (hash_key v) = Some (Val (VString (cb_Hash pb)))"
proof -
  show "restorable v cp old (run (take n (down_cmds v pb cp)) m)"
    using assms(1) by (rule restorable_run) (auto intro: cmd_for_down dest: in_set_takeD)
  show "run (take n (down_cmds v pb cp)) m (hash_key v) = Some (Val (VString (cb_Hash pb)))"
  proof (cases n)
    case (Suc k)
    let ?rest = "[KSet (height_key v) (VInt64 (cb_Height pb))] @
     List.map (\<lambda>(a, ids). KRem (addr_key v a) ids) (NewAddreessReferences cp) @
     List.map (\<lambda>(a, ids). KAdd (addr_key v a) ids) (DereferencedAddressesTxs cp) @
     List.map (\<lambda>(txID, _). KDel (tx_key v txID)) (created cp) @
     List.map (\<lambda>(txID, entry). KSet (tx_key v txID) (VOutputs entry)) (TxsBeforeUpdate cp)"
    have "hash_key v \<notin> cmd_key ` set ?rest" by auto
    then have "hash_key v \<notin> cmd_key ` set (take k ?rest)" by (meson image_mono set_take_subset subsetD)
    with Suc show ?thesis by (simp add: down_cmds_def run_other)
  qed (simp add: assms(2))
qed

context utxo_backend
begin

lemma commit_outcome:
  assumes "CommitCheckpoint U cp s = (r, s')" and nb: "NewBlock cp = Some nb" and "isConsist s"
  defines "new \<equiv> run (up_cmds (us_dbVer U) nb cp) (ks (world s))"
  shows "r \<noteq> Panic \<and> (ks (world s') = ks (world s) \<or> ks (world s') = new) \<and>
    (r = Ok () \<longrightarrow> ks (world s') = new \<and> ck (world s') = NoFile \<and> isConsist s') \<and>
    (ks (world s') = ks (world s) \<longrightarrow> ck (world s') \<in> {ck (world s), Saved cp, Torn, NoFile}) \<and>
    (ks (world s') \<noteq> ks (world s) \<longrightarrow> ck (world s') \<in> {Saved cp, NoFile}) \<and>
    (ck (world s') = NoFile \<longrightarrow> ks (world s') = new \<or> ck (world s) = NoFile) \<and>
    (\<not> isConsist s' \<longrightarrow> ck (world s') = Saved cp)"
proof -
  have g: "GetNextBlockHash cp = Ok (cb_Hash nb)" "GetNewBlockHeight cp = Ok (cb_Height nb)"
    using nb by (simp_all add: checkpoint_block_getters)
  let ?spend = "spendOutputsWithNewBlockInfo U (cb_Hash nb) (cb_Height nb) (NewTxOutputs cp)
      (DereferencedAddressesTxs cp) (NewAddreessReferences cp)"
  have "thenS (on_world (wrapS ''failed to save checkppoint before update''
           (cs_SaveCheckpoint (us_checkpointsStore U) cp)))
        (thenS ?spend (on_world (wrapS ''failed to remove latest checkpoint''
           (cs_RemoveLatestCheckpoint (us_checkpointsStore U))))) s = (r, s')"
    using assms(1,3) by (simp add: CommitCheckpoint_def guarded_def g go_simps)
  then show ?thesis
  proof (cases rule: thenS_cases)
    case save: (Ok a s1)
    then obtain w1 where w1: "cs_SaveCheckpoint (us_checkpointsStore U) cp (world s) = (Ok (), w1)"
      and s1: "s1 = s\<lparr>world := w1\<rparr>" by (auto simp: on_world_iff wrapS_Ok_iff)
    have 1: "ks (world s1) = ks (world s)" "ck (world s1) = Saved cp" "isConsist s1"
      using Save_frame [OF w1] Save_Ok [OF w1] s1 assms(3) by simp_all
    from save(2) show ?thesis
    proof (cases rule: thenS_cases)
      case spend: (Ok a' s2)
      note sp = spend_outcome [OF spend(1)]
      have 2: "ks (world s2) = new" "ck (world s2) = Saved cp" "isConsist s2"
        using sp(1,4) 1 by (simp_all add: new_def)
      from spend(2) obtain w3 q where w3: "cs_RemoveLatestCheckpoint (us_checkpointsStore U) (world s2) = (q, w3)"
        and q: "s' = s2\<lparr>world := w3\<rparr>" "r = wrapO ''failed to remove latest checkpoint'' q"
        by (auto simp: on_world_iff wrapS_def split: prod.splits)
      have "ck w3 = Saved cp \<or> ck w3 = NoFile" "q = Ok () \<Longrightarrow> ck w3 = NoFile"
        using Remove_frame [OF w3] Remove_Ok Remove_Err [of "world s2" _ w3] w3 2 by (cases q; auto)+
      then show ?thesis using Remove_frame [OF w3] q 2 by (cases q) auto
    next
      case (Err e)
      from spend_outcome [OF Err(1)] 1 Err(2) show ?thesis by (auto simp: new_def)
    next
      case Panic
      from spend_outcome(2) [OF Panic(1)] show ?thesis by simp
    qed
  next
    case (Err e)
    then obtain w1 q where "cs_SaveCheckpoint (us_checkpointsStore U) cp (world s) = (q, w1)"
      and "s' = s\<lparr>world := w1\<rparr>" by (auto simp: on_world_iff wrapS_def split: prod.splits)
    then show ?thesis using Err Save_frame Save_any [of cp "world s" q w1] assms(3) by auto
  next
    case Panic
    then show ?thesis by (auto simp: on_world_iff dest: Save_frame elim!: wrapS_cases)
  qed
qed

end

context utxo_backend
begin

lemma commit_safe:
  assumes "CommitCheckpoint U cp s = (r, s')" and "NewBlock cp = Some nb" and "isConsist s"
    and "ck (world s) = NoFile" and d: "describes (us_dbVer U) pb cp (ks (world s))"
  shows "safe (us_dbVer U) pb nb cp (ks (world s)) (ks (world s')) (ck (world s'))"
  using commit_outcome [OF assms(1-3)] restorable_refl [OF d] d assms(4)
  unfolding safe_def describes_def by fastforce

lemma remove_safe:
  assumes "cs_RemoveLatestCheckpoint (us_checkpointsStore U) w = (q, w')"
    and "safe v pb nb cp old (ks w) (ck w)" and "ks w = old \<or> ks w = run (up_cmds v nb cp) old"
  shows "safe v pb nb cp old (ks w') (ck w')" and "q = Ok () \<Longrightarrow> ck w' = NoFile \<and> ks w' = ks w" and "q \<noteq> Panic"
proof -
  show "q \<noteq> Panic" using Remove_frame [OF assms(1)] by simp
  then have "ck w' = ck w \<or> ck w' = NoFile" using assms(1) by (cases q) (auto dest: Remove_Ok Remove_Err)
  then show "safe v pb nb cp old (ks w') (ck w')"
    using Remove_frame [OF assms(1)] assms(2,3) by (auto simp: safe_def)
  show "q = Ok () \<Longrightarrow> ck w' = NoFile \<and> ks w' = ks w"
    using Remove_frame [OF assms(1)] Remove_Ok assms(1) by simp
qed

lemma fix_outcome:
  assumes f: "bindS (on_world (maskS m (isConsistenceWithCheckpoint (base U) cp))) (\<lambda>ok.
            if ok then thenS (on_world (wrapS m1 (cs_RemoveLatestCheckpoint (us_checkpointsStore U)))) (set_consist True)
            else thenS (on_world (wrapS m2 (downCheckpoint (base U) cp)))
                  (on_world (maskS m3 (cs_RemoveLatestCheckpoint (us_checkpointsStore U)))))
          \<lparr>world = w, isConsist = False\<rparr> = (q, s')"
    and cp: "PrevBlock cp = Some pb" "NewBlock cp = Some nb"
    and d: "describes (us_dbVer U) pb cp old" and wf: "gomap_wf (NewTxOutputs cp)"
    and hash: "cb_Hash pb \<noteq> cb_Hash nb"
    and s: "safe (us_dbVer U) pb nb cp old (ks w) (ck w)" and ck: "ck w = Saved cp"
  defines "new \<equiv> run (up_cmds (us_dbVer U) nb cp) old"
  shows "q \<noteq> Panic \<and> safe (us_dbVer U) pb nb cp old (ks (world s')) (ck (world s')) \<and>
    (ks w = new \<longrightarrow> ks (world s') = new) \<and>
    (q = Ok () \<longrightarrow> ck (world s') = NoFile \<and> (ks (world s') = new \<or> ks (world s') = old) \<and>
       (ks w \<noteq> new \<longrightarrow> ks (world s') = old) \<and> (isConsist s' \<longleftrightarrow> ks w = new))"
proof -
  let ?v = "us_dbVer U"
  note down = down_does [OF cp(1), unfolded does_def, rule_format]
  have new: "is_new ?v nb cp new" unfolding new_def using d wf by (rule up_is_new)
  have rest: "restorable ?v cp old (ks w) \<and> ks w (hash_key ?v) = Some (Val (VString (cb_Hash pb)))" if "ks w \<noteq> new"
    using s ck that by (auto simp: safe_def new_def)
  from f show ?thesis
  proof (cases rule: bindS_cases)
    case (Ok ok s1)
    then obtain w1 where c: "isConsistenceWithCheckpoint (base U) cp w = (Ok ok, w1)"
      and s1: "s1 = \<lparr>world = w1, isConsist = False\<rparr>" by (auto simp: on_world_iff maskS_Ok_iff)
    note o = obsD [OF isConsistence_obs [OF cp(2)] refl c]
    have ok: "ok \<longleftrightarrow> ks w = new" using o(4) [OF refl] new rest hash by (cases "ks w = new") auto
    have s2: "safe ?v pb nb cp old (ks w1) (ck w1)" using o(1,2) s by simp
    show ?thesis
    proof (cases ok)
      case True
      with Ok(2) s1 have "thenS (on_world (wrapS m1 (cs_RemoveLatestCheckpoint (us_checkpointsStore U))))
          (set_consist True) \<lparr>world = w1, isConsist = False\<rparr> = (q, s')" by simp
      then show ?thesis
      proof (cases rule: thenS_cases)
        case t: (Ok a s3)
        from t(1) obtain w2 where r: "cs_RemoveLatestCheckpoint (us_checkpointsStore U) w1 = (Ok (), w2)"
          and "s3 = \<lparr>world = w2, isConsist = False\<rparr>" by (auto simp: on_world_iff wrapS_Ok_iff)
        with t(2) have "world s' = w2" "isConsist s'" "q = Ok ()" by (auto simp: set_consist_def)
        then show ?thesis using remove_safe(1,2) [OF r s2] o(1) ok True by (simp add: new_def)
      next
        case (Err e)
        from Err(1) obtain p where r: "cs_RemoveLatestCheckpoint (us_checkpointsStore U) w1 = (p, world s')"
          by (rule on_world_wrap) simp
        from remove_safe(1) [OF r s2] Remove_frame [OF r] o(1) ok True Err(2) show ?thesis by (simp add: new_def)
      next
        case Panic
        from Panic(1) obtain w2 where r: "cs_RemoveLatestCheckpoint (us_checkpointsStore U) w1 = (Panic, w2)"
          by (rule on_world_wrap) simp
        from Remove_frame [OF r] show ?thesis by simp
      qed
    next
      case False
      with ok rest have m: "restorable ?v cp old (ks w1)" "ks w1 (hash_key ?v) = Some (Val (VString (cb_Hash pb)))"
        and n: "ks w \<noteq> new" using o(1) by auto
      from False Ok(2) s1 have "thenS (on_world (wrapS m2 (downCheckpoint (base U) cp)))
          (on_world (maskS m3 (cs_RemoveLatestCheckpoint (us_checkpointsStore U))))
          \<lparr>world = w1, isConsist = False\<rparr> = (q, s')" by simp
      then show ?thesis
      proof (cases rule: thenS_cases)
        case dn: (Ok a s2)
        then obtain w2 where w2: "downCheckpoint (base U) cp w1 = (Ok (), w2)"
          and s2': "s2 = \<lparr>world = w2, isConsist = False\<rparr>" by (auto simp: on_world_iff wrapS_Ok_iff)
        from dn(2) obtain p w3 where r: "cs_RemoveLatestCheckpoint (us_checkpointsStore U) (world s2) = (p, w3)"
          and s': "s' = s2\<lparr>world := w3\<rparr>" and p: "q = (case p of Err _ \<Rightarrow> Err m3 | _ \<Rightarrow> p)"
          by (rule on_world_mask)
        have 2: "ks w2 = old" "ck w2 = Saved cp"
          using down [OF w2] down_restores [OF d m(1)] o(2) ck by simp_all
        then have "safe ?v pb nb cp old (ks (world s2)) (ck (world s2))"
          using restorable_refl [OF d] d s2' by (simp add: safe_def describes_def)
        note rs = remove_safe [OF r this] and rf = Remove_frame [OF r]
        show ?thesis
        proof (cases p)
          case (Ok u)
          then show ?thesis using rs s' s2' p 2 n by simp
        next
          case (Err e)
          then show ?thesis using rs(1) rf s' s2' p 2 n by simp
        qed (use rf in simp)
      next
        case (Err e)
        from Err(1) obtain p w2 where w2: "downCheckpoint (base U) cp w1 = (p, w2)"
          and s': "s' = \<lparr>world = w1, isConsist = False\<rparr>\<lparr>world := w2\<rparr>" by (rule on_world_wrap) simp
        from down [OF w2] obtain k where "ks w2 = run (take k (down_cmds ?v pb cp)) (ks w1)"
          "ck w2 = Saved cp" using o(2) ck by auto
        then show ?thesis
          using down_prefix [OF m, of k] Err(2) n s' by (simp add: safe_def new_def)
      next
        case Panic
        then show ?thesis using down by (auto elim!: on_world_wrap)
      qed
    qed
  next
    case (Err e)
    then obtain p w1 where c: "isConsistenceWithCheckpoint (base U) cp w = (p, w1)" and "world s' = w1"
      by (auto elim!: on_world_mask)
    with obsD(1,2) [OF isConsistence_obs [OF cp(2)] refl c] s Err show ?thesis by (simp add: new_def)
  next
    case Panic
    have np: "fst (isConsistenceWithCheckpoint (base U) cp w) \<noteq> Panic"
      using obsD(3) [OF isConsistence_obs [OF cp(2)] refl] by (metis prod.collapse)
    from Panic(1) show ?thesis by (rule on_world_mask) (use np in \<open>auto split: outcome.splits\<close>)
  qed
qed

text \<open>
  A start from any state a crash can leave: it panics never, leaves such a state again, and when it
  succeeds the key space is the old or the new one and the checkpoint file is gone. The flag says
  whether the restoration was not needed.
\<close>

lemma New_outcome:
  assumes "New U w = (r, s')" and cp: "PrevBlock cp = Some pb" "NewBlock cp = Some nb"
    and d: "describes (us_dbVer U) pb cp old" and wf: "gomap_wf (NewTxOutputs cp)"
    and hash: "cb_Hash pb \<noteq> cb_Hash nb"
    and s: "safe (us_dbVer U) pb nb cp old (ks w) (ck w)"
  defines "new \<equiv> run (up_cmds (us_dbVer U) nb cp) old"
  shows "r \<noteq> Panic \<and> safe (us_dbVer U) pb nb cp old (ks (world s')) (ck (world s')) \<and>
    (ks w = new \<longrightarrow> ks (world s') = new) \<and>
    (r = Ok () \<longrightarrow> ck (world s') = NoFile \<and> (ks (world s') = new \<or> ks (world s') = old) \<and>
       (ks w \<noteq> new \<longrightarrow> ks (world s') = old) \<and>
       (isConsist s' \<longleftrightarrow> ck w = NoFile \<or> ks w = new))"
proof -
  let ?v = "us_dbVer U" and ?s0 = "\<lparr>world = w, isConsist = False\<rparr>"
  let ?goal = "\<lambda>r s'. r \<noteq> Panic \<and> safe ?v pb nb cp old (ks (world s')) (ck (world s')) \<and>
    (ks w = new \<longrightarrow> ks (world s') = new) \<and>
    (r = Ok () \<longrightarrow> ck (world s') = NoFile \<and> (ks (world s') = new \<or> ks (world s') = old) \<and>
       (ks w \<noteq> new \<longrightarrow> ks (world s') = old) \<and>
       (isConsist s' \<longleftrightarrow> ck w = NoFile \<or> ks w = new))"
  have new: "is_new ?v nb cp new" unfolding new_def using d wf by (rule up_is_new)
  obtain q where q: "checkConsistencyAndTryToFix U ?s0 = (q, s')" "r = wrapO ''failed to check consistency'' q"
    using assms(1) by (auto simp: New_def wrapS_def split: prod.splits)
  have "?goal q s'"
    using q(1) unfolding checkConsistencyAndTryToFix_def store_state.simps if_False
  proof (cases rule: bindS_cases)
    case (Ok latest s1)
    then obtain w1 where l: "cs_LastCheckpoint (us_checkpointsStore U) w = (Ok latest, w1)"
      and s1: "s1 = \<lparr>world = w1, isConsist = False\<rparr>" by (auto simp: on_world_iff wrapS_Ok_iff)
    note lf = Last_frame [OF l]
    show ?thesis
    proof (cases latest)
      case None
      with l have "ck w = NoFile" by (simp add: Last_None)
      with Ok(2) None s1 lf s show ?thesis by (auto simp: set_consist_def safe_def new_def)
    next
      case (Some cp')
      with l have "ck w = Saved cp'" by (simp add: Last_Some)
      with s have "cp' = cp" by (auto simp: safe_def)
      note f = Ok(2) [unfolded Some option.case s1 this]
      from fix_outcome [OF f cp d wf hash] lf s \<open>ck w = Saved cp'\<close> \<open>cp' = cp\<close>
      show ?thesis by (simp add: new_def)
    qed
  next
    case (Err e)
    then show ?thesis using s Last_frame by (auto elim!: on_world_wrap simp: new_def)
  next
    case Panic
    then show ?thesis using Last_frame by (auto elim!: on_world_wrap)
  qed
  then show ?thesis using q(2) by (cases q) auto
qed

text \<open>A start without a checkpoint file changes nothing.\<close>

lemma New_no_file:
  assumes "ck w = NoFile" and "New U w = (Ok (), s')"
  shows "ks (world s') = ks w \<and> ck (world s') = NoFile"
proof -
  have q: "checkConsistencyAndTryToFix U \<lparr>world = w, isConsist = False\<rparr> = (Ok (), s')"
    using assms(2) by (auto simp: New_def wrapS_Ok_iff)
  obtain latest w1 where l: "cs_LastCheckpoint (us_checkpointsStore U) w = (Ok latest, w1)"
    and k: "(case latest of None \<Rightarrow> set_consist True
        | Some latestCheckpoint \<Rightarrow>
            bindS (on_world (maskS (Msg ''failed to check store consistency with checkpoint'')
              (isConsistenceWithCheckpoint (base U) latestCheckpoint))) (\<lambda>ok.
            if ok
            then thenS (on_world (wrapS ''failed to remove last checkpoint''
                    (cs_RemoveLatestCheckpoint (us_checkpointsStore U))))
                  (set_consist True)
            else thenS (on_world (wrapS ''failed to downgrade to previouse state before checkpoint''
                    (downCheckpoint (base U) latestCheckpoint)))
                  (on_world (maskS (Msg ''failed to remove checkpoint'')
                    (cs_RemoveLatestCheckpoint (us_checkpointsStore U))))))
        \<lparr>world = w1, isConsist = False\<rparr> = (Ok (), s')"
    using q unfolding checkConsistencyAndTryToFix_def store_state.simps if_False
    by (rule bindS_OkE) (auto simp: on_world_iff wrapS_Ok_iff)
  have "latest = None" using Last_Some l assms(1) by (cases latest) fastforce+
  with k Last_frame [OF l] assms(1) show ?thesis by (auto simp: set_consist_def)
qed

end

section \<open>A database without a block hash\<close>

context utxo_backend
begin

lemma isConsistence_no_hash:
  assumes "m (hash_key (us_dbVer U)) = None"
  shows "obs ks ck (isConsistenceWithCheckpoint (base U) cp) m (\<lambda>_. False) (\<lambda>_. True)"
proof -
  have "obs ks ck (getBlockHash (base U)) m (\<lambda>_. False) (\<lambda>_. True)"
    unfolding getBlockHash_def base_sel
    by (rule obs_bind [OF obs_wrap [OF obs_weaken [OF Get_obs]]])
      (use assms in \<open>auto intro!: obs_fail split: option.splits\<close>)
  then show ?thesis unfolding isConsistenceWithCheckpoint_def
    by (rule obs_bind [where P = "\<lambda>_. False", OF obs_wrap]) simp_all
qed

lemma New_no_hash:
  assumes "New U w = (r, s')" and "ks w (hash_key (us_dbVer U)) = None" and "ck w \<noteq> NoFile"
  shows "(\<exists>e. r = Err e) \<and> ks (world s') = ks w \<and> ck (world s') = ck w"
proof -
  let ?s0 = "\<lparr>world = w, isConsist = False\<rparr>"
  obtain q where q: "checkConsistencyAndTryToFix U ?s0 = (q, s')" "r = wrapO ''failed to check consistency'' q"
    using assms(1) by (auto simp: New_def wrapS_def split: prod.splits)
  have "(\<exists>e. q = Err e) \<and> ks (world s') = ks w \<and> ck (world s') = ck w"
    using q(1) unfolding checkConsistencyAndTryToFix_def store_state.simps if_False
  proof (cases rule: bindS_cases)
    case (Ok latest s1)
    then obtain w1 where l: "cs_LastCheckpoint (us_checkpointsStore U) w = (Ok latest, w1)"
      and s1: "s1 = \<lparr>world = w1, isConsist = False\<rparr>" by (auto simp: on_world_iff wrapS_Ok_iff)
    note lf = Last_frame [OF l]
    obtain cp where cp: "latest = Some cp" using l assms(3) Last_None by (cases latest) auto
    note o = obsD [OF isConsistence_no_hash [where m = "ks w" and cp = cp, OF assms(2)], where w = w1]
    from Ok(2) [unfolded cp option.case] show ?thesis
    proof (cases rule: bindS_cases)
      case (Ok ok s2)
      then show ?thesis using o(4) lf s1 by (auto simp: on_world_iff maskS_Ok_iff)
    next
      case (Err e)
      from Err(1) obtain p w2 where "isConsistenceWithCheckpoint (base U) cp (world s1) = (p, w2)"
        "s' = s1\<lparr>world := w2\<rparr>" by (rule on_world_mask)
      then show ?thesis using o(1,2) lf s1 Err(2) by auto
    next
      case Panic
      from Panic(1) show ?thesis
        by (rule on_world_mask) (use o(3) lf s1 in \<open>auto split: outcome.splits\<close>)
    qed
  next
    case (Err e)
    then show ?thesis using Last_frame by (auto elim!: on_world_wrap)
  next
    case Panic
    then show ?thesis using Last_frame by (auto elim!: on_world_wrap)
  qed
  then show ?thesis using q(2) by auto
qed

end

end
