(* ===== verification/Redis_Store.thy ===== *)
theory Redis_Store
  imports Store_Interfaces
begin

text \<open>
  The providers over Redis: the key-value store (\<^verbatim>\<open>providers/rediskvstore/redis.go\<close>) and the sets
  (\<^verbatim>\<open>providers/redissets/redis.go\<close>). The client (\<open>redis.Cmdable\<close> of go-redis: the server itself or a
  pipeline) and the codec (msgpack) are parameters; what Redis documents of its commands are the
  assumptions of the locales, over the server's key space \<open>rk\<close>. The sublocales show that the
  providers keep the laws of the interfaces for the decoded view of that key space.
\<close>

section \<open>The client and the codec\<close>

record 'raw codec =
  Marshal :: "govalue \<Rightarrow> 'raw outcome"
  Unmarshal :: "gotype \<Rightarrow> 'raw \<Rightarrow> govalue outcome"

datatype 'raw mval = MNil | MStr 'raw | MOther

text \<open>\<open>r_Scan\<close> gives the keys the iterator yields and its final error.\<close>

record ('w, 'raw) cmdable =
  r_Get :: "string \<Rightarrow> ('w, 'raw) st"
  r_MGet :: "string list \<Rightarrow> ('w, 'raw mval list) st"
  r_Set :: "string \<Rightarrow> 'raw \<Rightarrow> ('w, unit) st"
  r_Del :: "string \<Rightarrow> ('w, unit) st"
  r_SAdd :: "string \<Rightarrow> string list \<Rightarrow> ('w, unit) st"
  r_SRem :: "string \<Rightarrow> string list \<Rightarrow> ('w, unit) st"
  r_SMembers :: "string \<Rightarrow> ('w, string list) st"
  r_Scan :: "string \<Rightarrow> ('w, string list \<times> go_error option) st"
  r_FlushAll :: "('w, unit) st"

section \<open>The key-value store\<close>

definition RedisStore_Delete :: "('w, 'raw) cmdable \<Rightarrow> string \<Rightarrow> ('w, unit) st" where
  "RedisStore_Delete cl key = wrapS ''delete error'' (r_Del cl key)"

definition RedisStore_Get ::
  "('w, 'raw) cmdable \<Rightarrow> 'raw codec \<Rightarrow> gotype \<Rightarrow> string \<Rightarrow> ('w, govalue option) st" where
  "RedisStore_Get cl cdc t key =
     bindS (tryS (r_Get cl key)) (\<lambda>res.
     case res of
       Inl err \<Rightarrow> if errors_is err RedisNil then retS None else failS (Wrap ''get element error'' err)
     | Inr raw \<Rightarrow>
         bindS (wrapS ''unmarshal error'' (liftO (Unmarshal cdc t raw))) (\<lambda>v. retS (Some v)))"

fun listkeys_loop :: "(string \<Rightarrow> ('w, bool) st) \<Rightarrow> string list \<Rightarrow> ('w, unit) st" where
  "listkeys_loop si [] = retS ()"
| "listkeys_loop si (key # keys) = bindS (si key) (\<lambda>stop. if stop then retS () else listkeys_loop si keys)"

definition RedisStore_getValue ::
  "('w, 'raw) cmdable \<Rightarrow> 'raw codec \<Rightarrow> string \<Rightarrow> gotype \<Rightarrow> ('w, govalue) st" where
  "RedisStore_getValue cl cdc key t =
     bindS (wrapS ''get iterator value error'' (r_Get cl key)) (\<lambda>res.
     wrapS ''unmarshal iterator value error'' (liftO (Unmarshal cdc t res)))"

definition RedisStore_ListKeys :: "('w, 'raw) cmdable \<Rightarrow> 'raw codec \<Rightarrow> string \<Rightarrow>
    (string \<Rightarrow> (gotype \<Rightarrow> ('w, govalue) st) \<Rightarrow> ('w, bool) st) option \<Rightarrow> ('w, unit) st" where
  "RedisStore_ListKeys cl cdc match si =
     bindS (r_Scan cl (if match = '''' then ''*'' else match)) (\<lambda>(keys, iterErr).
     thenS (case si of
              None \<Rightarrow> retS ()
            | Some f \<Rightarrow> listkeys_loop (\<lambda>key. f key (RedisStore_getValue cl cdc key)) keys)
       (case iterErr of None \<Rightarrow> retS () | Some err \<Rightarrow> failS (Wrap ''iterate error'' err)))"

definition RedisStore_Set :: "('w, 'raw) cmdable \<Rightarrow> 'raw codec \<Rightarrow> string \<Rightarrow> govalue \<Rightarrow> ('w, unit) st" where
  "RedisStore_Set cl cdc key v =
     bindS (wrapS ''encode error'' (liftO (Marshal cdc v))) (\<lambda>val.
     wrapS ''set error'' (r_Set cl key val))"

definition RedisStore_DeleteByPattern :: "('w, 'raw) cmdable \<Rightarrow> 'raw codec \<Rightarrow> string \<Rightarrow> ('w, unit) st" where
  "RedisStore_DeleteByPattern cl cdc pattern =
     RedisStore_ListKeys cl cdc pattern (Some (\<lambda>key getValue.
       thenS (RedisStore_Delete cl key) (retS False)))"

definition RedisStore_Flush :: "('w, 'raw) cmdable \<Rightarrow> ('w, unit) st" where
  "RedisStore_Flush cl = wrapS ''fialed to flush'' (r_FlushAll cl)"

text \<open>\<open>MGet(...).Val()\<close> is empty when the command failed; \<open>keys[i]\<close> panics past the end.\<close>

fun mulget_loop :: "'raw codec \<Rightarrow> gotype \<Rightarrow> string list \<Rightarrow> 'raw mval list \<Rightarrow>
    (string \<times> govalue option) list outcome" where
  "mulget_loop cdc t keys [] = Ok []"
| "mulget_loop cdc t [] (val # vals) = Panic"
| "mulget_loop cdc t (key # keys) (val # vals) =
     bindO (case val of
         MNil \<Rightarrow> Ok None
       | MStr raw \<Rightarrow> bindO (wrapO ''unmarshal value error'' (Unmarshal cdc t raw)) (\<lambda>v. Ok (Some v))
       | MOther \<Rightarrow> Err (Msg ''unknown value type'')) (\<lambda>v.
     bindO (mulget_loop cdc t keys vals) (\<lambda>rest. Ok ((key, v) # rest)))"

definition RedisStore_MulGet ::
  "('w, 'raw) cmdable \<Rightarrow> 'raw codec \<Rightarrow> gotype \<Rightarrow> string list \<Rightarrow> ('w, (string \<times> govalue option) list) st" where
  "RedisStore_MulGet cl cdc t keys =
     bindS (tryS (r_MGet cl keys)) (\<lambda>res.
     let values = (case res of Inl _ \<Rightarrow> [] | Inr vs \<Rightarrow> vs) in
     liftO (mulget_loop cdc t keys values))"

definition RedisStore :: "('w, 'raw) cmdable \<Rightarrow> 'raw codec \<Rightarrow> 'w kv_store" where
  "RedisStore cl cdc =
     \<lparr>kv_Get = RedisStore_Get cl cdc, kv_MulGet = RedisStore_MulGet cl cdc, kv_Set = RedisStore_Set cl cdc,
      kv_Delete = RedisStore_Delete cl, kv_DeleteByPattern = RedisStore_DeleteByPattern cl cdc\<rparr>"

text \<open>\<open>WithTx\<close>: the same store over the pipeline of the transaction.\<close>

definition RedisStore_WithTx ::
  "('tx \<Rightarrow> ('w, 'raw) cmdable) \<Rightarrow> 'raw codec \<Rightarrow> 'tx \<Rightarrow> 'w kv_store outcome" where
  "RedisStore_WithTx Transaction cdc tx = Ok (RedisStore (Transaction tx) cdc)"

section \<open>The sets\<close>

definition RedisSets_AddToSet :: "('w, 'raw) cmdable \<Rightarrow> string \<Rightarrow> string list \<Rightarrow> ('w, unit) st" where
  "RedisSets_AddToSet cl key values = wrapS ''SADD error'' (r_SAdd cl key values)"

definition RedisSets_DeleteSet :: "('w, 'raw) cmdable \<Rightarrow> string \<Rightarrow> ('w, unit) st" where
  "RedisSets_DeleteSet cl key = wrapS ''delete error'' (r_Del cl key)"

definition RedisSets_GetSet :: "('w, 'raw) cmdable \<Rightarrow> string \<Rightarrow> ('w, string list) st" where
  "RedisSets_GetSet cl key = wrapS ''SMEMBERS error'' (r_SMembers cl key)"

definition RedisSets_RemoveFromSet :: "('w, 'raw) cmdable \<Rightarrow> string \<Rightarrow> string list \<Rightarrow> ('w, unit) st" where
  "RedisSets_RemoveFromSet cl key values = wrapS ''SREM error'' (r_SRem cl key values)"

definition RedisSets :: "('w, 'raw) cmdable \<Rightarrow> 'w sets_store" where
  "RedisSets cl =
     \<lparr>set_GetSet = RedisSets_GetSet cl, set_AddToSet = RedisSets_AddToSet cl,
      set_RemoveFromSet = RedisSets_RemoveFromSet cl, set_DeleteSet = RedisSets_DeleteSet cl\<rparr>"

definition RedisSets_WithTx :: "('tx \<Rightarrow> ('w, 'raw) cmdable) \<Rightarrow> 'tx \<Rightarrow> 'w sets_store outcome" where
  "RedisSets_WithTx Transaction tx = Ok (RedisSets (Transaction tx))"

section \<open>What Redis documents\<close>

text \<open>
  The key space of the server: strings and sets (a key never holds an empty set). \<open>SADD\<close> and
  \<open>SREM\<close> on a string change nothing (they answer an error).
\<close>

datatype 'raw rval = RStr 'raw | RSet "string set"

type_synonym 'raw kspace = "string \<rightharpoonup> 'raw rval"

datatype 'raw rcmd = RCSet string 'raw | RCDel string | RCAdd string "string list" | RCRem string "string list"

definition rset_of :: "'raw kspace \<Rightarrow> string \<Rightarrow> string set option" where
  "rset_of m k = (case m k of None \<Rightarrow> Some {} | Some (RSet s) \<Rightarrow> if s = {} then None else Some s | _ \<Rightarrow> None)"

definition rset_entry :: "string set \<Rightarrow> 'raw rval option" where
  "rset_entry s = (if s = {} then None else Some (RSet s))"

fun rexec :: "'raw rcmd \<Rightarrow> 'raw kspace \<Rightarrow> 'raw kspace" where
  "rexec (RCSet k raw) m = m(k \<mapsto> RStr raw)"
| "rexec (RCDel k) m = m(k := None)"
| "rexec (RCAdd k xs) m = (case rset_of m k of None \<Rightarrow> m | Some s \<Rightarrow> m(k := rset_entry (s \<union> set xs)))"
| "rexec (RCRem k xs) m = (case rset_of m k of None \<Rightarrow> m | Some s \<Rightarrow> m(k := rset_entry (s - set xs)))"

fun rrun :: "'raw rcmd list \<Rightarrow> 'raw kspace \<Rightarrow> 'raw kspace" where
  "rrun [] m = m"
| "rrun (c # cs) m = rrun cs (rexec c m)"

definition rapplies :: "('w \<Rightarrow> 'raw kspace) \<Rightarrow> ('w \<Rightarrow> 'r) \<Rightarrow> ('w, unit) st \<Rightarrow> 'raw rcmd \<Rightarrow> bool" where
  "rapplies rk ck f c \<longleftrightarrow> (\<forall>w r w'. f w = (r, w') \<longrightarrow>
     ck w' = ck w \<and> r \<noteq> Panic \<and> (r = Ok () \<longrightarrow> rk w' = rexec c (rk w)) \<and>
     (rk w' = rk w \<or> rk w' = rexec c (rk w)))"

definition rqueues :: "('w \<Rightarrow> 'raw kspace) \<Rightarrow> ('w \<Rightarrow> 'r) \<Rightarrow> ('w \<Rightarrow> 'tx \<Rightarrow> 'raw rcmd list) \<Rightarrow> 'tx \<Rightarrow>
    ('w, unit) st \<Rightarrow> 'raw rcmd \<Rightarrow> bool" where
  "rqueues rk ck rpend tx f c \<longleftrightarrow> (\<forall>w. \<exists>w'. f w = (Ok (), w') \<and>
     rk w' = rk w \<and> ck w' = ck w \<and> rpend w' tx = rpend w tx @ [c])"

locale codec_laws =
  fixes cdc :: "'raw codec"
  assumes Marshal_total: "\<exists>raw. Marshal cdc v = Ok raw"
    and Marshal_inj: "Marshal cdc v = Ok raw \<Longrightarrow> Marshal cdc u = Ok raw \<Longrightarrow> u = v"
    and Unmarshal_Marshal: "Marshal cdc v = Ok raw \<Longrightarrow> Unmarshal cdc (gotype_of v) raw = Ok v"
    and Unmarshal_error: "Unmarshal cdc t raw = Err e \<Longrightarrow> foreign e"
    and Unmarshal_no_panic: "Unmarshal cdc t raw \<noteq> Panic"

locale redis_client = codec_laws cdc
  for cdc :: "'raw codec" +
  fixes cl :: "('w, 'raw) cmdable" and rk :: "'w \<Rightarrow> 'raw kspace" and ck :: "'w \<Rightarrow> 'r"
  assumes GET_frame: "r_Get cl k w = (r, w') \<Longrightarrow> rk w' = rk w \<and> ck w' = ck w \<and> r \<noteq> Panic"
    and GET_Ok: "r_Get cl k w = (Ok raw, w') \<Longrightarrow> rk w k = Some (RStr raw)"
    and GET_Nil: "r_Get cl k w = (Err e, w') \<Longrightarrow> errors_is e RedisNil \<Longrightarrow> rk w k = None"
    and GET_error: "r_Get cl k w = (Err e, w') \<Longrightarrow> foreign e"
    and SMEMBERS_frame: "r_SMembers cl k w = (q, w') \<Longrightarrow> rk w' = rk w \<and> ck w' = ck w \<and> q \<noteq> Panic"
    and SMEMBERS_Ok: "r_SMembers cl k w = (Ok xs, w') \<Longrightarrow>
        (rk w k = None \<and> xs = []) \<or> rk w k = Some (RSet (set xs))"
    and SET: "rapplies rk ck (r_Set cl k raw) (RCSet k raw)"
    and DEL: "rapplies rk ck (r_Del cl k) (RCDel k)"
    and SADD: "rapplies rk ck (r_SAdd cl k xs) (RCAdd k xs)"
    and SREM: "rapplies rk ck (r_SRem cl k xs) (RCRem k xs)"

text \<open>\<open>MULTI\<close>/\<open>EXEC\<close>: a pipeline queues on the client and runs as one unit.\<close>

locale redis_tx = codec_laws cdc
  for cdc :: "'raw codec" +
  fixes D :: "('w, 'tx) tx_driver" and pipe :: "'tx \<Rightarrow> ('w, 'raw) cmdable"
    and rk :: "'w \<Rightarrow> 'raw kspace" and ck :: "'w \<Rightarrow> 'r" and rpend :: "'w \<Rightarrow> 'tx \<Rightarrow> 'raw rcmd list"
  assumes BEGIN_frame: "tx_Begin D keys w = (b, w') \<Longrightarrow> rk w' = rk w \<and> ck w' = ck w \<and> b \<noteq> Panic"
    and BEGIN_empty: "tx_Begin D keys w = (Ok tx, w') \<Longrightarrow> rpend w' tx = []"
    and EXEC_frame: "tx_Commit D tx w = (r, w') \<Longrightarrow> ck w' = ck w \<and> r \<noteq> Panic"
    and EXEC_Ok: "tx_Commit D tx w = (Ok (), w') \<Longrightarrow> rk w' = rrun (rpend w tx) (rk w)"
    and EXEC_unit: "tx_Commit D tx w = (r, w') \<Longrightarrow> rk w' = rk w \<or> rk w' = rrun (rpend w tx) (rk w)"
    and DISCARD_frame: "tx_Rollback D tx w = (r, w') \<Longrightarrow> rk w' = rk w \<and> ck w' = ck w \<and> r \<noteq> Panic"
    and pipe_SET: "rqueues rk ck rpend tx (r_Set (pipe tx) k raw) (RCSet k raw)"
    and pipe_DEL: "rqueues rk ck rpend tx (r_Del (pipe tx) k) (RCDel k)"
    and pipe_SADD: "rqueues rk ck rpend tx (r_SAdd (pipe tx) k xs) (RCAdd k xs)"
    and pipe_SREM: "rqueues rk ck rpend tx (r_SRem (pipe tx) k xs) (RCRem k xs)"

section \<open>The decoded view\<close>

definition decoded :: "'raw codec \<Rightarrow> 'raw \<Rightarrow> entry" where
  "decoded cdc raw = (if \<exists>v. Marshal cdc v = Ok raw then Val (SOME v. Marshal cdc v = Ok raw) else Opaque)"

fun view_entry :: "'raw codec \<Rightarrow> 'raw rval \<Rightarrow> entry" where
  "view_entry cdc (RStr raw) = decoded cdc raw"
| "view_entry cdc (RSet s) = Members s"

definition view :: "'raw codec \<Rightarrow> 'raw kspace \<Rightarrow> kstate" where
  "view cdc m = (\<lambda>k. map_option (view_entry cdc) (m k))"

fun view_cmd :: "'raw codec \<Rightarrow> 'raw rcmd \<Rightarrow> kcmd" where
  "view_cmd cdc (RCSet k raw) = KPut k (decoded cdc raw)"
| "view_cmd cdc (RCDel k) = KDel k"
| "view_cmd cdc (RCAdd k xs) = KAdd k xs"
| "view_cmd cdc (RCRem k xs) = KRem k xs"

lemma view_upd: "view cdc (m(k := e)) = (view cdc m)(k := map_option (view_entry cdc) e)"
  by (simp add: view_def fun_eq_iff)

lemma view_rset_entry: "map_option (view_entry cdc) (rset_entry s) = set_entry s"
  by (simp add: rset_entry_def set_entry_def)

lemma rset_of_view:
  "rset_of m k = (if holds_set (view cdc m) k then Some (members (view cdc m) k) else None)"
  by (auto simp: rset_of_def holds_set_def members_def view_def decoded_def split: option.splits rval.splits)

lemma view_rexec: "view cdc (rexec c m) = exec (view_cmd cdc c) (view cdc m)"
  by (cases c) (auto simp: view_upd view_rset_entry rset_of_view [of _ _ cdc])

lemma view_rrun: "view cdc (rrun cs m) = run (List.map (view_cmd cdc) cs) (view cdc m)"
  by (induction cs arbitrary: m) (simp_all add: view_rexec)

lemma view_applies:
  assumes "rapplies rk ck f c"
  shows "applies (\<lambda>w. view cdc (rk w)) ck f (view_cmd cdc c)"
  using assms unfolding rapplies_def applies_def by (metis view_rexec)

lemma view_queues:
  assumes "rqueues rk ck rpend tx f c"
  shows "queues (\<lambda>w. view cdc (rk w)) ck (\<lambda>w tx. List.map (view_cmd cdc) (rpend w tx)) tx f [view_cmd cdc c]"
  using assms unfolding rqueues_def queues_def by fastforce

context codec_laws
begin

lemma decoded_Marshal: "Marshal cdc v = Ok raw \<Longrightarrow> decoded cdc raw = Val v"
  unfolding decoded_def using Marshal_inj by (metis (mono_tags, lifting) someI)

lemma decoded_Val: "decoded cdc raw = Val u \<Longrightarrow> Marshal cdc u = Ok raw"
  unfolding decoded_def by (auto split: if_splits intro: someI)

lemma Set_obtain:
  obtains raw where "RedisStore_Set cl cdc k v = wrapS ''set error'' (r_Set cl k raw)" "decoded cdc raw = Val v"
  using Marshal_total [of v] decoded_Marshal by (auto simp: RedisStore_Set_def go_simps)

end

section \<open>The providers keep the laws\<close>

context redis_client
begin

lemma RedisStore_Get_outcome:
  assumes g: "kv_Get (RedisStore cl cdc) t k w = (r, w')"
  shows "rk w' = rk w \<and> ck w' = ck w \<and> r \<noteq> Panic \<and> (r = Ok None \<longrightarrow> rk w k = None) \<and>
    (\<forall>x. r = Ok (Some x) \<longrightarrow> (\<exists>raw. rk w k = Some (RStr raw) \<and> Unmarshal cdc t raw = Ok x)) \<and>
    (\<forall>e. r = Err e \<longrightarrow> foreign e)"
proof -
  from g have g': "bindS (tryS (r_Get cl k)) (\<lambda>res. case res of
       Inl err \<Rightarrow> if errors_is err RedisNil then retS None else failS (Wrap ''get element error'' err)
     | Inr raw \<Rightarrow> bindS (wrapS ''unmarshal error'' (liftO (Unmarshal cdc t raw))) (\<lambda>v. retS (Some v))) w = (r, w')"
    by (simp add: RedisStore_def RedisStore_Get_def)
  obtain q v where q: "r_Get cl k w = (q, v)" by fastforce
  show ?thesis
  proof (cases q)
    case (Ok raw)
    then show ?thesis
      using g' q GET_frame [OF q] GET_Ok Unmarshal_error [of t raw] Unmarshal_no_panic [of t raw]
      by (cases "Unmarshal cdc t raw")
        (auto simp: bindS_def tryS_def wrapS_def liftO_def retS_def foreign_def)
  next
    case (Err e)
    then show ?thesis
      using g' q GET_frame [OF q] GET_Nil GET_error
      by (auto simp: bindS_def tryS_def retS_def failS_def foreign_def split: if_splits)
  next
    case Panic
    then show ?thesis using GET_frame [OF q] by simp
  qed
qed

lemma RedisStore_Set_applies:
  "applies (\<lambda>w. view cdc (rk w)) ck (kv_Set (RedisStore cl cdc) k v) (KSet k v)"
proof -
  obtain raw where "RedisStore_Set cl cdc k v = wrapS ''set error'' (r_Set cl k raw)" "decoded cdc raw = Val v"
    by (rule Set_obtain)
  then show ?thesis using view_applies [OF SET [of k raw], of cdc]
    by (simp add: RedisStore_def applies_wrap)
qed

lemma RedisSets_Get_outcome:
  assumes "set_GetSet (RedisSets cl) k w = (q, w')"
  shows "rk w' = rk w \<and> ck w' = ck w \<and> q \<noteq> Panic \<and>
    (\<forall>xs. q = Ok xs \<longrightarrow> (rk w k = None \<and> xs = []) \<or> rk w k = Some (RSet (set xs)))"
proof -
  obtain p where p: "r_SMembers cl k w = (p, w')" "q = wrapO ''SMEMBERS error'' p"
    using assms by (auto simp: RedisSets_def RedisSets_GetSet_def wrapS_def split: prod.splits)
  then show ?thesis using SMEMBERS_frame [OF p(1)] SMEMBERS_Ok [of k w _ w'] by auto
qed

end

sublocale redis_client \<subseteq> kv: kv_laws "RedisStore cl cdc" "\<lambda>w. view cdc (rk w)" ck
proof (unfold_locales, goal_cases)
  case (4 t k w v w' u)
  then show ?case by (auto simp: view_def dest!: RedisStore_Get_outcome decoded_Val Unmarshal_Marshal)
next
  case (6 k v)
  show ?case by (rule RedisStore_Set_applies)
next
  case (7 k)
  show ?case using view_applies [OF DEL] by (simp add: RedisStore_def RedisStore_Delete_def applies_wrap)
qed (auto simp: view_def dest!: RedisStore_Get_outcome)

sublocale redis_client \<subseteq> sets: sets_laws "RedisSets cl" "\<lambda>w. view cdc (rk w)" ck
proof (unfold_locales, goal_cases)
  case (3 k xs)
  show ?case using view_applies [OF SADD, of cdc] by (simp add: RedisSets_def RedisSets_AddToSet_def applies_wrap)
next
  case (4 k xs)
  show ?case using view_applies [OF SREM, of cdc] by (simp add: RedisSets_def RedisSets_RemoveFromSet_def applies_wrap)
qed (auto simp: view_def members_def dest!: RedisSets_Get_outcome)

context redis_client
begin

lemma Set_Get:
  assumes "kv_Set (RedisStore cl cdc) k v w = (Ok (), w1)"
    and "kv_Get (RedisStore cl cdc) (gotype_of v) k w1 = (Ok res, w2)"
  shows "res = Some v \<and> rk w2 = rk w1 \<and> (\<forall>l. l \<noteq> k \<longrightarrow> view cdc (rk w2) l = view cdc (rk w) l)"
proof -
  have s: "view cdc (rk w1) = exec (KSet k v) (view cdc (rk w))"
    by (rule appliesD(3) [OF kv.Set assms(1) refl])
  then have "view cdc (rk w1) k = Some (Val v)" by simp
  then have "res = Some v"
    using kv.Get_None kv.Get_value assms(2) by (cases res) auto
  moreover have "rk w2 = rk w1" using RedisStore_Get_outcome [OF assms(2)] by simp
  ultimately show ?thesis using s by simp
qed

text \<open>A failed \<open>MGET\<close> is reported as an empty answer.\<close>

lemma MulGet_failed: "r_MGet cl keys w = (Err e, w') \<Longrightarrow> kv_MulGet (RedisStore cl cdc) t keys w = (Ok [], w')"
  by (simp add: RedisStore_def RedisStore_MulGet_def bindS_def tryS_def liftO_def)

end

context redis_tx
begin

lemma pipe_Set_queues:
  "queues (\<lambda>w. view cdc (rk w)) ck (\<lambda>w tx. List.map (view_cmd cdc) (rpend w tx)) tx
     (kv_Set (RedisStore (pipe tx) cdc) k v) [KSet k v]"
proof -
  obtain raw where "RedisStore_Set (pipe tx) cdc k v = wrapS ''set error'' (r_Set (pipe tx) k raw)"
    "decoded cdc raw = Val v" by (rule Set_obtain)
  then show ?thesis using view_queues [OF pipe_SET [of tx k raw], of cdc]
    by (simp add: RedisStore_def queues_wrap)
qed

end

sublocale redis_tx \<subseteq> tx: tx_laws D "RedisStore_WithTx pipe cdc" "RedisSets_WithTx pipe"
  "\<lambda>w. view cdc (rk w)" ck "\<lambda>w tx. List.map (view_cmd cdc) (rpend w tx)"
proof (unfold_locales, goal_cases)
  case (9 tx s k v)
  then show ?case using pipe_Set_queues [of tx k v] by (simp add: RedisStore_WithTx_def)
next
  case (10 tx s k)
  then show ?case using view_queues [OF pipe_DEL [of tx k], of cdc]
    by (auto simp: RedisStore_WithTx_def RedisStore_def RedisStore_Delete_def queues_wrap)
next
  case (11 tx z k xs)
  then show ?case using view_queues [OF pipe_SADD [of tx k xs], of cdc]
    by (auto simp: RedisSets_WithTx_def RedisSets_def RedisSets_AddToSet_def queues_wrap)
next
  case (12 tx z k xs)
  then show ?case using view_queues [OF pipe_SREM [of tx k xs], of cdc]
    by (auto simp: RedisSets_WithTx_def RedisSets_def RedisSets_RemoveFromSet_def queues_wrap)
qed (auto simp: RedisStore_WithTx_def RedisSets_WithTx_def view_rrun [symmetric]
  dest: BEGIN_frame BEGIN_empty EXEC_frame EXEC_Ok EXEC_unit DISCARD_frame)

end
