(* ===== verification/Checkpoint_Store.thy ===== *)
theory Checkpoint_Store
  imports Store_Interfaces
begin

text \<open>
  The checkpoint file (\<^verbatim>\<open>internal/pkg/utxo/checkpointstore/checkpointsstore.go\<close>): one checkpoint,
  encoded, in one file. The file operations of \<^verbatim>\<open>os\<close> on that path and the codec are parameters; the
  locale \<open>os_files\<close> states what they promise over the content of the file.
\<close>

record ('w, 'raw) file_ops =
  os_ReadFile :: "('w, 'raw) st"
  os_WriteFile :: "'raw \<Rightarrow> ('w, unit) st"
  os_Remove :: "('w, unit) st"

record 'raw checkpoint_codec =
  cp_Marshal :: "checkpoint \<Rightarrow> 'raw outcome"
  cp_Unmarshal :: "'raw \<Rightarrow> checkpoint outcome"

definition os_IsNotExist :: "go_error \<Rightarrow> bool" where
  "os_IsNotExist err \<longleftrightarrow> errors_is err FileNotExist"

definition LastCheckpoint :: "('w, 'raw) file_ops \<Rightarrow> 'raw checkpoint_codec \<Rightarrow> ('w, checkpoint option) st" where
  "LastCheckpoint os mp =
     bindS (tryS (os_ReadFile os)) (\<lambda>res.
     case res of
       Inl err \<Rightarrow>
         if os_IsNotExist err then retS None else failS (Wrap ''failed to read checkpoint file'' err)
     | Inr checkpointData \<Rightarrow>
         bindS (wrapS ''failed to decode checkpoint data'' (liftO (cp_Unmarshal mp checkpointData)))
           (\<lambda>checkPoint. retS (Some checkPoint)))"

definition SaveCheckpoint :: "('w, 'raw) file_ops \<Rightarrow> 'raw checkpoint_codec \<Rightarrow> checkpoint \<Rightarrow> ('w, unit) st" where
  "SaveCheckpoint os mp cp =
     bindS (wrapS ''failed to encode checkpoint data'' (liftO (cp_Marshal mp cp))) (\<lambda>checkPointBytes.
     wrapS ''failed to save checkpoint data'' (os_WriteFile os checkPointBytes))"

definition RemoveLatestCheckpoint :: "('w, 'raw) file_ops \<Rightarrow> ('w, unit) st" where
  "RemoveLatestCheckpoint os =
     bindS (tryS (os_Remove os)) (\<lambda>res.
     case res of
       Inl err \<Rightarrow> if \<not> os_IsNotExist err then failS (Wrap ''failed to remove checkpoint file'' err) else retS ()
     | Inr _ \<Rightarrow> retS ())"

definition CheckpointStore :: "('w, 'raw) file_ops \<Rightarrow> 'raw checkpoint_codec \<Rightarrow> 'w checkpoint_store" where
  "CheckpointStore os mp =
     \<lparr>cs_LastCheckpoint = LastCheckpoint os mp, cs_SaveCheckpoint = SaveCheckpoint os mp,
      cs_RemoveLatestCheckpoint = RemoveLatestCheckpoint os\<rparr>"

definition file_view :: "'raw checkpoint_codec \<Rightarrow> 'raw option \<Rightarrow> ckpt_file" where
  "file_view mp f = (case f of
     None \<Rightarrow> NoFile
   | Some raw \<Rightarrow> (case cp_Unmarshal mp raw of Ok cp \<Rightarrow> Saved cp | _ \<Rightarrow> Torn))"

text \<open>An interrupted write leaves the old file, the whole new one, or a file that does not decode.\<close>

locale os_files =
  fixes os :: "('w, 'raw) file_ops" and mp :: "'raw checkpoint_codec"
    and fc :: "'w \<Rightarrow> 'raw option" and ks :: "'w \<Rightarrow> kstate"
  assumes mp_Marshal_no_panic: "cp_Marshal mp cp \<noteq> Panic"
    and mp_Unmarshal_no_panic: "cp_Unmarshal mp raw \<noteq> Panic"
    and mp_roundtrip: "cp_Marshal mp cp = Ok raw \<Longrightarrow> cp_Unmarshal mp raw = Ok cp"
    and Read_frame: "os_ReadFile os w = (q, w') \<Longrightarrow> fc w' = fc w \<and> ks w' = ks w \<and> q \<noteq> Panic"
    and Read_Ok: "os_ReadFile os w = (Ok raw, w') \<Longrightarrow> fc w = Some raw"
    and Read_NotExist: "os_ReadFile os w = (Err e, w') \<Longrightarrow> errors_is e FileNotExist \<Longrightarrow> fc w = None"
    and Write_frame: "os_WriteFile os raw w = (r, w') \<Longrightarrow> ks w' = ks w \<and> r \<noteq> Panic"
    and Write_Ok: "os_WriteFile os raw w = (Ok (), w') \<Longrightarrow> fc w' = Some raw"
    and Write_Err: "os_WriteFile os raw w = (Err e, w') \<Longrightarrow>
        fc w' = fc w \<or> fc w' = Some raw \<or> (\<exists>t. fc w' = Some t \<and> (\<forall>cp. cp_Unmarshal mp t \<noteq> Ok cp))"
    and Remove_frame: "os_Remove os w = (r, w') \<Longrightarrow> ks w' = ks w \<and> r \<noteq> Panic"
    and Remove_Ok: "os_Remove os w = (Ok (), w') \<Longrightarrow> fc w' = None"
    and Remove_NotExist: "os_Remove os w = (Err e, w') \<Longrightarrow> errors_is e FileNotExist \<Longrightarrow> fc w' = None"
    and Remove_Err: "os_Remove os w = (Err e, w') \<Longrightarrow> fc w' = fc w \<or> fc w' = None"

context os_files
begin

lemma Last_outcome:
  assumes "cs_LastCheckpoint (CheckpointStore os mp) w = (l, w')"
  shows "ks w' = ks w \<and> fc w' = fc w \<and> l \<noteq> Panic \<and> (l = Ok None \<longrightarrow> fc w = None) \<and>
    (\<forall>cp. l = Ok (Some cp) \<longrightarrow> (\<exists>raw. fc w = Some raw \<and> cp_Unmarshal mp raw = Ok cp))"
proof -
  from assms have a: "bindS (tryS (os_ReadFile os)) (\<lambda>res. case res of
       Inl err \<Rightarrow> if os_IsNotExist err then retS None else failS (Wrap ''failed to read checkpoint file'' err)
     | Inr checkpointData \<Rightarrow>
         bindS (wrapS ''failed to decode checkpoint data'' (liftO (cp_Unmarshal mp checkpointData)))
           (\<lambda>checkPoint. retS (Some checkPoint))) w = (l, w')"
    by (simp add: CheckpointStore_def LastCheckpoint_def)
  obtain q v where q: "os_ReadFile os w = (q, v)" by fastforce
  show ?thesis
  proof (cases q)
    case (Ok raw)
    then show ?thesis
      using a q Read_frame [OF q] Read_Ok mp_Unmarshal_no_panic [of raw]
      by (cases "cp_Unmarshal mp raw") (auto simp: bindS_def tryS_def wrapS_def liftO_def retS_def)
  next
    case (Err e)
    then show ?thesis
      using a q Read_frame [OF q] Read_NotExist
      by (auto simp: bindS_def tryS_def retS_def failS_def os_IsNotExist_def split: if_splits)
  qed (use Read_frame [OF q] in simp)
qed

lemma Save_outcome:
  assumes "cs_SaveCheckpoint (CheckpointStore os mp) cp w = (r, w')"
  shows "ks w' = ks w \<and> r \<noteq> Panic \<and> (r = Ok () \<longrightarrow> file_view mp (fc w') = Saved cp) \<and>
    file_view mp (fc w') \<in> {file_view mp (fc w), Saved cp, Torn}"
proof (cases "cp_Marshal mp cp")
  case (Ok raw)
  with assms have "wrapS ''failed to save checkpoint data'' (os_WriteFile os raw) w = (r, w')"
    by (simp add: CheckpointStore_def SaveCheckpoint_def liftO_simps wrapS_retS bindS_retS)
  then obtain q where q: "os_WriteFile os raw w = (q, w')" "r = wrapO ''failed to save checkpoint data'' q"
    by (auto simp: wrapS_def split: prod.splits)
  have s: "file_view mp (Some raw) = Saved cp" using mp_roundtrip [OF Ok] by (simp add: file_view_def)
  have t: "\<forall>cp. cp_Unmarshal mp t \<noteq> Ok cp \<Longrightarrow> file_view mp (Some t) = Torn" for t
    by (auto simp: file_view_def split: outcome.split)
  show ?thesis
  proof (cases q)
    case (Err e)
    then show ?thesis using q Write_frame [OF q(1)] Write_Err [of raw w e w'] s t by auto
  qed (use q s Write_frame [OF q(1)] Write_Ok in auto)
next
  case (Err e)
  with assms show ?thesis
    by (auto simp: CheckpointStore_def SaveCheckpoint_def bindS_def wrapS_def liftO_def)
qed (simp add: mp_Marshal_no_panic)

lemma Remove_outcome:
  assumes "cs_RemoveLatestCheckpoint (CheckpointStore os mp) w = (r, w')"
  shows "ks w' = ks w \<and> r \<noteq> Panic \<and> (r = Ok () \<longrightarrow> fc w' = None) \<and> (fc w' = fc w \<or> fc w' = None)"
proof -
  obtain q v where q: "os_Remove os w = (q, v)" by fastforce
  show ?thesis
  proof (cases q)
    case (Err e)
    then show ?thesis
      using assms q Remove_frame [OF q] Remove_NotExist [of w e v] Remove_Err [of w e v]
      by (auto simp: CheckpointStore_def RemoveLatestCheckpoint_def bindS_def tryS_def retS_def failS_def
          os_IsNotExist_def split: if_splits)
  qed (use assms q Remove_frame [OF q] Remove_Ok in \<open>auto simp: CheckpointStore_def
      RemoveLatestCheckpoint_def bindS_def tryS_def retS_def\<close>)
qed

end

sublocale os_files \<subseteq> cps: checkpoint_laws "CheckpointStore os mp" ks "\<lambda>w. file_view mp (fc w)"
proof (unfold_locales, goal_cases)
  case (3 w cp w')
  then show ?case using Last_outcome [OF 3] by (auto simp: file_view_def)
qed (auto simp: file_view_def dest: Last_outcome Save_outcome Remove_outcome)

end
