(* ===== verification/Deployment.thy ===== *)
theory Deployment
  imports Utxo_Recovery Redis_Store Checkpoint_Store
begin

text \<open>
  The store as the program wires it (\<open>di.go\<close>): the key-value store and the sets over one
  Redis client, transactions over its pipelines, the checkpoint in a file. The locale \<open>deployment\<close>
  joins what Redis and the file system document; its sublocale gives the laws the store was verified
  against. A small executable server with injectable faults instantiates all of it for the examples.
\<close>

definition redis_utxo_store :: "('w, 'raw) cmdable \<Rightarrow> 'raw codec \<Rightarrow> ('tx \<Rightarrow> ('w, 'raw) cmdable) \<Rightarrow>
    ('w, 'tx) tx_driver \<Rightarrow> ('w, 'f) file_ops \<Rightarrow> 'f checkpoint_codec \<Rightarrow> string \<Rightarrow> ('w, 'tx) utxo_store" where
  "redis_utxo_store cl cdc Transaction D os mp ver =
     \<lparr>us_s = \<lparr>kv_base = RedisStore cl cdc, kv_WithTx = RedisStore_WithTx Transaction cdc\<rparr>,
      us_sets = \<lparr>sets_base = RedisSets cl, sets_WithTx = RedisSets_WithTx Transaction\<rparr>,
      us_txManager = Some D, us_checkpointsStore = CheckpointStore os mp, us_dbVer = ver\<rparr>"

locale deployment =
  redis_client cdc cl rk "\<lambda>w. file_view mp (fc w)" + redis_tx cdc D pipe rk "\<lambda>w. file_view mp (fc w)" rpend +
  os_files os mp fc "\<lambda>w. view cdc (rk w)"
  for cdc :: "'raw codec" and cl :: "('w, 'raw) cmdable" and rk :: "'w \<Rightarrow> 'raw kspace"
    and D :: "('w, 'tx) tx_driver" and pipe :: "'tx \<Rightarrow> ('w, 'raw) cmdable" and rpend :: "'w \<Rightarrow> 'tx \<Rightarrow> 'raw rcmd list"
    and os :: "('w, 'f) file_ops" and mp :: "'f checkpoint_codec" and fc :: "'w \<Rightarrow> 'f option"

sublocale deployment \<subseteq> backend: utxo_backend "redis_utxo_store cl cdc pipe D os mp ver" D
  "\<lambda>w. view cdc (rk w)" "\<lambda>w. file_view mp (fc w)" "\<lambda>w tx. List.map (view_cmd cdc) (rpend w tx)"
  for ver
  unfolding utxo_backend_def utxo_backend_axioms_def redis_utxo_store_def utxo_store.simps
    kv_with_tx.simps sets_with_tx.simps
  using kv.kv_laws_axioms sets.sets_laws_axioms tx.tx_laws_axioms cps.checkpoint_laws_axioms by simp

section \<open>An executable server\<close>

text \<open>
  Keys in an association list, one pipeline, one file, and a list of faults: each call to the server
  or the file system takes the next fault; a true one makes the call fail without effect.
\<close>

record sim =
  sim_keys :: "(string \<times> (govalue + string list)) list"
  sim_queue :: "govalue rcmd list"
  sim_file :: "checkpoint option"
  sim_faults :: "bool list"

definition sim_op :: "(sim, 'a) st \<Rightarrow> (sim, 'a) st" where
  "sim_op f = (\<lambda>w. case sim_faults w of
       [] \<Rightarrow> f w
     | b # bs \<Rightarrow> if b then (Err (Foreign ''connection lost''), w\<lparr>sim_faults := bs\<rparr>) else f (w\<lparr>sim_faults := bs\<rparr>))"

definition sim_members :: "(string \<times> (govalue + string list)) list \<Rightarrow> string \<Rightarrow> string list option" where
  "sim_members m k = (case map_of m k of
     None \<Rightarrow> Some [] | Some (Inr xs) \<Rightarrow> if xs = [] then None else Some xs | Some (Inl _) \<Rightarrow> None)"

definition sim_put_set :: "string \<Rightarrow> string list \<Rightarrow> (string \<times> (govalue + string list)) list \<Rightarrow>
    (string \<times> (govalue + string list)) list" where
  "sim_put_set k xs m = (if xs = [] then AList.delete k m else AList.update k (Inr xs) m)"

fun sim_exec :: "govalue rcmd \<Rightarrow> (string \<times> (govalue + string list)) list \<Rightarrow> (string \<times> (govalue + string list)) list" where
  "sim_exec (RCSet k raw) m = AList.update k (Inl raw) m"
| "sim_exec (RCDel k) m = AList.delete k m"
| "sim_exec (RCAdd k xs) m = (case sim_members m k of None \<Rightarrow> m
     | Some ys \<Rightarrow> sim_put_set k (ys @ filter (\<lambda>x. x \<notin> set ys) (remdups xs)) m)"
| "sim_exec (RCRem k xs) m = (case sim_members m k of None \<Rightarrow> m
     | Some ys \<Rightarrow> sim_put_set k (filter (\<lambda>x. x \<notin> set xs) ys) m)"

definition sim_write :: "govalue rcmd \<Rightarrow> (sim, unit) st" where
  "sim_write c = sim_op (\<lambda>w. (Ok (), w\<lparr>sim_keys := sim_exec c (sim_keys w)\<rparr>))"

definition sim_client :: "(sim, govalue) cmdable" where
  "sim_client =
     \<lparr>r_Get = (\<lambda>k. sim_op (\<lambda>w. (case map_of (sim_keys w) k of
         None \<Rightarrow> Err RedisNil | Some (Inl raw) \<Rightarrow> Ok raw | Some (Inr _) \<Rightarrow> Err (Foreign ''WRONGTYPE''), w))),
      r_MGet = (\<lambda>keys. sim_op (\<lambda>w. (Ok (List.map (\<lambda>k. case map_of (sim_keys w) k of
         Some (Inl raw) \<Rightarrow> MStr raw | _ \<Rightarrow> MNil) keys), w))),
      r_Set = (\<lambda>k raw. sim_write (RCSet k raw)), r_Del = (\<lambda>k. sim_write (RCDel k)),
      r_SAdd = (\<lambda>k xs. sim_write (RCAdd k xs)), r_SRem = (\<lambda>k xs. sim_write (RCRem k xs)),
      r_SMembers = (\<lambda>k. sim_op (\<lambda>w. (case map_of (sim_keys w) k of
         None \<Rightarrow> Ok [] | Some (Inr xs) \<Rightarrow> Ok (remdups xs) | Some (Inl _) \<Rightarrow> Err (Foreign ''WRONGTYPE''), w))),
      r_Scan = (\<lambda>match. sim_op (\<lambda>w. (Ok (filter (\<lambda>k. HasPrefix k (butlast match)) (List.map fst (sim_keys w)), None), w))),
      r_FlushAll = sim_op (\<lambda>w. (Ok (), w\<lparr>sim_keys := []\<rparr>))\<rparr>"

definition sim_queue_cmd :: "govalue rcmd \<Rightarrow> (sim, unit) st" where
  "sim_queue_cmd c = (\<lambda>w. (Ok (), w\<lparr>sim_queue := sim_queue w @ [c]\<rparr>))"

definition sim_pipe :: "unit \<Rightarrow> (sim, govalue) cmdable" where
  "sim_pipe tx = sim_client
     \<lparr>r_Set := (\<lambda>k raw. sim_queue_cmd (RCSet k raw)), r_Del := (\<lambda>k. sim_queue_cmd (RCDel k)),
      r_SAdd := (\<lambda>k xs. sim_queue_cmd (RCAdd k xs)), r_SRem := (\<lambda>k xs. sim_queue_cmd (RCRem k xs))\<rparr>"

definition sim_driver :: "(sim, unit) tx_driver" where
  "sim_driver =
     \<lparr>tx_Begin = (\<lambda>keys. sim_op (\<lambda>w. (Ok (), w\<lparr>sim_queue := []\<rparr>))),
      tx_Commit = (\<lambda>tx. sim_op (\<lambda>w. (Ok (), w\<lparr>sim_keys := foldl (\<lambda>m c. sim_exec c m) (sim_keys w) (sim_queue w)\<rparr>))),
      tx_Rollback = (\<lambda>tx. sim_op (\<lambda>w. (Ok (), w\<lparr>sim_queue := []\<rparr>)))\<rparr>"

definition sim_os :: "(sim, checkpoint) file_ops" where
  "sim_os =
     \<lparr>os_ReadFile = sim_op (\<lambda>w. (case sim_file w of None \<Rightarrow> Err FileNotExist | Some cp \<Rightarrow> Ok cp, w)),
      os_WriteFile = (\<lambda>cp. sim_op (\<lambda>w. (Ok (), w\<lparr>sim_file := Some cp\<rparr>))),
      os_Remove = sim_op (\<lambda>w. (if sim_file w = None then Err FileNotExist else Ok (), w\<lparr>sim_file := None\<rparr>))\<rparr>"

definition sim_codec :: "govalue codec" where
  "sim_codec = \<lparr>Marshal = Ok, Unmarshal = (\<lambda>t v. if t = TAny \<or> gotype_of v = t then Ok v
     else Err (Foreign ''msgpack: invalid code''))\<rparr>"

definition sim_mp :: "checkpoint checkpoint_codec" where
  "sim_mp = \<lparr>cp_Marshal = Ok, cp_Unmarshal = Ok\<rparr>"

definition sim_store :: "string \<Rightarrow> (sim, unit) utxo_store" where
  "sim_store ver = redis_utxo_store sim_client sim_codec sim_pipe sim_driver sim_os sim_mp ver"

definition sim_space :: "(string \<times> (govalue + string list)) list \<Rightarrow> govalue kspace" where
  "sim_space m = (\<lambda>k. map_option (\<lambda>e. case e of Inl raw \<Rightarrow> RStr raw | Inr xs \<Rightarrow> RSet (set xs)) (map_of m k))"

lemma sim_members_space: "rset_of (sim_space m) k = map_option set (sim_members m k)"
  by (auto simp: rset_of_def sim_space_def sim_members_def split: option.splits sum.splits)

lemma sim_space_upd [simp]:
  "sim_space (AList.update k (Inl raw) m) = (sim_space m)(k \<mapsto> RStr raw)"
  "sim_space (AList.update k (Inr xs) m) = (sim_space m)(k \<mapsto> RSet (set xs))"
  "sim_space (AList.delete k m) = (sim_space m)(k := None)"
  by (auto simp: sim_space_def fun_eq_iff delete_conv')

lemma sim_put_set_space: "sim_space (sim_put_set k xs m) = (sim_space m)(k := rset_entry (set xs))"
  by (simp add: sim_put_set_def rset_entry_def)

lemma set_new_elems: "set (ys @ filter (\<lambda>x. x \<notin> set ys) (remdups xs)) = set ys \<union> set xs"
  and set_old_elems: "set (filter (\<lambda>x. x \<notin> set xs) ys) = set ys - set xs"
  by auto

lemma sim_exec_space: "sim_space (sim_exec c m) = rexec c (sim_space m)"
  by (cases c)
    (simp_all only: sim_exec.simps rexec.simps sim_members_space sim_space_upd option.map
      sim_put_set_space set_new_elems set_old_elems split: option.split, auto simp: sim_put_set_space)

lemma sim_run_space: "sim_space (foldl (\<lambda>m c. sim_exec c m) m cs) = rrun cs (sim_space m)"
  by (induction cs arbitrary: m) (simp_all add: sim_exec_space)

lemma sim_op_cases:
  assumes "sim_op f w = (r, w')"
  obtains bs where "f (w\<lparr>sim_faults := bs\<rparr>) = (r, w')"
    | bs where "r = Err (Foreign ''connection lost'')" "w' = w\<lparr>sim_faults := bs\<rparr>"
proof (cases "sim_faults w")
  case Nil
  have "w\<lparr>sim_faults := []\<rparr> = w" using Nil by simp
  with Nil assms that(1) [of "[]"] show thesis by (simp add: sim_op_def)
next
  case (Cons b bs)
  with assms that show thesis by (cases b) (auto simp: sim_op_def)
qed

lemma sim_write_rapplies: "rapplies (\<lambda>w. sim_space (sim_keys w)) (\<lambda>w. file_view sim_mp (sim_file w)) (sim_write c) c"
  unfolding rapplies_def sim_write_def by (auto elim!: sim_op_cases simp: sim_exec_space)

lemma sim_queue_rqueues: "rqueues (\<lambda>w. sim_space (sim_keys w)) (\<lambda>w. file_view sim_mp (sim_file w))
    (\<lambda>w tx. sim_queue w) tx (sim_queue_cmd c) c"
  by (simp add: rqueues_def sim_queue_cmd_def)

interpretation sim_codec: codec_laws sim_codec
  by unfold_locales (auto simp: sim_codec_def foreign_def split: if_splits)

lemma sim_space_lookup: "sim_space m k = (case map_of m k of None \<Rightarrow> None
    | Some (Inl raw) \<Rightarrow> Some (RStr raw) | Some (Inr xs) \<Rightarrow> Some (RSet (set xs)))"
  by (simp add: sim_space_def split: option.split sum.split)

lemma sim_mp_sel [simp]: "cp_Marshal sim_mp = Ok" "cp_Unmarshal sim_mp = Ok"
  by (simp_all add: sim_mp_def)

interpretation sim: deployment sim_codec sim_client "\<lambda>w. sim_space (sim_keys w)" sim_driver sim_pipe
  "\<lambda>w tx. sim_queue w" sim_os sim_mp sim_file
  by unfold_locales (auto simp: sim_client_def sim_pipe_def sim_driver_def sim_os_def foreign_def
    sim_space_lookup sim_write_rapplies sim_queue_rqueues sim_run_space
    elim!: sim_op_cases split: option.splits sum.splits if_splits)

end
