(* ===== verification/Store_Properties.thy ===== *)
theory Store_Properties
  imports Deployment
begin

text \<open>
  The properties of the checkpoint protocol, over any backend that keeps the laws of the interfaces
  (\<open>utxo_backend\<close>; the Redis deployment is one, by its sublocale), with examples on the executable
  server.
\<close>

lemmas sim_backend = sim.backend.utxo_backend_axioms [of ver, folded sim_store_def] for ver

abbreviation sim_ks :: "sim \<Rightarrow> kstate" where "sim_ks w \<equiv> view sim_codec (sim_space (sim_keys w))"
abbreviation sim_ck :: "sim \<Rightarrow> ckpt_file" where "sim_ck w \<equiv> file_view sim_mp (sim_file w)"

section \<open>Committing\<close>

text \<open>
  C20: \<open>CommitCheckpoint\<close> of a consistent store is atomic: whatever fails on the way, the key space
  is the one before or the one with every command of the checkpoint executed. Success means the
  latter with the checkpoint file gone; when the store ends up marked inconsistent, the checkpoint
  is on disk, so a restart can repair it.
\<close>

theorem CommitCheckpoint_atomic:
  assumes "utxo_backend U D ks ck pend" and "isConsist s" and "NewBlock cp = Some nb"
    and "CommitCheckpoint U cp s = (r, s')"
  shows "r \<noteq> Panic \<and>
    (ks (world s') = ks (world s) \<or> ks (world s') = run (up_cmds (us_dbVer U) nb cp) (ks (world s))) \<and>
    (r = Ok () \<longrightarrow> ks (world s') = run (up_cmds (us_dbVer U) nb cp) (ks (world s)) \<and>
       ck (world s') = NoFile \<and> isConsist s') \<and>
    (ks (world s') \<noteq> ks (world s) \<longrightarrow> ck (world s') \<in> {Saved cp, NoFile}) \<and>
    (\<not> isConsist s' \<longrightarrow> ck (world s') = Saved cp)"
  using utxo_backend.commit_outcome [OF assms(1,4,3,2)] by blast

text \<open>The example: block 1 spends the only output of \<open>aa\<close> and creates \<open>bb\<close>.\<close>

definition out0 :: tx_output where "out0 = \<lparr>CompressedScript = [0], CompressedAmount = 9\<rparr>"

definition sample_cp :: checkpoint where
  "sample_cp = \<lparr>PrevBlock = Some \<lparr>cb_Height = 0, cb_Hash = ''h0''\<rparr>, NewBlock = Some \<lparr>cb_Height = 1, cb_Hash = ''h1''\<rparr>,
     TxsBeforeUpdate = [(''aa'', \<lparr>BlockHeight = 0, Outputs = [Some out0]\<rparr>)],
     DereferencedAddressesTxs = [(''x'', [''aa''])],
     NewTxOutputs = [(''aa'', \<lparr>BlockHeight = 0, Outputs = [None]\<rparr>), (''bb'', \<lparr>BlockHeight = 1, Outputs = [Some out0]\<rparr>)],
     NewAddreessReferences = [(''x'', [''bb''])]\<rparr>"

definition sample_world :: "bool list \<Rightarrow> sim" where
  "sample_world faults =
     \<lparr>sim_keys = [(hash_key ''1'', Inl (VString ''h0'')), (height_key ''1'', Inl (VInt64 0)),
        (tx_key ''1'' ''aa'', Inl (VOutputs \<lparr>BlockHeight = 0, Outputs = [Some out0]\<rparr>)),
        (addr_key ''1'' ''x'', Inr [''aa''])],
      sim_queue = [], sim_file = None, sim_faults = faults\<rparr>"

definition after_world :: sim where
  "after_world =
     \<lparr>sim_keys = [(hash_key ''1'', Inl (VString ''h1'')), (height_key ''1'', Inl (VInt64 1)),
        (addr_key ''1'' ''x'', Inr [''bb'']),
        (tx_key ''1'' ''bb'', Inl (VOutputs \<lparr>BlockHeight = 1, Outputs = [Some out0]\<rparr>))],
      sim_queue = [], sim_file = None, sim_faults = []\<rparr>"

lemma sim_dbVer [simp]: "us_dbVer (sim_store v) = v"
  by (simp add: sim_store_def redis_utxo_store_def)

abbreviation sample_nb :: checkpoint_block where "sample_nb \<equiv> \<lparr>cb_Height = 1, cb_Hash = ''h1''\<rparr>"
abbreviation sample_pb :: checkpoint_block where "sample_pb \<equiv> \<lparr>cb_Height = 0, cb_Hash = ''h0''\<rparr>"

lemma sample_blocks: "PrevBlock sample_cp = Some sample_pb" "NewBlock sample_cp = Some sample_nb"
  by (simp_all add: sample_cp_def)

theorem CommitCheckpoint_atomic_witness:
  "\<exists>s'. CommitCheckpoint (sim_store ''1'') sample_cp \<lparr>world = sample_world [], isConsist = True\<rparr> = (Ok (), s') \<and>
     sim_ks (world s') = run (up_cmds ''1'' sample_nb sample_cp) (sim_ks (sample_world [])) \<and>
     sim_ck (world s') = NoFile"
proof -
  let ?c = "CommitCheckpoint (sim_store ''1'') sample_cp \<lparr>world = sample_world [], isConsist = True\<rparr>"
  have "fst ?c = Ok ()" by code_simp
  then obtain s' where c: "?c = (Ok (), s')" by (metis prod.collapse)
  from CommitCheckpoint_atomic [OF sim_backend _ sample_blocks(2) c] c show ?thesis by simp
qed

text \<open>
  What the committed commands do: hash and height are those of the new block; every transaction
  of the checkpoint holds its new outputs, or is gone when all are spent; other transactions are
  untouched; the index of each address gains the new references and loses the dereferenced ones.
\<close>

theorem CommitCheckpoint_effect:
  assumes "utxo_backend U D ks ck pend" and "isConsist s" and "NewBlock cp = Some nb"
    and "gomap_wf (NewTxOutputs cp)" and "\<And>a. holds_set (ks (world s)) (addr_key (us_dbVer U) a)"
    and "CommitCheckpoint U cp s = (Ok (), s')"
  defines "v \<equiv> us_dbVer U" and "old \<equiv> ks (world s)" and "new \<equiv> ks (world s')"
  shows "new (hash_key v) = Some (Val (VString (cb_Hash nb))) \<and>
    new (height_key v) = Some (Val (VInt64 (cb_Height nb))) \<and>
    (\<forall>t. new (tx_key v t) = (case map_of (NewTxOutputs cp) t of
        None \<Rightarrow> old (tx_key v t)
      | Some e \<Rightarrow> if isAllSpent (Outputs e) then None else Some (Val (VOutputs e)))) \<and>
    (\<forall>a. members new (addr_key v a) =
        (members old (addr_key v a) \<union> ids_of (NewAddreessReferences cp) a)
        - ids_of (DereferencedAddressesTxs cp) a)"
proof -
  have n: "new = run (up_cmds v nb cp) old"
    using utxo_backend.commit_outcome [OF assms(1,6,3,2)] by (simp add: new_def old_def v_def)
  note u = up_lookup [OF assms(4,5), folded v_def old_def]
  have "new (tx_key v t) = (case map_of (NewTxOutputs cp) t of None \<Rightarrow> old (tx_key v t)
      | Some e \<Rightarrow> if isAllSpent (Outputs e) then None else Some (Val (VOutputs e)))" for t
  proof (cases "map_of (NewTxOutputs cp) t")
    case None
    then show ?thesis using u(6) [of t] by (simp add: n map_of_eq_None_iff [THEN iffD1])
  next
    case (Some e)
    then show ?thesis using u(5) [of t e] by (simp add: n map_of_SomeD)
  qed
  then show ?thesis using u(1,2,4) by (simp add: n)
qed

lemma sample_holds: "holds_set (sim_ks (sample_world f)) (addr_key ''1'' a)"
  by (simp add: sample_world_def view_def sim_space_def holds_set_def sim_codec_def)

theorem CommitCheckpoint_effect_witness:
  "\<exists>s'. CommitCheckpoint (sim_store ''1'') sample_cp \<lparr>world = sample_world [], isConsist = True\<rparr> = (Ok (), s') \<and>
     sim_ks (world s') (tx_key ''1'' ''aa'') = None \<and> members (sim_ks (world s')) (addr_key ''1'' ''x'') = {''bb''}"
proof -
  let ?c = "CommitCheckpoint (sim_store ''1'') sample_cp \<lparr>world = sample_world [], isConsist = True\<rparr>"
  have "fst ?c = Ok ()" by code_simp
  then obtain s' where c: "?c = (Ok (), s')" by (metis prod.collapse)
  have w: "gomap_wf (NewTxOutputs sample_cp)" by (simp add: sample_cp_def gomap_wf_def gokeys_def)
  have m: "members (sim_ks (sample_world [])) (addr_key ''1'' ''x'') = {''aa''}"
    by (simp add: sample_world_def view_def sim_space_def members_def)
  note e = CommitCheckpoint_effect [OF sim_backend [of "''1''"] _ sample_blocks(2) w _ c]
  show ?thesis
    using e c m sample_holds [of "[]"]
    by (simp add: sample_cp_def ids_of_def isAllSpent_iff) (auto simp: sample_cp_def)
qed

text \<open>
  A store marked inconsistent refuses every exported operation with \<open>ErrInconsistenceState\<close> and
  touches nothing.
\<close>

theorem inconsistent_store_refuses:
  assumes "\<not> isConsist s"
  shows "GetBlockHeight U s = (Err ErrInconsistenceState, s) \<and>
    GetBlockHash U s = (Err ErrInconsistenceState, s) \<and>
    SetBlockHeight U h s = (Err ErrInconsistenceState, s) \<and>
    SetBlockHash U b s = (Err ErrInconsistenceState, s) \<and>
    RemoveAddressTxIDs U a ids s = (Err ErrInconsistenceState, s) \<and>
    GetUnspentOutputsByAddress lib U a s = (Err ErrInconsistenceState, s) \<and>
    GetOutputsByTxID U t s = (Err ErrInconsistenceState, s) \<and>
    SpendOutput lib U t i s = (Err ErrInconsistenceState, s) \<and>
    SpendOutputFromRetrievedOutputs lib U t os i s = (Err ErrInconsistenceState, s) \<and>
    SpendAllOutputs U t s = (Err ErrInconsistenceState, s) \<and>
    SetTransactionOutputs U t e s = (Err ErrInconsistenceState, s) \<and>
    AreExiststsOutputs U t s = (Err ErrInconsistenceState, s) \<and>
    AddTransactionOutputs lib U t e s = (Err ErrInconsistenceState, s) \<and>
    AddTransactionOutputsBatch lib U es s = (Err ErrInconsistenceState, s) \<and>
    CommitCheckpoint U cp s = (Err ErrInconsistenceState, s)"
  using assms
  by (simp add: GetBlockHeight_def GetBlockHash_def SetBlockHeight_def SetBlockHash_def RemoveAddressTxIDs_def
      GetUnspentOutputsByAddress_def GetOutputsByTxID_def SpendOutput_def SpendOutputFromRetrievedOutputs_def
      SpendAllOutputs_def SetTransactionOutputs_def AreExiststsOutputs_def AddTransactionOutputs_def
      AddTransactionOutputsBatch_def CommitCheckpoint_def guarded_def)

theorem inconsistent_store_refuses_witness:
  "GetBlockHeight (sim_store ''1'') \<lparr>world = sample_world [], isConsist = False\<rparr> =
     (Err ErrInconsistenceState, \<lparr>world = sample_world [], isConsist = False\<rparr>)"
  by (rule inconsistent_store_refuses [THEN conjunct1]) simp

section \<open>Recovering\<close>

text \<open>Starts of the program, each of which may fail at any point and be followed by another.\<close>

inductive restarts :: "('w, 'tx) utxo_store \<Rightarrow> 'w \<Rightarrow> 'w \<Rightarrow> bool" for U where
  none: "restarts U w w"
| more: "restarts U w v \<Longrightarrow> New U v = (r, s) \<Longrightarrow> restarts U w (world s)"

inductive_cases restarts_cases: "restarts U w w'"

lemma restarts_safe:
  assumes b: "utxo_backend U D ks ck pend" and cp: "PrevBlock cp = Some pb" "NewBlock cp = Some nb"
    and d: "describes (us_dbVer U) pb cp old" and wf: "gomap_wf (NewTxOutputs cp)"
    and hash: "cb_Hash pb \<noteq> cb_Hash nb"
  shows "restarts U w w' \<Longrightarrow> safe (us_dbVer U) pb nb cp old (ks w) (ck w) \<Longrightarrow>
    safe (us_dbVer U) pb nb cp old (ks w') (ck w') \<and>
    (ks w = run (up_cmds (us_dbVer U) nb cp) old \<longrightarrow> ks w' = run (up_cmds (us_dbVer U) nb cp) old)"
proof (induction rule: restarts.induct)
  case (more w v r s)
  then show ?case using utxo_backend.New_outcome [OF b more.hyps(2) cp d wf hash] by blast
qed simp

text \<open>
  The start-up recovery. From every state a crash of the commit, or of an earlier recovery,
  can leave, \<open>New\<close> does not panic, leaves such a state, and when it succeeds the checkpoint file is
  gone and the key space is exactly the old one, or the new one if the commit had gone through.
\<close>

theorem New_recovers:
  assumes "utxo_backend U D ks ck pend" and "PrevBlock cp = Some pb" and "NewBlock cp = Some nb"
    and "describes (us_dbVer U) pb cp old" and "gomap_wf (NewTxOutputs cp)" and "cb_Hash pb \<noteq> cb_Hash nb"
    and "safe (us_dbVer U) pb nb cp old (ks w) (ck w)" and "New U w = (r, s')"
  defines "new \<equiv> run (up_cmds (us_dbVer U) nb cp) old"
  shows "r \<noteq> Panic \<and> safe (us_dbVer U) pb nb cp old (ks (world s')) (ck (world s')) \<and>
    (r = Ok () \<longrightarrow> ck (world s') = NoFile \<and> ks (world s') = (if ks w = new then new else old))"
  using utxo_backend.New_outcome [OF assms(1,8,2-7), folded new_def] by auto

lemma sim_decoded [simp]: "decoded sim_codec v = Val v"
  by (rule sim_codec.decoded_Marshal) (simp add: sim_codec_def)

lemma sample_describes: "describes ''1'' sample_pb sample_cp (sim_ks (sample_world f))"
  by (auto simp: describes_def sample_cp_def sample_world_def view_def sim_space_def members_def holds_set_def
      ids_of_def created_def)

lemma sample_wf: "gomap_wf (NewTxOutputs sample_cp)"
  by (simp add: sample_cp_def gomap_wf_def gokeys_def)

lemma sample_safe: "safe ''1'' sample_pb sample_nb sample_cp (sim_ks (sample_world f)) (sim_ks (sample_world f)) (Saved sample_cp)"
  using restorable_refl [OF sample_describes] sample_describes [of f] by (auto simp: safe_def describes_def)

text \<open>The example: the server lost the update, the checkpoint is still on disk.\<close>

definition crashed_world :: sim where
  "crashed_world = (sample_world [])\<lparr>sim_file := Some sample_cp\<rparr>"

lemma crashed_views: "sim_ks crashed_world = sim_ks (sample_world [])" "sim_ck crashed_world = Saved sample_cp"
  by (simp_all add: crashed_world_def file_view_def)

theorem New_recovers_witness:
  "\<exists>s'. New (sim_store ''1'') crashed_world = (Ok (), s') \<and> sim_ck (world s') = NoFile \<and>
     sim_ks (world s') = sim_ks (sample_world [])"
proof -
  have "fst (New (sim_store ''1'') crashed_world) = Ok ()" by code_simp
  then obtain s' where n: "New (sim_store ''1'') crashed_world = (Ok (), s')" by (metis prod.collapse)
  have h: "run (up_cmds ''1'' sample_nb sample_cp) (sim_ks (sample_world [])) \<noteq> sim_ks (sample_world [])"
  proof
    assume "run (up_cmds ''1'' sample_nb sample_cp) (sim_ks (sample_world [])) = sim_ks (sample_world [])"
    moreover have "run (up_cmds ''1'' sample_nb sample_cp) (sim_ks (sample_world [])) (hash_key ''1'') = Some (Val (VString ''h1''))"
      using up_lookup(1) [OF sample_wf sample_holds] by simp
    moreover have "sim_ks (sample_world []) (hash_key ''1'') = Some (Val (VString ''h0''))"
      using sample_describes [of "[]"] by (simp add: describes_def)
    ultimately show False by simp
  qed
  note r = New_recovers [OF sim_backend [of "''1''"] sample_blocks, unfolded sim_dbVer, OF sample_describes [of "[]"]
      sample_wf _ _ n]
  show ?thesis using r sample_safe [of "[]"] h n by (auto simp: crashed_views)
qed

text \<open>
  Crash safety of the whole protocol. A commit on a clean store that fails, or crashes, at any
  point, followed by any number of starts that fail or crash at any point: the first start that
  succeeds leaves no checkpoint file and exactly the key space before the block or after the block;
  an update that had reached the server is never undone.
\<close>

theorem crash_recovery:
  assumes "utxo_backend U D ks ck pend" and "PrevBlock cp = Some pb" and "NewBlock cp = Some nb"
    and "describes (us_dbVer U) pb cp (ks (world s))" and "gomap_wf (NewTxOutputs cp)"
    and "cb_Hash pb \<noteq> cb_Hash nb" and "isConsist s" and "ck (world s) = NoFile"
    and "CommitCheckpoint U cp s = (r, s1)" and "restarts U (world s1) w" and "New U w = (Ok (), s2)"
  defines "new \<equiv> run (up_cmds (us_dbVer U) nb cp) (ks (world s))"
  shows "ck (world s2) = NoFile \<and> (ks (world s2) = ks (world s) \<or> ks (world s2) = new) \<and>
    (ks (world s1) = new \<longrightarrow> ks (world s2) = new)"
proof -
  have "safe (us_dbVer U) pb nb cp (ks (world s)) (ks (world s1)) (ck (world s1))"
    by (rule utxo_backend.commit_safe [OF assms(1,9,3,7,8,4)])
  from restarts_safe [OF assms(1-6) assms(10) this]
  have "safe (us_dbVer U) pb nb cp (ks (world s)) (ks w) (ck w)" "ks (world s1) = new \<longrightarrow> ks w = new"
    by (simp_all add: new_def)
  with utxo_backend.New_outcome [OF assms(1,11,2-6)] show ?thesis by (auto simp: new_def)
qed

text \<open>The example: the answer of \<open>EXEC\<close> is lost, the first restart fails while it restores.\<close>

theorem crash_recovery_witness:
  "\<exists>s1 s2. CommitCheckpoint (sim_store ''1'') sample_cp
       \<lparr>world = sample_world [False, False, True, False, False, False, False, True], isConsist = True\<rparr> = (s1, s2) \<and>
     fst (New (sim_store ''1'') (world s2)) \<noteq> Ok () \<and>
     fst (New (sim_store ''1'') (world (snd (New (sim_store ''1'') (world s2))))) = Ok () \<and>
     sim_ks (world (snd (New (sim_store ''1'') (world (snd (New (sim_store ''1'') (world s2)))))))
       \<in> {sim_ks (sample_world []), run (up_cmds ''1'' sample_nb sample_cp) (sim_ks (sample_world []))}"
proof -
  let ?s = "\<lparr>world = sample_world [False, False, True, False, False, False, False, True], isConsist = True\<rparr>"
  define c where "c = CommitCheckpoint (sim_store ''1'') sample_cp ?s"
  define n1 where "n1 = New (sim_store ''1'') (world (snd c))"
  define n2 where "n2 = New (sim_store ''1'') (world (snd n1))"
  have "fst n1 \<noteq> Ok ()" "fst n2 = Ok ()" unfolding n1_def n2_def c_def by code_simp+
  moreover have "restarts (sim_store ''1'') (world (snd c)) (world (snd n1))"
    using restarts.more [OF restarts.none, of "sim_store ''1''" "world (snd c)" "fst n1" "snd n1"]
    by (simp add: n1_def)
  moreover have e: "sim_ks (world ?s) = sim_ks (sample_world [])" "sim_ck (world ?s) = NoFile"
    by (simp_all add: sample_world_def file_view_def)
  ultimately have "sim_ks (world (snd n2)) = sim_ks (world ?s) \<or>
      sim_ks (world (snd n2)) = run (up_cmds ''1'' sample_nb sample_cp) (sim_ks (world ?s))"
    using crash_recovery [OF sim_backend [of "''1''"] sample_blocks, unfolded sim_dbVer, of ?s "fst c" "snd c" "world (snd n1)" "snd n2"]
      sample_describes sample_wf by (simp add: c_def n2_def prod_eq_iff)
  then have "sim_ks (world (snd n2)) \<in> {sim_ks (sample_world []), run (up_cmds ''1'' sample_nb sample_cp) (sim_ks (sample_world []))}"
    unfolding e by blast
  then show ?thesis
    using \<open>fst n1 \<noteq> Ok ()\<close> \<open>fst n2 = Ok ()\<close>
    by (intro exI [of _ "fst c"] exI [of _ "snd c"]) (auto simp: c_def n1_def n2_def)
qed

section \<open>What recovery does not repair\<close>



text \<open>
  As long as the database holds no block hash, a checkpoint on disk makes every start fail and
  change nothing: the consistency check needs the hash. The first block a fresh database indexes
  leaves exactly this state when its commit is interrupted before the update.
\<close>

theorem New_fails_without_block_hash:
  assumes "utxo_backend U D ks ck pend" and "ks w (hash_key (us_dbVer U)) = None" and "ck w \<noteq> NoFile"
    and "restarts U w w'"
  shows "(\<exists>e s'. New U w' = (Err e, s')) \<and> ks w' = ks w \<and> ck w' = ck w"
proof -
  have k: "ks w' = ks w \<and> ck w' = ck w"
    using assms(4,2,3)
  proof (induction rule: restarts.induct)
    case (more w v r s)
    then show ?case using utxo_backend.New_no_hash [OF assms(1), of v r s] by simp
  qed simp
  then have "\<exists>e. fst (New U w') = Err e"
    using utxo_backend.New_no_hash [OF assms(1), of w' "fst (New U w')" "snd (New U w')"] assms(2,3) by simp
  with k show ?thesis by (metis prod.collapse)
qed

theorem New_fails_without_block_hash_witness:
  "\<exists>e s'. New (sim_store ''1'') \<lparr>sim_keys = [], sim_queue = [], sim_file = Some sample_cp, sim_faults = []\<rparr> = (Err e, s')"
  using New_fails_without_block_hash [OF sim_backend [of "''1''"], OF _ _ restarts.none,
      of "\<lparr>sim_keys = [], sim_queue = [], sim_file = Some sample_cp, sim_faults = []\<rparr>"]
  by (simp add: view_def sim_space_def file_view_def)

section \<open>Transactions and providers\<close>

text \<open>
  The transaction manager, over any driver with the laws of a transaction and any block that
  only queues: \<open>Do\<close> never panics; it runs exactly the commands the block queued, as one unit, or
  none; success means they ran; an error of the block means they did not.
\<close>

theorem Do_atomic:
  assumes "tx_laws D kvT setsT ks ck pend"
    and "\<And>tx v q v'. fn tx v = (q, v') \<Longrightarrow> ks v' = ks v \<and> ck v' = ck v \<and> q \<noteq> Panic"
    and "Do (Some D) keys fn w = (r, w')"
  shows "ck w' = ck w \<and> r \<noteq> Panic \<and>
    (ks w' = ks w \<or> (\<exists>tx w1 w2. tx_Begin D keys w = (Ok tx, w1) \<and> fn tx w1 = (Ok (), w2) \<and>
        ks w' = run (pend w2 tx) (ks w))) \<and>
    (r = Ok () \<longrightarrow> (\<exists>tx w1 w2. tx_Begin D keys w = (Ok tx, w1) \<and> fn tx w1 = (Ok (), w2) \<and>
        ks w' = run (pend w2 tx) (ks w)))"
  by (rule tx_laws.Do_outcome [OF assms(1,3)]) (rule assms(2))

theorem Do_atomic_witness:
  "Do (Some sim_driver) None (\<lambda>tx. thenS (kv_Set (RedisStore (sim_pipe tx) sim_codec) ''k'' (VInt64 1)) (failS ErrNotFound))
     (sample_world []) = (Err ErrNotFound, sample_world []) \<and>
   sim_ck (snd (Do (Some sim_driver) None (\<lambda>tx. failS ErrNotFound) (sample_world []))) = NoFile"
proof -
  have "sim_ck (snd (Do (Some sim_driver) None (\<lambda>tx. failS ErrNotFound) (sample_world []))) = sim_ck (sample_world [])"
    using Do_atomic [OF sim.tx.tx_laws_axioms, of "\<lambda>tx. failS ErrNotFound" None "sample_world []"]
    by (auto simp: failS_apply) (metis prod.collapse)
  moreover have "Do (Some sim_driver) None (\<lambda>tx. thenS (kv_Set (RedisStore (sim_pipe tx) sim_codec) ''k'' (VInt64 1))
      (failS ErrNotFound)) (sample_world []) = (Err ErrNotFound, sample_world [])"
    by code_simp
  ultimately show ?thesis by (simp add: sample_world_def file_view_def)
qed

text \<open>
  The Redis store reads back what it stored: after a successful \<open>Set\<close>, a successful \<open>Get\<close> of
  the key with a destination of the same type finds the same value, and other keys are as before.
\<close>

theorem RedisStore_Set_Get:
  assumes "redis_client cdc cl rk ck" and "kv_Set (RedisStore cl cdc) k v w = (Ok (), w1)"
    and "kv_Get (RedisStore cl cdc) (gotype_of v) k w1 = (Ok res, w2)"
  shows "res = Some v \<and> rk w2 = rk w1 \<and> (\<forall>l. l \<noteq> k \<longrightarrow> view cdc (rk w2) l = view cdc (rk w) l)"
  using redis_client.Set_Get [OF assms] .

theorem RedisStore_Set_Get_witness:
  "\<exists>w1 w2. kv_Set (RedisStore sim_client sim_codec) ''k'' (VInt64 7) (sample_world []) = (Ok (), w1) \<and>
     kv_Get (RedisStore sim_client sim_codec) TInt64 ''k'' w1 = (Ok (Some (VInt64 7)), w2)"
proof -
  let ?w1 = "snd (kv_Set (RedisStore sim_client sim_codec) ''k'' (VInt64 7) (sample_world []))"
  have s: "kv_Set (RedisStore sim_client sim_codec) ''k'' (VInt64 7) (sample_world []) = (Ok (), ?w1)" by code_simp
  have "fst (kv_Get (RedisStore sim_client sim_codec) TInt64 ''k'' ?w1) = Ok (Some (VInt64 7))" by code_simp
  then have "kv_Get (RedisStore sim_client sim_codec) (gotype_of (VInt64 7)) ''k'' ?w1 =
      (Ok (Some (VInt64 7)), snd (kv_Get (RedisStore sim_client sim_codec) TInt64 ''k'' ?w1))"
    by (simp add: prod_eq_iff)
  then obtain res w2 where g: "kv_Get (RedisStore sim_client sim_codec) (gotype_of (VInt64 7)) ''k'' ?w1 = (Ok res, w2)"
    by blast
  from RedisStore_Set_Get [OF sim.redis_client_axioms s g] s g show ?thesis by auto
qed

text \<open>
  C28: an address query whose \<open>MGET\<close> fails (a dropped connection) succeeds with no outputs: the
  Redis store ignores the error of the command, so the caller cannot tell the failure from an
  address without unspent outputs.
\<close>

theorem failed_query_reads_as_empty:
  assumes "isConsist s" and "set_GetSet (sets_base (us_sets (redis_utxo_store cl cdc pipe D os mp v))) (addr_key v a) (world s) = (Ok ids, w1)"
    and "r_MGet cl (List.map (tx_key v) ids) w1 = (Err e, w2)"
  shows "GetUnspentOutputsByAddress lib (redis_utxo_store cl cdc pipe D os mp v) a s = (Ok [], s\<lparr>world := if ids = [] then w1 else w2\<rparr>)"
proof -
  have m: "kv_MulGet (RedisStore cl cdc) TOutputs (List.map (tx_key v) ids) w1 = (Ok [], w2)"
    using assms(3) by (simp add: RedisStore_def RedisStore_MulGet_def bindS_def tryS_def liftO_def)
  have g: "getAddressUTXOTransactionIds (base (redis_utxo_store cl cdc pipe D os mp v)) a (world s) = (Ok ids, w1)"
    using assms(2) by (simp add: getAddressUTXOTransactionIds_def redis_utxo_store_def wrapS_def base_def)
  show ?thesis
    using assms(1) m
    by (simp add: GetUnspentOutputsByAddress_def guarded_def on_world_def getUnspentOutputsByAddress_def
        bindS_step [where m = "getAddressUTXOTransactionIds (base (redis_utxo_store cl cdc pipe D os mp v)) a", OF g] Let_def retS_apply)
      (simp add: redis_utxo_store_def bindS_def wrapS_def liftO_def)
qed

theorem failed_query_reads_as_empty_witness:
  "fst (GetUnspentOutputsByAddress sample_lib (sim_store ''1'') ''x''
     \<lparr>world = sample_world [False, True], isConsist = True\<rparr>) = Ok []"
proof -
  have "\<exists>e w2. r_MGet sim_client (List.map (tx_key ''1'') [''aa'']) (sample_world [True]) = (Err e, w2)"
    by (simp add: sim_client_def sim_op_def sample_world_def)
  then obtain e w2 where m: "r_MGet sim_client (List.map (tx_key ''1'') [''aa'']) (sample_world [True]) = (Err e, w2)"
    by blast
  show ?thesis unfolding sim_store_def
    by (subst failed_query_reads_as_empty [OF _ _ m])
      (simp_all add: redis_utxo_store_def RedisSets_def RedisSets_GetSet_def sim_client_def sim_op_def wrapS_def
        sample_world_def)
qed

end
