(* ===== verification/Blockchain.thy ===== *)
theory Blockchain
  imports Utxo_Types
begin

text \<open>
  The blocks of the node as the indexer reads them (\<^verbatim>\<open>universalbitcioin/blockchain/block.go\<close>,
  \<^verbatim>\<open>hash.go\<close>, \<^verbatim>\<open>transaction.go\<close>): the fields its own code uses.
\<close>

section \<open>Amounts\<close>

text \<open>
  An amount is the decimal number of the node's answer, a coefficient and an exponent of ten. The
  code parses it into a \<open>big.Float\<close> (64 bits of mantissa, more than any amount needs) and takes its
  \<open>String\<close>, which prints ten significant digits. \<open>am_above\<close> tells on which side of the decimal
  the binary number lies, which decides a rounding tie.
\<close>

record amount =
  am_coef :: int
  am_exp :: int
  am_above :: bool

definition digit_count :: "int \<Rightarrow> nat" where
  "digit_count c = length (nat_digits (nat \<bar>c\<bar>))"

definition BigFloat_String :: "amount \<Rightarrow> int \<times> int" where
  "BigFloat_String a =
     (let c = am_coef a in
      if digit_count c \<le> 10 then (c, am_exp a)
      else
        let k = digit_count c - 10;
            q = \<bar>c\<bar> div 10 ^ k; r = \<bar>c\<bar> mod 10 ^ k;
            q = (if 10 ^ k < 2 * r \<or> (2 * r = 10 ^ k \<and> am_above a) then q + 1 else q)
        in (if c < 0 then - q else q, am_exp a + int k))"

text \<open>
  \<open>Uint64\<close>: the decimal text times a power of ten, printed and parsed as an unsigned number. A
  fraction or a sign is a parse error, whose result 0 is kept; a number out of range parses to the
  largest one.
\<close>

definition ParseUint_of :: "int \<Rightarrow> u64" where
  "ParseUint_of v = (if v < 2 ^ 64 then of_int v else 2 ^ 64 - 1)"

definition AmountValue_Uint64 :: "amount \<Rightarrow> int \<Rightarrow> u64" where
  "AmountValue_Uint64 a decimals =
     (case BigFloat_String a of (c, e) \<Rightarrow>
        let e = e + decimals in
        if c < 0 then 0
        else if 0 \<le> e then ParseUint_of (c * 10 ^ nat e)
        else if c mod 10 ^ nat (- e) = 0 then ParseUint_of (c div 10 ^ nat (- e))
        else 0)"

section \<open>Blocks\<close>

record script_pub_key =
  spk_Type :: string
  spk_HEX :: string

record bc_output =
  bo_Value :: "amount option"
  bo_ScriptPubKey :: "script_pub_key option"

record spending_output =
  so_TxID :: string
  so_VOut :: int

text \<open>An input is a coinbase or spends an output: the embedded pointer is nil otherwise.\<close>

record bc_input =
  bi_Coinbase :: "string option"
  bi_SpendingOutput :: "spending_output option"

record bc_transaction =
  bt_ID :: string
  bt_VIn :: "bc_input list"
  bt_VOut :: "bc_output list"

record block_header =
  bh_Hash :: bytes
  bh_NextBlockHash :: bytes
  bh_PrevBlockHash :: bytes
  bh_Height :: int

record block = block_header +
  bk_Transactions :: "bc_transaction list"

definition hash_String :: "bytes \<Rightarrow> string" where
  "hash_String h = hex_EncodeToString h"

definition NewHashFromHEX :: "string \<Rightarrow> bytes outcome" where
  "NewHashFromHEX encodedHash = hex_DecodeString encodedHash"

definition MustHashFromHEX :: "string \<Rightarrow> bytes outcome" where
  "MustHashFromHEX encodedHash =
     (case NewHashFromHEX encodedHash of Ok hash \<Rightarrow> Ok hash | _ \<Rightarrow> Panic)"

definition header_Valid :: "'a block_header_scheme \<Rightarrow> bool" where
  "header_Valid b \<longleftrightarrow> length (bh_Hash b) \<noteq> 0"

definition IsSpendable :: "('key, 'addr) btc_lib \<Rightarrow> bc_output \<Rightarrow> bool" where
  "IsSpendable lib t =
     (case bo_ScriptPubKey t of
        None \<Rightarrow> False
      | Some spk \<Rightarrow>
          if spk_Type spk = ''nulldata'' then False
          else if length (spk_HEX spk) = 0 then False
          else case hex_DecodeString (spk_HEX spk) of
            Ok scriptBytes \<Rightarrow> \<not> IsUnspendable lib scriptBytes
          | _ \<Rightarrow> False)"

section \<open>Properties\<close>

lemma nat_digits_length: "length (nat_digits n) \<le> k \<longleftrightarrow> n < 10 ^ k \<or> (k = 0 \<and> False)" if "0 < k"
  using that
proof (induction n arbitrary: k rule: nat_digits.induct)
  case (1 n)
  show ?case
  proof (cases "n < 10")
    case True
    with 1(2) have "(n :: nat) < 10 ^ k" by (cases k) (auto intro: order_less_le_trans)
    with True 1(2) show ?thesis by (simp add: nat_digits.simps [of n])
  next
    case False
    obtain j where k: "k = Suc j" using 1(2) by (cases k) auto
    show ?thesis
    proof (cases j)
      case 0
      with False k show ?thesis by (simp add: nat_digits.simps [of n] Suc_le_eq)
    next
      case (Suc i)
      have "length (nat_digits n) \<le> k \<longleftrightarrow> length (nat_digits (n div 10)) \<le> j"
        using False k by (simp add: nat_digits.simps [of n])
      also have "\<dots> \<longleftrightarrow> n div 10 < 10 ^ j" using 1(1) [OF False, of j] Suc by simp
      also have "\<dots> \<longleftrightarrow> n < 10 ^ k" using k by (simp add: div_less_iff_less_mult mult.commute)
      finally show ?thesis by simp
    qed
  qed
qed



end
