(* ===== verification/Utxo_Spending.thy ===== *)
theory Utxo_Spending
  imports Blockchain
begin

text \<open>
  From a block of the node to the checkpoint the store commits (\<^verbatim>\<open>utxospending/utxospending.go\<close>):
  which stored transactions the block spends from, their new outputs, the outputs it creates, and the
  changes of the address index. A set \<open>map[string]bool\<close> that is only tested is a list of its keys.
  The iteration order of the maps the code builds is the insertion order; the statements about the
  results use lookups and do not depend on it. The address counters are within \<open>int\<close>: they are
  bounded by the number of outputs in memory.
\<close>

text \<open>\<open>UTXOStoreReadMethods\<close>.\<close>

record 'w utxo_reads =
  rd_GetOutputsByTxID :: "string \<Rightarrow> ('w, tx_outputs) st"
  rd_GetBlockHeight :: "('w, int) st"
  rd_GetBlockHash :: "('w, string) st"

section \<open>Outputs of a transaction\<close>

text \<open>One iteration of \<open>getAllSpendableOutputs\<close>: an unspendable output is stored as already spent.\<close>

definition spendable_output :: "('key, 'addr) btc_lib \<Rightarrow> int \<Rightarrow> bc_output \<Rightarrow> tx_output option outcome" where
  "spendable_output lib decimals output =
     (if IsSpendable lib output then
        case bo_ScriptPubKey output of
          None \<Rightarrow> Panic
        | Some spk \<Rightarrow>
            bindO (wrapO ''failed to convert script to bytes'' (hex_DecodeString (spk_HEX spk))) (\<lambda>scriptBytes.
            bindO (SetScriptBytes lib scriptBytes \<lparr>CompressedScript = [], CompressedAmount = 0\<rparr>) (\<lambda>convertedOutput.
            Ok (Some (SetAmount (case bo_Value output of None \<Rightarrow> 0 | Some v \<Rightarrow> AmountValue_Uint64 v decimals)
                  convertedOutput))))
      else Ok None)"

definition getAllSpendableOutputs :: "('key, 'addr) btc_lib \<Rightarrow> int \<Rightarrow> bc_transaction \<Rightarrow> tx_output option list outcome" where
  "getAllSpendableOutputs lib decimals tx = mapO (spendable_output lib decimals) (bt_VOut tx)"

section \<open>References of the new outputs\<close>

definition add_ref :: "string \<Rightarrow> (string, (string, bool) gomap) gomap \<Rightarrow> string \<Rightarrow> (string, (string, bool) gomap) gomap" where
  "add_ref txID refs addr =
     (let refs = (if map_of refs addr = None then AList.update addr [] refs else refs) in
      AList.update addr (AList.update txID True (the (map_of refs addr))) refs)"

definition add_output_refs :: "('key, 'addr) btc_lib \<Rightarrow> string \<Rightarrow> (string, (string, bool) gomap) gomap \<Rightarrow>
    tx_output option \<Rightarrow> (string, (string, bool) gomap) gomap outcome" where
  "add_output_refs lib txID refs output =
     (case output of
        None \<Rightarrow> Ok refs
      | Some o1 \<Rightarrow>
          bindO (wrapO ''failed to get outputs addresses'' (GetAddresses lib o1)) (\<lambda>addresses.
          Ok (foldl (add_ref txID) refs addresses)))"

definition add_tx_refs :: "('key, 'addr) btc_lib \<Rightarrow> int \<Rightarrow> (string, (string, bool) gomap) gomap \<Rightarrow>
    bc_transaction \<Rightarrow> (string, (string, bool) gomap) gomap outcome" where
  "add_tx_refs lib decimals refs tx =
     bindO (wrapO ''failed to cast transaction outputs to store outputs''
              (getAllSpendableOutputs lib decimals tx)) (\<lambda>spendableOutputs.
     foldO (add_output_refs lib (bt_ID tx)) refs spendableOutputs)"

text \<open>The keys of each inner map as a list; an address without any never enters the result.\<close>

definition key_lists :: "(string, string list) gomap \<Rightarrow> (string, string list) gomap" where
  "key_lists m = filter (\<lambda>(addr, ids). ids \<noteq> []) m"

definition extractAddressReferencesFromOutputs ::
  "('key, 'addr) btc_lib \<Rightarrow> int \<Rightarrow> block \<Rightarrow> (string, string list) gomap outcome" where
  "extractAddressReferencesFromOutputs lib decimals newBlock =
     bindO (foldO (add_tx_refs lib decimals) [] (bk_Transactions newBlock)) (\<lambda>addressRefs.
     Ok (key_lists (List.map (\<lambda>(addr, txs). (addr, gokeys txs)) addressRefs)))"

section \<open>Spending\<close>

text \<open>
  The bound check adds one to the index of the input as an \<open>int\<close>, so a negative index, and the
  largest one, pass it and the index expression panics.
\<close>

definition vout_index :: "tx_output option list \<Rightarrow> int \<Rightarrow> nat outcome" where
  "vout_index outputs vout =
     (if int (length outputs) < wrap64 (vout + 1) then Err ErrSpendingOutputNotFound
      else if vout < 0 \<or> int (length outputs) \<le> vout then Panic
      else Ok (nat vout))"

definition spend_input :: "(string, tx_outputs) gomap \<Rightarrow> bc_input \<Rightarrow> (string, tx_outputs) gomap outcome" where
  "spend_input newTxOutputs input =
     (case bi_SpendingOutput input of
        None \<Rightarrow> Ok newTxOutputs
      | Some spendingOutput \<Rightarrow>
          case map_of newTxOutputs (so_TxID spendingOutput) of
            None \<Rightarrow> Err ErrSpendingOutputNotFound
          | Some txOutputsEntry \<Rightarrow>
              bindO (vout_index (Outputs txOutputsEntry) (so_VOut spendingOutput)) (\<lambda>i.
              Ok (AList.update (so_TxID spendingOutput)
                (txOutputsEntry\<lparr>Outputs := (Outputs txOutputsEntry)[i := None]\<rparr>) newTxOutputs)))"

definition spend_tx :: "('key, 'addr) btc_lib \<Rightarrow> int \<Rightarrow> int \<Rightarrow> (string, tx_outputs) gomap \<Rightarrow> bc_transaction \<Rightarrow>
    (string, tx_outputs) gomap outcome" where
  "spend_tx lib decimals blockHeight newTxOutputs tx =
     bindO (wrapO ''failed to cast transaction outputs to store outputs''
              (getAllSpendableOutputs lib decimals tx)) (\<lambda>spendableOutputs.
     foldO spend_input
       (AList.update (bt_ID tx) \<lparr>BlockHeight = blockHeight, Outputs = spendableOutputs\<rparr> newTxOutputs)
       (bt_VIn tx))"

definition spendAllOutputs_of_block :: "('key, 'addr) btc_lib \<Rightarrow> int \<Rightarrow> (string, tx_outputs) gomap \<Rightarrow> block \<Rightarrow>
    (string, tx_outputs) gomap outcome" where
  "spendAllOutputs_of_block lib decimals spendingOutputs newBlock =
     foldO (spend_tx lib decimals (bh_Height newBlock)) spendingOutputs (bk_Transactions newBlock)"

section \<open>Dereferenced addresses\<close>

definition add_count :: "string \<Rightarrow> int \<Rightarrow> (string, (string, int) gomap) gomap \<Rightarrow> string \<Rightarrow>
    (string, (string, int) gomap) gomap outcome" where
  "add_count txID d counts addr =
     (case map_of counts addr of
        None \<Rightarrow> Panic
      | Some m \<Rightarrow> Ok (AList.update addr
          (AList.update txID ((case map_of m txID of None \<Rightarrow> 0 | Some n \<Rightarrow> n) + d) m) counts))"

definition count_address :: "string \<Rightarrow> (string, (string, int) gomap) gomap \<Rightarrow> string \<Rightarrow>
    (string, (string, int) gomap) gomap outcome" where
  "count_address txID counts addr =
     add_count txID 1 (if map_of counts addr = None then AList.update addr [] counts else counts) addr"

definition count_output :: "('key, 'addr) btc_lib \<Rightarrow> string \<Rightarrow> (string, (string, int) gomap) gomap \<Rightarrow>
    tx_output option \<Rightarrow> (string, (string, int) gomap) gomap outcome" where
  "count_output lib txID counts output =
     (case output of
        None \<Rightarrow> Ok counts
      | Some o1 \<Rightarrow>
          bindO (wrapO ''failed to get output addresses'' (GetAddresses lib o1)) (\<lambda>addresses.
          foldO (count_address txID) counts addresses))"

definition countAddressOutputs :: "('key, 'addr) btc_lib \<Rightarrow> (string, tx_outputs) gomap \<Rightarrow>
    (string, (string, int) gomap) gomap outcome" where
  "countAddressOutputs lib txOutputs =
     foldO (\<lambda>counts (txID, txOutputsEntry). foldO (count_output lib txID) counts (Outputs txOutputsEntry))
       [] txOutputs"

definition deref_input :: "('key, 'addr) btc_lib \<Rightarrow> (string, tx_outputs) gomap \<Rightarrow> string list \<Rightarrow>
    (string, (string, int) gomap) gomap \<Rightarrow> bc_input \<Rightarrow> (string, (string, int) gomap) gomap outcome" where
  "deref_input lib spendingOutputs txIDsFromCurrentBlock counts input =
     (case bi_SpendingOutput input of
        None \<Rightarrow> Ok counts
      | Some output \<Rightarrow>
          if so_TxID output \<in> set txIDsFromCurrentBlock then Ok counts
          else case map_of spendingOutputs (so_TxID output) of
            None \<Rightarrow> Err ErrSpendingOutputNotFound
          | Some txOutputsEntry \<Rightarrow>
              bindO (vout_index (Outputs txOutputsEntry) (so_VOut output)) (\<lambda>i.
              bindO (wrapO ''failed to get output addresses''
                       (GetAddresses_ptr lib (Outputs txOutputsEntry ! i))) (\<lambda>addresses.
              foldO (add_count (so_TxID output) (- 1)) counts addresses)))"

definition deref_tx :: "('key, 'addr) btc_lib \<Rightarrow> (string, tx_outputs) gomap \<Rightarrow>
    (string, (string, int) gomap) gomap \<times> string list \<Rightarrow> bc_transaction \<Rightarrow>
    ((string, (string, int) gomap) gomap \<times> string list) outcome" where
  "deref_tx lib spendingOutputs = (\<lambda>(counts, txIDsFromCurrentBlock) tx.
     let ids = bt_ID tx # txIDsFromCurrentBlock in
     bindO (foldO (deref_input lib spendingOutputs ids) counts (bt_VIn tx)) (\<lambda>counts.
     Ok (counts, ids)))"

definition derefAddresses :: "('key, 'addr) btc_lib \<Rightarrow> (string, tx_outputs) gomap \<Rightarrow> block \<Rightarrow>
    (string, string list) gomap outcome" where
  "derefAddresses lib spendingOutputs newBlock =
     bindO (countAddressOutputs lib spendingOutputs) (\<lambda>counts.
     bindO (foldO (deref_tx lib spendingOutputs) (counts, []) (bk_Transactions newBlock)) (\<lambda>(counts, _).
     Ok (key_lists (List.map (\<lambda>(address, txOuputs).
           (address, gokeys (filter (\<lambda>(txID, outputsCount). outputsCount = 0) txOuputs))) counts))))"

section \<open>Reading the store\<close>

definition extract_input :: "'w utxo_reads \<Rightarrow> string list \<Rightarrow> (string, tx_outputs) gomap \<Rightarrow> bc_input \<Rightarrow>
    ('w, (string, tx_outputs) gomap) st" where
  "extract_input store txIDsFromCurrentBlock outputs input =
     (case bi_SpendingOutput input of
        None \<Rightarrow> retS outputs
      | Some so \<Rightarrow>
          bindS (tryS (rd_GetOutputsByTxID store (so_TxID so))) (\<lambda>res.
          case res of
            Inl err \<Rightarrow>
              if errors_is err ErrNotFound \<and> so_TxID so \<in> set txIDsFromCurrentBlock then retS outputs
              else failS (Wrap ''get tx outputs error'' err)
          | Inr spendingOutputs \<Rightarrow> retS (AList.update (so_TxID so) spendingOutputs outputs)))"

definition extract_tx :: "'w utxo_reads \<Rightarrow> (string, tx_outputs) gomap \<times> string list \<Rightarrow> bc_transaction \<Rightarrow>
    ('w, (string, tx_outputs) gomap \<times> string list) st" where
  "extract_tx store = (\<lambda>(outputs, txIDsFromCurrentBlock) tx.
     let ids = bt_ID tx # txIDsFromCurrentBlock in
     bindS (foldS (extract_input store ids) outputs (bt_VIn tx)) (\<lambda>outputs.
     retS (outputs, ids)))"

definition extractSpendingOutputsFromBlock ::
  "'w utxo_reads \<Rightarrow> block \<Rightarrow> ('w, (string, tx_outputs) gomap) st" where
  "extractSpendingOutputsFromBlock store newBlock =
     bindS (foldS (extract_tx store) ([], []) (bk_Transactions newBlock)) (\<lambda>(outputs, _). retS outputs)"

section \<open>The checkpoint of the next block\<close>

text \<open>The stored block, when there is one, with the guards on its height.\<close>

definition previous_block :: "'w utxo_reads \<Rightarrow> block \<Rightarrow> ('w, checkpoint_block option) st" where
  "previous_block store newBlock =
     bindS (tryS (rd_GetBlockHash store)) (\<lambda>res.
     case res of
       Inl err \<Rightarrow>
         if \<not> errors_is err ErrBlockHashNotFound
         then failS (Wrap ''failed to get current block hash'' err) else retS None
     | Inr currentHash \<Rightarrow>
         bindS (wrapS ''failed to get current block height'' (rd_GetBlockHeight store)) (\<lambda>currentHeight.
         if bh_Height newBlock = currentHeight then failS ErrNoDiff
         else if wrap64 (currentHeight + 1) \<noteq> bh_Height newBlock then failS ErrNextBlockTooFar
         else retS (Some \<lparr>cb_Height = currentHeight, cb_Hash = currentHash\<rparr>)))"

definition NewCheckpointFromNextBlock :: "('key, 'addr) btc_lib \<Rightarrow> int \<Rightarrow> 'w utxo_reads \<Rightarrow> block \<Rightarrow>
    ('w, checkpoint) st" where
  "NewCheckpointFromNextBlock lib decimals store newBlock =
     bindS (previous_block store newBlock) (\<lambda>prevBlock.
     let newBlockPoint = \<lparr>cb_Height = bh_Height newBlock, cb_Hash = hash_String (bh_Hash newBlock)\<rparr> in
     if prevBlock = None
     then retS (NewUTXOSpendingCheckpoint None (Some newBlockPoint) [] [] [] [])
     else
       bindS (extractSpendingOutputsFromBlock store newBlock) (\<lambda>spendingOutputs.
       bindS (liftO (derefAddresses lib spendingOutputs newBlock)) (\<lambda>dereferencedAddresses.
       bindS (liftO (spendAllOutputs_of_block lib decimals spendingOutputs newBlock)) (\<lambda>newTxOutputs.
       bindS (liftO (extractAddressReferencesFromOutputs lib decimals newBlock)) (\<lambda>newAddreessReferences.
       retS (NewUTXOSpendingCheckpoint prevBlock (Some newBlockPoint) spendingOutputs
         dereferencedAddresses newTxOutputs newAddreessReferences))))))"

end
