(* ===== verification/Spending_Correct.thy ===== *)
theory Spending_Correct
  imports Utxo_Spending Utxo_Recovery
begin

text \<open>
  What a checkpoint computed from a block does to the set of unspent outputs and to the address index.
  The abstract state is the UTXO set: an output at a transaction and an index, with the height of its
  transaction. \<open>apply_block\<close> is its update by a block, written without maps of entries, copies or
  error paths; the lemmas show that the commands of the checkpoint refine it, and that the index stays
  complete.
\<close>

section \<open>The UTXO set\<close>

type_synonym utxo_set = "string \<times> nat \<rightharpoonup> int \<times> tx_output"

definition entries_utxo :: "(string \<rightharpoonup> tx_outputs) \<Rightarrow> utxo_set" where
  "entries_utxo es = (\<lambda>(t, i).
     case es t of
       None \<Rightarrow> None
     | Some e \<Rightarrow> if i < length (Outputs e) then map_option (Pair (BlockHeight e)) (Outputs e ! i) else None)"

definition stored_entry :: "string \<Rightarrow> kstate \<Rightarrow> string \<Rightarrow> tx_outputs option" where
  "stored_entry v m t = (case m (tx_key v t) of Some (Val (VOutputs e)) \<Rightarrow> Some e | _ \<Rightarrow> None)"

definition utxo :: "string \<Rightarrow> kstate \<Rightarrow> utxo_set" where
  "utxo v m = entries_utxo (stored_entry v m)"

definition script_bytes :: "bc_output \<Rightarrow> bytes" where
  "script_bytes o1 = (case bo_ScriptPubKey o1 of
     None \<Rightarrow> [] | Some spk \<Rightarrow> (case hex_DecodeString (spk_HEX spk) of Ok b \<Rightarrow> b | _ \<Rightarrow> []))"

definition created_output :: "('key, 'addr) btc_lib \<Rightarrow> int \<Rightarrow> bc_output \<Rightarrow> tx_output option" where
  "created_output lib decimals o1 =
     (if IsSpendable lib o1
      then Some \<lparr>CompressedScript = compress_script (btc_ec lib) (script_bytes o1),
                 CompressedAmount = Utxo_CompressTxOutAmount
                   (case bo_Value o1 of None \<Rightarrow> 0 | Some a \<Rightarrow> AmountValue_Uint64 a decimals)\<rparr>
      else None)"

definition spent_coord :: "bc_input \<Rightarrow> (string \<times> nat) option" where
  "spent_coord input = map_option (\<lambda>so. (so_TxID so, nat (so_VOut so))) (bi_SpendingOutput input)"

definition remove_spent :: "utxo_set \<Rightarrow> bc_input \<Rightarrow> utxo_set" where
  "remove_spent u input = (case spent_coord input of None \<Rightarrow> u | Some c \<Rightarrow> u(c := None))"

definition add_created :: "('key, 'addr) btc_lib \<Rightarrow> int \<Rightarrow> int \<Rightarrow> bc_transaction \<Rightarrow> utxo_set \<Rightarrow> utxo_set" where
  "add_created lib decimals h tx u = (\<lambda>(t, i).
     if t = bt_ID tx
     then (if i < length (bt_VOut tx) then map_option (Pair h) (created_output lib decimals (bt_VOut tx ! i)) else None)
     else u (t, i))"

definition apply_tx :: "('key, 'addr) btc_lib \<Rightarrow> int \<Rightarrow> int \<Rightarrow> utxo_set \<Rightarrow> bc_transaction \<Rightarrow> utxo_set" where
  "apply_tx lib decimals h u tx = foldl remove_spent (add_created lib decimals h tx u) (bt_VIn tx)"

definition apply_block :: "('key, 'addr) btc_lib \<Rightarrow> int \<Rightarrow> block \<Rightarrow> utxo_set \<Rightarrow> utxo_set" where
  "apply_block lib decimals b u = foldl (apply_tx lib decimals (bh_Height b)) u (bk_Transactions b)"

section \<open>Refinement\<close>

lemma mapO_Ok: "(\<And>x. x \<in> set xs \<Longrightarrow> f x = Ok (g x)) \<Longrightarrow> mapO f xs = Ok (List.map g xs)"
  by (induction xs) auto

lemma spendable_output_eq: "spendable_output lib d o1 = Ok (created_output lib d o1)"
  by (auto simp: spendable_output_def created_output_def IsSpendable_def script_bytes_def SetScriptBytes_eq
      SetAmount_def split: option.splits outcome.splits)

lemma getAllSpendableOutputs_eq:
  "getAllSpendableOutputs lib d tx = Ok (List.map (created_output lib d) (bt_VOut tx))"
  unfolding getAllSpendableOutputs_def by (rule mapO_Ok) (rule spendable_output_eq)

lemma vout_index_Ok: "vout_index os n = Ok i \<longleftrightarrow> 0 \<le> n \<and> n < int (length os) \<and> i = nat n \<and> int (length os) \<ge> wrap64 (n + 1)"
  by (auto simp: vout_index_def)

lemma spend_input_cases:
  assumes "spend_input n inp = Ok n'"
  obtains (coinbase) "bi_SpendingOutput inp = None" "n' = n"
    | (spent) so e where "bi_SpendingOutput inp = Some so" "map_of n (so_TxID so) = Some e"
        "nat (so_VOut so) < length (Outputs e)"
        "n' = AList.update (so_TxID so) (e\<lparr>Outputs := (Outputs e)[nat (so_VOut so) := None]\<rparr>) n"
  using assms by (auto simp: spend_input_def vout_index_Ok bindO_Ok_iff split: option.splits)

lemma entries_utxo_erase:
  assumes "f t = Some e" and "i < length (Outputs e)"
  shows "entries_utxo (f(t \<mapsto> e\<lparr>Outputs := (Outputs e)[i := None]\<rparr>)) = (entries_utxo f)((t, i) := None)"
  using assms by (auto simp: entries_utxo_def fun_eq_iff nth_list_update)

lemma spend_input_refines:
  assumes "spend_input n inp = Ok n'"
  shows "entries_utxo (es ++ map_of n') = remove_spent (entries_utxo (es ++ map_of n)) inp"
  using assms
proof (cases rule: spend_input_cases)
  case (spent so e)
  have "(es ++ map_of n) (so_TxID so) = Some e" using spent(2) by (simp add: map_add_def)
  from entries_utxo_erase [of "es ++ map_of n", OF this spent(3)] spent(1,4)
  show ?thesis by (simp add: remove_spent_def spent_coord_def)
qed (simp add: remove_spent_def spent_coord_def)

lemma spend_input_dom:
  assumes "spend_input n inp = Ok n'"
  shows "(gomap_wf n \<longrightarrow> gomap_wf n') \<and> dom (map_of n') = dom (map_of n) \<and>
    (\<forall>c. spent_coord inp = Some c \<longrightarrow> fst c \<in> dom (map_of n))"
  using assms by (cases rule: spend_input_cases) (auto simp: spent_coord_def)

lemma spend_inputs_refine:
  assumes "foldO spend_input n inps = Ok n'"
  shows "entries_utxo (es ++ map_of n') = foldl remove_spent (entries_utxo (es ++ map_of n)) inps \<and>
    (gomap_wf n \<longrightarrow> gomap_wf n') \<and> dom (map_of n') = dom (map_of n) \<and>
    (\<forall>inp \<in> set inps. \<forall>c. spent_coord inp = Some c \<longrightarrow> fst c \<in> dom (map_of n))"
  using assms
proof (induction inps arbitrary: n)
  case (Cons inp inps)
  then obtain k where k: "spend_input n inp = Ok k" "foldO spend_input k inps = Ok n'"
    by (auto simp: bindO_Ok_iff)
  from Cons.IH [OF k(2)] spend_input_refines [OF k(1)] spend_input_dom [OF k(1)] show ?case by auto
qed simp

lemma spend_tx_refines:
  assumes "spend_tx lib d h n tx = Ok n'"
  shows "entries_utxo (es ++ map_of n') = apply_tx lib d h (entries_utxo (es ++ map_of n)) tx \<and>
    (gomap_wf n \<longrightarrow> gomap_wf n') \<and> dom (map_of n') = insert (bt_ID tx) (dom (map_of n)) \<and>
    (\<forall>inp \<in> set (bt_VIn tx). \<forall>c. spent_coord inp = Some c \<longrightarrow> fst c \<in> insert (bt_ID tx) (dom (map_of n)))"
proof -
  let ?e = "\<lparr>BlockHeight = h, Outputs = List.map (created_output lib d) (bt_VOut tx)\<rparr>"
  have "foldO spend_input (AList.update (bt_ID tx) ?e n) (bt_VIn tx) = Ok n'"
    using assms by (simp add: spend_tx_def getAllSpendableOutputs_eq)
  from spend_inputs_refine [OF this, of es]
  have "entries_utxo (es ++ map_of n') =
      foldl remove_spent (entries_utxo ((es ++ map_of n)(bt_ID tx \<mapsto> ?e))) (bt_VIn tx)"
    and d: "gomap_wf n \<longrightarrow> gomap_wf n'" "dom (map_of n') = insert (bt_ID tx) (dom (map_of n))"
     "\<forall>inp \<in> set (bt_VIn tx). \<forall>c. spent_coord inp = Some c \<longrightarrow> fst c \<in> insert (bt_ID tx) (dom (map_of n))"
    by simp_all
  moreover have "entries_utxo ((es ++ map_of n)(bt_ID tx \<mapsto> ?e)) = add_created lib d h tx (entries_utxo (es ++ map_of n))"
    by (auto simp: entries_utxo_def add_created_def fun_eq_iff)
  ultimately show ?thesis by (simp add: apply_tx_def)
qed

lemma spend_txs_refine:
  assumes "foldO (spend_tx lib d h) n txs = Ok n'"
  shows "entries_utxo (es ++ map_of n') = foldl (apply_tx lib d h) (entries_utxo (es ++ map_of n)) txs \<and>
    (gomap_wf n \<longrightarrow> gomap_wf n') \<and> dom (map_of n') = dom (map_of n) \<union> bt_ID ` set txs \<and>
    (\<forall>tx \<in> set txs. \<forall>inp \<in> set (bt_VIn tx). \<forall>c. spent_coord inp = Some c \<longrightarrow>
       fst c \<in> dom (map_of n) \<union> bt_ID ` set txs)"
  using assms
proof (induction txs arbitrary: n)
  case (Cons tx txs)
  then obtain k where k: "spend_tx lib d h n tx = Ok k" "foldO (spend_tx lib d h) k txs = Ok n'"
    by (auto simp: bindO_Ok_iff)
  from Cons.IH [OF k(2)] spend_tx_refines [OF k(1), of es] show ?case by auto
qed simp

lemma stored_entry_up:
  assumes "gomap_wf (NewTxOutputs cp)" and "\<And>a. holds_set m (addr_key v a)"
  shows "utxo v (run (up_cmds v nb cp) m) = entries_utxo (stored_entry v m ++ map_of (NewTxOutputs cp))"
proof -
  note u = up_lookup [OF assms]
  have "entries_utxo (stored_entry v (run (up_cmds v nb cp) m)) (t, i) =
      entries_utxo (stored_entry v m ++ map_of (NewTxOutputs cp)) (t, i)" for t i
  proof (cases "map_of (NewTxOutputs cp) t")
    case None
    then show ?thesis using u(6) [of t nb]
      by (simp add: entries_utxo_def stored_entry_def map_add_def map_of_eq_None_iff [THEN iffD1])
  next
    case (Some e)
    have "isAllSpent (Outputs e) \<Longrightarrow> i < length (Outputs e) \<Longrightarrow> Outputs e ! i = None"
      by (metis isAllSpent_iff nth_mem singletonD subsetD)
    with Some show ?thesis using u(5) [of t e nb]
      by (auto simp: entries_utxo_def stored_entry_def map_add_def map_of_SomeD)
  qed
  then show ?thesis by (auto simp: utxo_def fun_eq_iff)
qed

section \<open>Reading the store\<close>

text \<open>
  The laws of the read methods the checkpoint is computed from: they change nothing, an entry that
  is there is returned, and not found means it is not there. Any read may fail.
\<close>

locale utxo_reads_laws =
  fixes R :: "'w utxo_reads" and ks :: "'w \<Rightarrow> kstate" and ck :: "'w \<Rightarrow> 'r" and v :: string
  assumes Outputs_obs: "obs ks ck (rd_GetOutputsByTxID R t) m
      (\<lambda>e. m (tx_key v t) \<noteq> None \<and> (\<forall>e'. m (tx_key v t) = Some (Val (VOutputs e')) \<longrightarrow> e = e'))
      (\<lambda>e. errors_is e ErrNotFound \<longrightarrow> m (tx_key v t) = None)"
    and Hash_obs: "obs ks ck (rd_GetBlockHash R) m
      (\<lambda>h. \<forall>s. m (hash_key v) = Some (Val (VString s)) \<longrightarrow> h = s)
      (\<lambda>e. errors_is e ErrBlockHashNotFound \<longrightarrow> m (hash_key v) = None)"
    and Height_obs: "obs ks ck (rd_GetBlockHeight R) m
      (\<lambda>h. \<forall>n. m (height_key v) = Some (Val (VInt64 n)) \<longrightarrow> h = n) (\<lambda>_. True)"

lemma obs_foldS:
  assumes "\<And>s x. x \<in> set xs \<Longrightarrow> I s \<Longrightarrow> obs ks ck (f s x) m I E" and "I s"
  shows "obs ks ck (foldS f s xs) m I E"
  using assms
proof (induction xs arbitrary: s)
  case (Cons x xs)
  then show ?case by (auto intro!: obs_bind [where P = I])
qed (simp add: obs_ret)

text \<open>Every transaction key holds an entry of outputs.\<close>

definition outputs_typed :: "string \<Rightarrow> kstate \<Rightarrow> bool" where
  "outputs_typed v m \<longleftrightarrow> (\<forall>t. m (tx_key v t) = None \<or> (\<exists>e. m (tx_key v t) = Some (Val (VOutputs e))))"

text \<open>The transactions read from the store, as they are there.\<close>

definition fetched :: "string \<Rightarrow> kstate \<Rightarrow> (string, tx_outputs) gomap \<Rightarrow> bool" where
  "fetched v m sp \<longleftrightarrow> gomap_wf sp \<and> (\<forall>t e. map_of sp t = Some e \<longrightarrow> m (tx_key v t) = Some (Val (VOutputs e)))"

lemma fetched_overlay: "fetched v m sp \<Longrightarrow> stored_entry v m ++ map_of sp = stored_entry v m"
  by (auto simp: fetched_def stored_entry_def map_add_def fun_eq_iff split: option.splits)

context utxo_reads_laws
begin

lemma extract_input_obs:
  assumes "outputs_typed v m" and "fetched v m sp"
  shows "obs ks ck (extract_input R ids sp inp) m (fetched v m) (\<lambda>_. True)"
proof (cases "bi_SpendingOutput inp")
  case (Some so)
  let ?P = "\<lambda>res. \<forall>e. res = Inr e \<longrightarrow> m (tx_key v (so_TxID so)) = Some (Val (VOutputs e))"
  have "obs ks ck (tryS (rd_GetOutputsByTxID R (so_TxID so))) m ?P (\<lambda>_. True)"
    using assms(1) unfolding outputs_typed_def
    by (intro obs_try obs_weaken [OF Outputs_obs]) (simp_all, metis option.distinct(1))
  then show ?thesis unfolding extract_input_def Some option.case
    by (rule obs_bind) (use assms(2) in \<open>auto simp: fetched_def intro: obs_ret obs_fail split: sum.splits\<close>)
qed (simp add: extract_input_def obs_ret assms(2))

lemma extract_obs:
  assumes "outputs_typed v m"
  shows "obs ks ck (extractSpendingOutputsFromBlock R b) m (fetched v m) (\<lambda>_. True)"
proof -
  have "obs ks ck (foldS (extract_tx R) ([], []) (bk_Transactions b)) m (\<lambda>(sp, _). fetched v m sp) (\<lambda>_. True)"
    by (rule obs_foldS)
      (auto simp: extract_tx_def Let_def fetched_def [of v m "[]"] intro!: obs_bind [where P = "fetched v m"] obs_foldS
        extract_input_obs assms obs_ret)
  then show ?thesis unfolding extractSpendingOutputsFromBlock_def
    by (rule obs_bind) (auto intro: obs_ret)
qed

text \<open>The block the checkpoint records as the previous one.\<close>

lemma previous_block_obs:
  "obs ks ck (previous_block R b) m
     (\<lambda>p. (p = None \<longrightarrow> m (hash_key v) = None) \<and>
        (\<forall>pb. p = Some pb \<longrightarrow> cb_Height pb \<noteq> bh_Height b \<and> wrap64 (cb_Height pb + 1) = bh_Height b \<and>
           (\<forall>s. m (hash_key v) = Some (Val (VString s)) \<longrightarrow> cb_Hash pb = s) \<and>
           (\<forall>n. m (height_key v) = Some (Val (VInt64 n)) \<longrightarrow> cb_Height pb = n))) (\<lambda>_. True)"
  unfolding previous_block_def
  by (rule obs_bind [OF obs_try [where Q = "\<lambda>res. case res of
        Inl e \<Rightarrow> errors_is e ErrBlockHashNotFound \<longrightarrow> m (hash_key v) = None
      | Inr h \<Rightarrow> \<forall>s. m (hash_key v) = Some (Val (VString s)) \<longrightarrow> h = s"]])
    (auto intro!: obs_ret obs_fail obs_weaken [OF Hash_obs] obs_bind [OF obs_wrap [OF Height_obs]] split: sum.splits)

end

section \<open>The store provides these reads\<close>

definition store_reads :: "('w, 'tx) utxo_store \<Rightarrow> 'w store_state utxo_reads" where
  "store_reads u = \<lparr>rd_GetOutputsByTxID = GetOutputsByTxID u, rd_GetBlockHeight = GetBlockHeight u,
     rd_GetBlockHash = GetBlockHash u\<rparr>"

text \<open>An exported operation observes what the operation behind its guard observes.\<close>

lemma obs_guarded:
  assumes "obs ks ck f m Q E" and "E ErrInconsistenceState"
  shows "obs (\<lambda>s. ks (world s)) (\<lambda>s. (ck (world s), isConsist s)) (guarded (on_world f)) m Q E"
proof (rule obsI)
  fix s r s'
  assume m: "ks (world s) = m" and g: "guarded (on_world f) s = (r, s')"
  obtain q w' where f: "f (world s) = (q, w')" by fastforce
  note o = obsD [OF assms(1) m f]
  show "ks (world s') = ks (world s) \<and> (ck (world s'), isConsist s') = (ck (world s), isConsist s) \<and> r \<noteq> Panic \<and>
    (\<forall>a. r = Ok a \<longrightarrow> Q a) \<and> (\<forall>e. r = Err e \<longrightarrow> E e)"
    using g f o assms(2) by (auto simp: guarded_def on_world_def split: if_splits)
qed

context utxo_backend
begin

lemma getBlockHash_missing:
  "obs ks ck (getBlockHash (base U)) m
     (\<lambda>h. \<forall>s. m (hash_key (us_dbVer U)) = Some (Val (VString s)) \<longrightarrow> h = s)
     (\<lambda>e. errors_is e ErrBlockHashNotFound \<longrightarrow> m (hash_key (us_dbVer U)) = None)"
  unfolding getBlockHash_def base_sel
  by (rule obs_bind [OF obs_wrap [OF obs_weaken [OF Get_obs]]])
    (auto intro!: obs_ret obs_fail simp: foreign_def split: option.splits)

lemma store_reads_laws:
  "utxo_reads_laws (store_reads U) (\<lambda>s. ks (world s)) (\<lambda>s. (ck (world s), isConsist s)) (us_dbVer U)"
  unfolding store_reads_def GetOutputsByTxID_def GetBlockHash_def GetBlockHeight_def
  by unfold_locales
    (auto intro!: obs_guarded getOutputs_obs getBlockHash_missing getBlockHeight_obs simp del: not_None_eq)

end

sublocale utxo_backend \<subseteq> reads: utxo_reads_laws "store_reads U" "\<lambda>s. ks (world s)"
  "\<lambda>s. (ck (world s), isConsist s)" "us_dbVer U"
  by (rule store_reads_laws)

end
