(* ===== verification/Address_Index.thy ===== *)
theory Address_Index
  imports Spending_Correct
begin

text \<open>
  The address index of the store under a block: the references a checkpoint adds, the references it
  removes, and the invariant they keep, that every unspent output can be found through its addresses.
\<close>

section \<open>Maps of maps\<close>

definition nlookup :: "('a, ('b, 'c) gomap) gomap \<Rightarrow> 'a \<Rightarrow> 'b \<Rightarrow> 'c option" where
  "nlookup m a t = (case map_of m a of None \<Rightarrow> None | Some x \<Rightarrow> map_of x t)"

definition nhas :: "('a, ('b, 'c) gomap) gomap \<Rightarrow> 'a \<Rightarrow> 'b \<Rightarrow> bool" where
  "nhas m a t \<longleftrightarrow> nlookup m a t \<noteq> None"

definition nested_wf :: "('a, ('b, 'c) gomap) gomap \<Rightarrow> bool" where
  "nested_wf m \<longleftrightarrow> gomap_wf m \<and> (\<forall>a x. map_of m a = Some x \<longrightarrow> gomap_wf x)"

lemma nlookup_Nil [simp]: "nlookup [] a t = None"
  by (simp add: nlookup_def)

lemma nhas_Nil [simp]: "\<not> nhas [] a t"
  by (simp add: nhas_def)

lemma nested_wf_Nil [simp]: "nested_wf []"
  by (simp add: nested_wf_def)

lemma gomap_wf_single [simp]: "gomap_wf [p]"
  by (simp add: gomap_wf_def gokeys_def)

lemma nested_wf_update: "nested_wf m \<Longrightarrow> gomap_wf x \<Longrightarrow> nested_wf (AList.update a x m)"
  by (simp add: nested_wf_def)

lemma nlookup_update:
  "nlookup (AList.update a x m) b t = (if b = a then map_of x t else nlookup m b t)"
  by (simp add: nlookup_def)

lemma nested_wf_inner: "nested_wf m \<Longrightarrow> map_of m a = Some x \<Longrightarrow> gomap_wf x"
  by (simp add: nested_wf_def)

text \<open>The lists of keys the code makes of a map of maps.\<close>

lemma ids_of_key_lists [simp]: "ids_of (key_lists m) a = ids_of m a"
  by (force simp: ids_of_def key_lists_def)

lemma ids_of_select:
  assumes "nested_wf m"
  shows "t \<in> ids_of (List.map (\<lambda>(a, x). (a, gokeys (filter (\<lambda>(t, n). p n) x))) m) a \<longleftrightarrow>
    (\<exists>n. nlookup m a t = Some n \<and> p n)"
proof -
  have "t \<in> ids_of (List.map (\<lambda>(a, x). (a, gokeys (filter (\<lambda>(t, n). p n) x))) m) a \<longleftrightarrow>
      (\<exists>x n. (a, x) \<in> set m \<and> (t, n) \<in> set x \<and> p n)"
    by (force simp: ids_of_def gokeys_def)
  also have "\<dots> \<longleftrightarrow> (\<exists>x n. map_of m a = Some x \<and> map_of x t = Some n \<and> p n)"
    using assms by (metis gomap_mem_iff nested_wf_def)
  finally show ?thesis by (auto simp: nlookup_def split: option.splits)
qed

section \<open>Addresses of outputs\<close>

definition addrs_of :: "('key, 'addr) btc_lib \<Rightarrow> tx_output \<Rightarrow> string list" where
  "addrs_of lib o1 = (case GetAddresses lib o1 of Ok as \<Rightarrow> as | _ \<Rightarrow> [])"

text \<open>How often an output, and the outputs of an entry, pay to an address.\<close>

definition pay_count :: "('key, 'addr) btc_lib \<Rightarrow> string \<Rightarrow> tx_output option \<Rightarrow> nat" where
  "pay_count lib a p = (case p of None \<Rightarrow> 0 | Some o1 \<Rightarrow> count_list (addrs_of lib o1) a)"

definition pays :: "('key, 'addr) btc_lib \<Rightarrow> utxo_set \<Rightarrow> string \<Rightarrow> string \<Rightarrow> bool" where
  "pays lib u a t \<longleftrightarrow> (\<exists>i h o1. u (t, i) = Some (h, o1) \<and> a \<in> set (addrs_of lib o1))"

lemma pay_count_pos: "0 < pay_count lib a p \<longleftrightarrow> (\<exists>o1. p = Some o1 \<and> a \<in> set (addrs_of lib o1))"
  by (auto simp: pay_count_def count_list_0_iff simp flip: neq0_conv split: option.splits)

section \<open>New references\<close>

lemma add_ref_wf: "nested_wf refs \<Longrightarrow> nested_wf (add_ref t refs a)"
  by (auto simp: add_ref_def Let_def intro!: nested_wf_update dest: nested_wf_inner)

lemma add_ref_lookup:
  "nhas (add_ref t refs a) b s \<longleftrightarrow> nhas refs b s \<or> (b = a \<and> s = t)"
  by (auto simp: add_ref_def Let_def nlookup_def nhas_def)

lemma add_refs:
  "nested_wf refs \<longrightarrow> nested_wf (foldl (add_ref t) refs as)"
  "nhas (foldl (add_ref t) refs as) b s \<longleftrightarrow> nhas refs b s \<or> (b \<in> set as \<and> s = t)"
  by (induction as arbitrary: refs) (auto simp: add_ref_wf add_ref_lookup)

lemma add_output_refs_spec:
  assumes "add_output_refs lib t refs p = Ok refs'"
  shows "(nested_wf refs \<longrightarrow> nested_wf refs') \<and>
    (nhas refs' b s \<longleftrightarrow> nhas refs b s \<or> (s = t \<and> 0 < pay_count lib b p))"
  using assms
  by (auto simp: add_output_refs_def bindO_Ok_iff pay_count_pos addrs_of_def add_refs
      split: option.splits)

lemma foldO_add_output_refs:
  assumes "foldO (add_output_refs lib t) refs ps = Ok refs'"
  shows "(nested_wf refs \<longrightarrow> nested_wf refs') \<and>
    (nhas refs' b s \<longleftrightarrow> nhas refs b s \<or> (s = t \<and> (\<exists>p \<in> set ps. 0 < pay_count lib b p)))"
  using assms
proof (induction ps arbitrary: refs)
  case (Cons p ps)
  then obtain r where r: "add_output_refs lib t refs p = Ok r" "foldO (add_output_refs lib t) r ps = Ok refs'"
    by (auto simp: bindO_Ok_iff)
  from Cons.IH [OF r(2)] add_output_refs_spec [OF r(1), of b s] show ?case by auto
qed simp

text \<open>A transaction that creates an output paying to the address.\<close>

definition creates :: "('key, 'addr) btc_lib \<Rightarrow> int \<Rightarrow> string \<Rightarrow> bc_transaction \<Rightarrow> bool" where
  "creates lib d a tx \<longleftrightarrow> (\<exists>o1 \<in> set (bt_VOut tx). 0 < pay_count lib a (created_output lib d o1))"

lemma foldO_add_tx_refs:
  assumes "foldO (add_tx_refs lib d) refs txs = Ok refs'"
  shows "(nested_wf refs \<longrightarrow> nested_wf refs') \<and>
    (nhas refs' b s \<longleftrightarrow> nhas refs b s \<or> (\<exists>tx \<in> set txs. bt_ID tx = s \<and> creates lib d b tx))"
  using assms
proof (induction txs arbitrary: refs)
  case (Cons tx txs)
  then obtain r where r: "add_tx_refs lib d refs tx = Ok r" "foldO (add_tx_refs lib d) r txs = Ok refs'"
    by (auto simp: bindO_Ok_iff)
  have "foldO (add_output_refs lib (bt_ID tx)) refs (List.map (created_output lib d) (bt_VOut tx)) = Ok r"
    using r(1) by (simp add: add_tx_refs_def getAllSpendableOutputs_eq)
  from Cons.IH [OF r(2)] foldO_add_output_refs [OF this, of b s] show ?case
    by (auto simp: creates_def)
qed simp

lemma new_references:
  assumes "extractAddressReferencesFromOutputs lib d b = Ok refs"
  shows "t \<in> ids_of refs a \<longleftrightarrow> (\<exists>tx \<in> set (bk_Transactions b). bt_ID tx = t \<and> creates lib d a tx)"
proof -
  obtain m where m: "foldO (add_tx_refs lib d) [] (bk_Transactions b) = Ok m"
    and refs: "refs = key_lists (List.map (\<lambda>(addr, txs). (addr, gokeys txs)) m)"
    using assms by (auto simp: extractAddressReferencesFromOutputs_def bindO_Ok_iff)
  note f = foldO_add_tx_refs [OF m, of a t]
  show ?thesis using f ids_of_select [of m t "\<lambda>_. True" a] by (simp add: refs nhas_def)
qed

section \<open>Counting the outputs of an address\<close>

definition num :: "(string, (string, int) gomap) gomap \<Rightarrow> string \<Rightarrow> string \<Rightarrow> int" where
  "num counts a t = (case nlookup counts a t of None \<Rightarrow> 0 | Some n \<Rightarrow> n)"

text \<open>
  \<open>moved counts counts' t f P\<close>: the counters of transaction \<open>t\<close> changed by \<open>f\<close>, and those for
  which \<open>P\<close> holds exist now.
\<close>

definition moved :: "(string, (string, int) gomap) gomap \<Rightarrow> (string, (string, int) gomap) gomap \<Rightarrow>
    (string \<Rightarrow> string \<Rightarrow> int) \<Rightarrow> (string \<Rightarrow> string \<Rightarrow> bool) \<Rightarrow> bool" where
  "moved counts counts' f P \<longleftrightarrow> (nested_wf counts \<longrightarrow> nested_wf counts') \<and>
     (\<forall>b s. num counts' b s = num counts b s + f b s) \<and>
     (\<forall>b s. nhas counts' b s \<longleftrightarrow> nhas counts b s \<or> P b s)"

lemma moved_refl [simp]: "moved counts counts (\<lambda>_ _. 0) (\<lambda>_ _. False)"
  by (simp add: moved_def)

lemma moved_trans:
  "moved c0 c1 f P \<Longrightarrow> moved c1 c2 g Q \<Longrightarrow> moved c0 c2 (\<lambda>b s. f b s + g b s) (\<lambda>b s. P b s \<or> Q b s)"
  by (auto simp: moved_def)

lemma moved_cong:
  "moved c0 c1 f P \<Longrightarrow> (\<And>b s. f b s = g b s) \<Longrightarrow> (\<And>b s. P b s \<longleftrightarrow> Q b s) \<Longrightarrow> moved c0 c1 g Q"
  by (simp add: moved_def)

lemma moved_foldO:
  assumes "foldO F c0 xs = Ok c1" and "\<And>c x c'. x \<in> set xs \<Longrightarrow> F c x = Ok c' \<Longrightarrow> moved c c' (f x) (P x)"
  shows "moved c0 c1 (\<lambda>b s. \<Sum>x \<leftarrow> xs. f x b s) (\<lambda>b s. \<exists>x \<in> set xs. P x b s)"
  using assms
proof (induction xs arbitrary: c0)
  case (Cons x xs)
  then obtain c where c: "F c0 x = Ok c" "foldO F c xs = Ok c1" by (auto simp: bindO_Ok_iff)
  have "moved c c1 (\<lambda>b s. \<Sum>x \<leftarrow> xs. f x b s) (\<lambda>b s. \<exists>x \<in> set xs. P x b s)"
    using Cons.IH [OF c(2)] Cons.prems(2) by simp
  from moved_trans [OF Cons.prems(2) [OF _ c(1)] this] show ?case by (auto intro: moved_cong)
qed simp

lemma add_count_moved:
  assumes "add_count t d counts a = Ok counts'"
  shows "moved counts counts' (\<lambda>b s. if b = a \<and> s = t then d else 0) (\<lambda>b s. b = a \<and> s = t)"
proof -
  obtain m where m: "map_of counts a = Some m"
    and c: "counts' = AList.update a (AList.update t ((case map_of m t of None \<Rightarrow> 0 | Some n \<Rightarrow> n) + d) m) counts"
    using assms by (auto simp: add_count_def split: option.splits)
  have "nested_wf counts \<longrightarrow> nested_wf counts'"
    unfolding c using m by (intro impI nested_wf_update gomap_wf_update) (auto dest: nested_wf_inner)
  moreover have "nlookup counts' b s =
      (if b = a \<and> s = t then Some (num counts b s + d) else nlookup counts b s)" for b s
    using m by (simp add: c nlookup_update num_def) (simp add: nlookup_def)
  ultimately show ?thesis by (auto simp: moved_def num_def nhas_def)
qed

lemma count_address_moved:
  assumes "count_address t counts a = Ok counts'"
  shows "moved counts counts' (\<lambda>b s. if b = a \<and> s = t then 1 else 0) (\<lambda>b s. b = a \<and> s = t)"
proof -
  have "moved counts (if map_of counts a = None then AList.update a [] counts else counts) (\<lambda>_ _. 0) (\<lambda>_ _. False)"
    by (auto simp: moved_def num_def nhas_def nlookup_def intro!: nested_wf_update)
  from moved_trans [OF this add_count_moved] assms show ?thesis
    by (simp add: count_address_def)
qed

lemma count_sum_eq: "(\<Sum>x \<leftarrow> xs. if b = x then d else 0) = (d * int (count_list xs b) :: int)"
  by (induction xs) (auto simp: algebra_simps)

lemma add_counts_moved:
  assumes "foldO (add_count t d) counts as = Ok counts'"
  shows "moved counts counts' (\<lambda>b s. if s = t then d * int (count_list as b) else 0) (\<lambda>b s. s = t \<and> b \<in> set as)"
  using moved_foldO [OF assms add_count_moved] by (rule moved_cong) (auto simp: count_sum_eq)

lemma count_output_moved:
  assumes "count_output lib t counts p = Ok counts'"
  shows "moved counts counts' (\<lambda>b s. if s = t then int (pay_count lib b p) else 0)
    (\<lambda>b s. s = t \<and> 0 < pay_count lib b p)"
proof (cases p)
  case (Some o1)
  with assms obtain as where as: "GetAddresses lib o1 = Ok as" "foldO (count_address t) counts as = Ok counts'"
    by (auto simp: count_output_def bindO_Ok_iff)
  from moved_foldO [OF as(2) count_address_moved] show ?thesis
    by (rule moved_cong) (use as(1) Some in \<open>auto simp: count_sum_eq pay_count_def addrs_of_def count_list_0_iff simp flip: neq0_conv\<close>)
qed (use assms in \<open>simp add: count_output_def pay_count_def [of lib _ None] moved_def\<close>)

text \<open>The number of unspent outputs of an entry that pay to an address.\<close>

definition entry_count :: "('key, 'addr) btc_lib \<Rightarrow> string \<Rightarrow> tx_outputs \<Rightarrow> int" where
  "entry_count lib a e = (\<Sum>p \<leftarrow> Outputs e. int (pay_count lib a p))"

lemma count_entry_moved:
  assumes "foldO (count_output lib t) counts (Outputs e) = Ok counts'"
  shows "moved counts counts' (\<lambda>b s. if s = t then entry_count lib b e else 0)
    (\<lambda>b s. s = t \<and> (\<exists>p \<in> set (Outputs e). 0 < pay_count lib b p))"
  using moved_foldO [OF assms count_output_moved] by (rule moved_cong) (auto simp: entry_count_def sum_list_0)

lemma sum_over_map:
  "gomap_wf sp \<Longrightarrow> (\<Sum>p \<leftarrow> sp. if s = fst p then f (snd p) else (0 :: int)) =
     (case map_of sp s of None \<Rightarrow> 0 | Some e \<Rightarrow> f e)"
proof (induction sp)
  case (Cons p sp)
  have "gomap_wf sp" using Cons.prems by (simp add: gomap_wf_def gokeys_def)
  moreover have "map_of sp (fst p) = None"
    using Cons.prems by (simp add: gomap_wf_def gokeys_def map_of_eq_None_iff)
  ultimately show ?case using Cons.IH by (cases p) auto
qed simp

lemma countAddressOutputs_spec:
  assumes "countAddressOutputs lib sp = Ok counts" and "gomap_wf sp"
  shows "nested_wf counts"
    and "num counts a t = (case map_of sp t of None \<Rightarrow> 0 | Some e \<Rightarrow> entry_count lib a e)"
    and "nhas counts a t \<longleftrightarrow> (\<exists>e. map_of sp t = Some e \<and> (\<exists>p \<in> set (Outputs e). 0 < pay_count lib a p))"
proof -
  have "moved [] counts (\<lambda>b s. \<Sum>p \<leftarrow> sp. if s = fst p then entry_count lib b (snd p) else 0)
      (\<lambda>b s. \<exists>p \<in> set sp. s = fst p \<and> (\<exists>q \<in> set (Outputs (snd p)). 0 < pay_count lib b q))"
    by (rule moved_foldO [OF assms(1) [unfolded countAddressOutputs_def]])
      (clarify, unfold split fst_conv snd_conv, rule count_entry_moved)
  then have "nested_wf counts \<and> num counts a t = (\<Sum>p \<leftarrow> sp. if t = fst p then entry_count lib a (snd p) else 0) \<and>
      (nhas counts a t \<longleftrightarrow> (\<exists>p \<in> set sp. t = fst p \<and> (\<exists>q \<in> set (Outputs (snd p)). 0 < pay_count lib a q)))"
    by (simp add: moved_def num_def [of "[]"])
  moreover have "(\<exists>p \<in> set sp. t = fst p \<and> Q (snd p)) \<longleftrightarrow> (\<exists>e. map_of sp t = Some e \<and> Q e)" for Q
    using assms(2) by (force simp flip: gomap_mem_iff)
  ultimately show "nested_wf counts"
    "num counts a t = (case map_of sp t of None \<Rightarrow> 0 | Some e \<Rightarrow> entry_count lib a e)"
    "nhas counts a t \<longleftrightarrow> (\<exists>e. map_of sp t = Some e \<and> (\<exists>p \<in> set (Outputs e). 0 < pay_count lib a p))"
    by (simp_all add: sum_over_map [OF assms(2), of t "entry_count lib a"])
qed

section \<open>Dereferenced addresses\<close>

definition block_inputs :: "bc_transaction list \<Rightarrow> bc_input list" where
  "block_inputs txs = concat (List.map bt_VIn txs)"

definition block_coords :: "bc_transaction list \<Rightarrow> (string \<times> nat) list" where
  "block_coords txs = List.map_filter spent_coord (block_inputs txs)"

text \<open>How often the fetched output at a coordinate pays to an address.\<close>

definition coord_count :: "('key, 'addr) btc_lib \<Rightarrow> (string, tx_outputs) gomap \<Rightarrow> string \<Rightarrow> string \<Rightarrow> string \<times> nat \<Rightarrow> nat" where
  "coord_count lib sp a s c = (if fst c = s then
     (case map_of sp s of None \<Rightarrow> 0 | Some e \<Rightarrow> pay_count lib a (Outputs e ! snd c)) else 0)"

definition in_count :: "('key, 'addr) btc_lib \<Rightarrow> (string, tx_outputs) gomap \<Rightarrow> string \<Rightarrow> string \<Rightarrow> bc_input \<Rightarrow> nat" where
  "in_count lib sp a s inp = (case spent_coord inp of None \<Rightarrow> 0 | Some c \<Rightarrow> coord_count lib sp a s c)"

lemma deref_input_moved:
  assumes "deref_input lib sp ids counts inp = Ok counts'" and "dom (map_of sp) \<inter> set ids = {}"
  shows "moved counts counts' (\<lambda>b s. - int (in_count lib sp b s inp)) (\<lambda>b s. 0 < in_count lib sp b s inp)"
    and "\<forall>t i e. spent_coord inp = Some (t, i) \<longrightarrow> map_of sp t = Some e \<longrightarrow> i < length (Outputs e)"
proof -
  consider (coinbase) "bi_SpendingOutput inp = None" "counts' = counts"
    | (skip) so where "bi_SpendingOutput inp = Some so" "so_TxID so \<in> set ids" "counts' = counts"
    | (spend) so e as where "bi_SpendingOutput inp = Some so" "map_of sp (so_TxID so) = Some e"
        "nat (so_VOut so) < length (Outputs e)" "GetAddresses_ptr lib (Outputs e ! nat (so_VOut so)) = Ok as"
        "foldO (add_count (so_TxID so) (- 1)) counts as = Ok counts'"
    using assms(1) by (auto simp: deref_input_def vout_index_Ok bindO_Ok_iff split: option.splits if_splits)
  then have "moved counts counts' (\<lambda>b s. - int (in_count lib sp b s inp)) (\<lambda>b s. 0 < in_count lib sp b s inp) \<and>
    (\<forall>t i e. spent_coord inp = Some (t, i) \<longrightarrow> map_of sp t = Some e \<longrightarrow> i < length (Outputs e))"
  proof cases
    case coinbase
    then show ?thesis by (simp add: in_count_def spent_coord_def)
  next
    case skip
    then have "map_of sp (so_TxID so) = None" using assms(2) by auto
    with skip have "in_count lib sp b s inp = 0" for b s
      by (auto simp: in_count_def spent_coord_def coord_count_def)
    then show ?thesis using skip \<open>map_of sp _ = None\<close> by (simp add: spent_coord_def)
  next
    case spend
    have "in_count lib sp b s inp = (if s = so_TxID so then count_list as b else 0)" for b s
      using spend(1,2,4) by (auto simp: in_count_def spent_coord_def coord_count_def pay_count_def
          GetAddresses_ptr_def addrs_of_def split: option.splits)
    moreover have "0 < count_list as b \<longleftrightarrow> b \<in> set as" for b
      by (simp add: count_list_0_iff flip: neq0_conv)
    ultimately show ?thesis
      using moved_cong [OF add_counts_moved [OF spend(5)]] spend(1-3) by (auto simp: spent_coord_def)
  qed
  then show "moved counts counts' (\<lambda>b s. - int (in_count lib sp b s inp)) (\<lambda>b s. 0 < in_count lib sp b s inp)"
    and "\<forall>t i e. spent_coord inp = Some (t, i) \<longrightarrow> map_of sp t = Some e \<longrightarrow> i < length (Outputs e)"
    by blast+
qed

lemma foldO_pair: "foldO f s xs = Ok s' \<Longrightarrow> (\<And>s x s'. x \<in> set xs \<Longrightarrow> f s x = Ok s' \<Longrightarrow> Q x) \<Longrightarrow> \<forall>x \<in> set xs. Q x"
  by (induction xs arbitrary: s) (auto simp: bindO_Ok_iff)

lemma deref_txs_moved:
  assumes "foldO (deref_tx lib sp) (counts, ids) txs = Ok (counts', ids')"
    and "dom (map_of sp) \<inter> (set ids \<union> bt_ID ` set txs) = {}"
  shows "moved counts counts' (\<lambda>b s. - (\<Sum>inp \<leftarrow> block_inputs txs. int (in_count lib sp b s inp)))
      (\<lambda>b s. \<exists>inp \<in> set (block_inputs txs). 0 < in_count lib sp b s inp) \<and>
    (\<forall>(t, i) \<in> set (block_coords txs). \<forall>e. map_of sp t = Some e \<longrightarrow> i < length (Outputs e))"
  using assms
proof (induction txs arbitrary: counts ids)
  case (Cons tx txs)
  let ?ids = "bt_ID tx # ids"
  obtain c where c: "foldO (deref_input lib sp ?ids) counts (bt_VIn tx) = Ok c"
    and r: "foldO (deref_tx lib sp) (c, ?ids) txs = Ok (counts', ids')"
    using Cons.prems(1) by (auto simp: deref_tx_def Let_def bindO_Ok_iff)
  have d: "dom (map_of sp) \<inter> set ?ids = {}" using Cons.prems(2) by auto
  note 1 = moved_foldO [OF c deref_input_moved(1), OF _ d]
  have 2: "\<forall>inp \<in> set (bt_VIn tx). \<forall>t i e. spent_coord inp = Some (t, i) \<longrightarrow> map_of sp t = Some e \<longrightarrow> i < length (Outputs e)"
    by (rule foldO_pair [OF c deref_input_moved(2) [OF _ d]])
  have 3: "dom (map_of sp) \<inter> (set ?ids \<union> bt_ID ` set txs) = {}" using Cons.prems(2) by auto
  note 4 = Cons.IH [OF r 3]
  have "moved counts counts' (\<lambda>b s. - (\<Sum>inp \<leftarrow> block_inputs (tx # txs). int (in_count lib sp b s inp)))
      (\<lambda>b s. \<exists>inp \<in> set (block_inputs (tx # txs)). 0 < in_count lib sp b s inp)"
    by (rule moved_cong [OF moved_trans [OF 1 conjunct1 [OF 4]]])
      (auto simp: block_inputs_def uminus_sum_list_map o_def)
  moreover have "\<forall>(t, i) \<in> set (block_coords (tx # txs)). \<forall>e. map_of sp t = Some e \<longrightarrow> i < length (Outputs e)"
    using 2 conjunct2 [OF 4] by (auto simp: block_coords_def block_inputs_def map_filter_def)
  ultimately show ?case by blast
qed (simp add: block_inputs_def block_coords_def)

lemma sum_map_filter: "(\<Sum>x \<leftarrow> xs. case f x of None \<Rightarrow> 0 | Some c \<Rightarrow> g c) = (\<Sum>c \<leftarrow> List.map_filter f xs. g c)"
  for g :: "'b \<Rightarrow> int"
  by (induction xs) (auto simp: map_filter_simps split: option.splits)

text \<open>
  With distinct inputs the counters end at the number of outputs that remain, so they reach zero
  exactly for the addresses that lose their last one.
\<close>

lemma remaining_count:
  assumes "distinct (block_coords txs)" and "map_of sp t = Some e"
    and "\<forall>(t, i) \<in> set (block_coords txs). \<forall>e. map_of sp t = Some e \<longrightarrow> i < length (Outputs e)"
  defines "I \<equiv> {i. (t, i) \<in> set (block_coords txs)}"
  shows "entry_count lib a e - (\<Sum>inp \<leftarrow> block_inputs txs. int (in_count lib sp a t inp)) =
    (\<Sum>i \<in> {..<length (Outputs e)} - I. int (pay_count lib a (Outputs e ! i)))"
proof -
  let ?g = "\<lambda>i. int (pay_count lib a (Outputs e ! i))"
  have sub: "I \<subseteq> {..<length (Outputs e)}" using assms(2,3) by (auto simp: I_def)
  have "(\<Sum>inp \<leftarrow> block_inputs txs. int (in_count lib sp a t inp)) =
      (\<Sum>inp \<leftarrow> block_inputs txs. case spent_coord inp of None \<Rightarrow> 0 | Some c \<Rightarrow> int (coord_count lib sp a t c))"
    by (rule arg_cong [where f = sum_list], rule map_cong [OF refl]) (simp add: in_count_def split: option.split)
  also have "\<dots> = (\<Sum>c \<leftarrow> block_coords txs. int (coord_count lib sp a t c))"
    unfolding sum_map_filter block_coords_def ..
  also have "\<dots> = (\<Sum>c \<in> set (block_coords txs). int (coord_count lib sp a t c))"
    using assms(1) by (simp add: sum_list_distinct_conv_sum_set)
  also have "\<dots> = (\<Sum>c \<in> Pair t ` I. int (coord_count lib sp a t c))"
    by (rule sum.mono_neutral_right) (auto simp: I_def coord_count_def)
  also have "\<dots> = (\<Sum>i \<in> I. ?g i)"
    by (subst sum.reindex) (auto simp: inj_on_def coord_count_def assms(2))
  finally have "(\<Sum>inp \<leftarrow> block_inputs txs. int (in_count lib sp a t inp)) = (\<Sum>i \<in> I. ?g i)" .
  moreover have "entry_count lib a e = (\<Sum>i < length (Outputs e). ?g i)"
    by (simp add: entry_count_def sum_list_sum_nth atLeast0LessThan)
  ultimately show ?thesis using sub by (simp add: sum_diff)
qed

lemma dereferenced:
  assumes "derefAddresses lib sp b = Ok derefs" and "gomap_wf sp"
    and "dom (map_of sp) \<inter> bt_ID ` set (bk_Transactions b) = {}"
    and "distinct (block_coords (bk_Transactions b))"
  defines "C \<equiv> set (block_coords (bk_Transactions b))"
  shows "t \<in> ids_of derefs a \<longleftrightarrow> (\<exists>e. map_of sp t = Some e \<and>
     (\<exists>i < length (Outputs e). 0 < pay_count lib a (Outputs e ! i)) \<and>
     (\<forall>i < length (Outputs e). (t, i) \<notin> C \<longrightarrow> pay_count lib a (Outputs e ! i) = 0))"
proof -
  let ?txs = "bk_Transactions b" and ?d = "\<lambda>s. \<Sum>inp \<leftarrow> block_inputs (bk_Transactions b). int (in_count lib sp a s inp)"
  obtain c0 c ids where c0: "countAddressOutputs lib sp = Ok c0"
    and c: "foldO (deref_tx lib sp) (c0, []) ?txs = Ok (c, ids)"
    and d: "derefs = key_lists (List.map (\<lambda>(address, txOuputs).
           (address, gokeys (filter (\<lambda>(txID, outputsCount). outputsCount = 0) txOuputs))) c)"
    using assms(1) by (auto simp: derefAddresses_def bindO_Ok_iff)
  note s = countAddressOutputs_spec [OF c0 assms(2)]
  have "dom (map_of sp) \<inter> (set [] \<union> bt_ID ` set ?txs) = {}" using assms(3) by simp
  note m = deref_txs_moved [OF c this]
  then have wf: "nested_wf c" and n: "num c a t = num c0 a t - ?d t"
    and h: "nhas c a t \<longleftrightarrow> nhas c0 a t \<or> (\<exists>inp \<in> set (block_inputs ?txs). 0 < in_count lib sp a t inp)"
    and r: "\<forall>(t, i) \<in> set (block_coords ?txs). \<forall>e. map_of sp t = Some e \<longrightarrow> i < length (Outputs e)"
    using s(1) by (auto simp: moved_def)
  have "t \<in> ids_of derefs a \<longleftrightarrow> nhas c a t \<and> num c a t = 0"
    using ids_of_select [OF wf, of t "\<lambda>n. n = 0" a] by (auto simp: d nhas_def num_def)
  also have "\<dots> \<longleftrightarrow> (\<exists>e. map_of sp t = Some e \<and> (\<exists>i < length (Outputs e). 0 < pay_count lib a (Outputs e ! i)) \<and>
     (\<forall>i < length (Outputs e). (t, i) \<notin> C \<longrightarrow> pay_count lib a (Outputs e ! i) = 0))"
  proof (cases "map_of sp t")
    case None
    then have "in_count lib sp a t inp = 0" for inp
      by (simp add: in_count_def coord_count_def split: option.split)
    with None show ?thesis using h s(3) [of a t] by simp
  next
    case (Some e)
    have in_range: "\<exists>i < length (Outputs e). 0 < pay_count lib a (Outputs e ! i)"
      if inp: "inp \<in> set (block_inputs ?txs)" "0 < in_count lib sp a t inp" for inp
    proof -
      obtain i where i: "spent_coord inp = Some (t, i)" "0 < pay_count lib a (Outputs e ! i)"
        using inp(2) Some by (auto simp: in_count_def coord_count_def split: option.splits if_splits)
      then have "(t, i) \<in> set (block_coords ?txs)"
        using inp(1) by (force simp: block_coords_def map_filter_def)
      with r Some i(2) show ?thesis by blast
    qed
    have "(\<exists>p \<in> set (Outputs e). 0 < pay_count lib a p) \<longleftrightarrow> (\<exists>i < length (Outputs e). 0 < pay_count lib a (Outputs e ! i))"
      by (metis in_set_conv_nth)
    then have "nhas c a t \<longleftrightarrow> (\<exists>i < length (Outputs e). 0 < pay_count lib a (Outputs e ! i))"
      using h s(3) [of a t] Some in_range by auto
    moreover have "num c a t = 0 \<longleftrightarrow> (\<forall>i \<in> {..<length (Outputs e)} - {i. (t, i) \<in> C}. pay_count lib a (Outputs e ! i) = 0)"
      using n s(2) [of a t] Some remaining_count [OF assms(4) Some r, of lib a]
      by (simp add: C_def sum_nonneg_eq_0_iff)
    ultimately show ?thesis using Some by auto
  qed
  finally show ?thesis .
qed

section \<open>The block seen on the UTXO set\<close>

lemma foldl_remove_spent:
  "foldl remove_spent u inps c = (if c \<in> set (List.map_filter spent_coord inps) then None else u c)"
  by (induction inps arbitrary: u) (auto simp: map_filter_simps remove_spent_def split: option.splits)

lemma block_coords_Cons:
  "set (block_coords (tx # txs)) = set (List.map_filter spent_coord (bt_VIn tx)) \<union> set (block_coords txs)"
  by (auto simp: block_coords_def block_inputs_def map_filter_def)

lemma apply_txs_old:
  "t \<notin> bt_ID ` set txs \<Longrightarrow> foldl (apply_tx lib d h) u txs (t, i) =
     (if (t, i) \<in> set (block_coords txs) then None else u (t, i))"
proof (induction txs arbitrary: u)
  case (Cons tx txs)
  then show ?case by (auto simp: apply_tx_def foldl_remove_spent add_created_def block_coords_Cons)
qed (simp add: block_coords_def block_inputs_def)

lemma apply_tx_created:
  "apply_tx lib d h u tx (t, i) = Some (k, o1) \<Longrightarrow> u (t, i) = Some (k, o1) \<or>
     (bt_ID tx = t \<and> (\<exists>p \<in> set (bt_VOut tx). created_output lib d p = Some o1))"
  by (auto simp: apply_tx_def foldl_remove_spent add_created_def split: if_splits)

lemma apply_txs_created:
  "foldl (apply_tx lib d h) u txs (t, i) = Some (k, o1) \<Longrightarrow> u (t, i) = Some (k, o1) \<or>
     (\<exists>tx \<in> set txs. bt_ID tx = t \<and> (\<exists>p \<in> set (bt_VOut tx). created_output lib d p = Some o1))"
proof (induction txs arbitrary: u)
  case (Cons tx txs)
  from Cons.IH [of "apply_tx lib d h u tx"] Cons.prems show ?case
    using apply_tx_created [of lib d h u tx t i k o1] by auto
qed simp

lemma pays_stored:
  "pays lib (utxo v m) a t \<longleftrightarrow> (\<exists>e. stored_entry v m t = Some e \<and>
     (\<exists>i < length (Outputs e). 0 < pay_count lib a (Outputs e ! i)))"
proof (cases "stored_entry v m t")
  case (Some e)
  then show ?thesis by (auto simp: pays_def utxo_def entries_utxo_def pay_count_pos)
qed (simp add: pays_def utxo_def entries_utxo_def)

text \<open>The invariant of the store: its keys hold what the store writes there, and the index is complete.\<close>

definition index_complete :: "('key, 'addr) btc_lib \<Rightarrow> string \<Rightarrow> kstate \<Rightarrow> bool" where
  "index_complete lib v m \<longleftrightarrow> (\<forall>a. holds_set m (addr_key v a)) \<and>
     (\<forall>a t. pays lib (utxo v m) a t \<longrightarrow> t \<in> members m (addr_key v a))"

definition block_stored :: "string \<Rightarrow> kstate \<Rightarrow> bool" where
  "block_stored v m \<longleftrightarrow> (\<exists>s. m (hash_key v) = Some (Val (VString s))) \<and> (\<exists>n. m (height_key v) = Some (Val (VInt64 n)))"

definition store_ok :: "('key, 'addr) btc_lib \<Rightarrow> string \<Rightarrow> kstate \<Rightarrow> bool" where
  "store_ok lib v m \<longleftrightarrow> outputs_typed v m \<and> index_complete lib v m \<and> block_stored v m"

text \<open>The transactions of the block are new to the store, and the block spends no output twice.\<close>

definition fresh_block :: "string \<Rightarrow> block \<Rightarrow> kstate \<Rightarrow> bool" where
  "fresh_block v b m \<longleftrightarrow> (\<forall>tx \<in> set (bk_Transactions b). m (tx_key v (bt_ID tx)) = None \<and>
     (\<forall>a. bt_ID tx \<notin> members m (addr_key v a)))"

definition distinct_inputs :: "block \<Rightarrow> bool" where
  "distinct_inputs b \<longleftrightarrow> distinct (block_coords (bk_Transactions b))"

text \<open>The parts of a checkpoint, as computed from what was read.\<close>

definition made_of :: "('key, 'addr) btc_lib \<Rightarrow> int \<Rightarrow> string \<Rightarrow> kstate \<Rightarrow> block \<Rightarrow> checkpoint_block \<Rightarrow> checkpoint \<Rightarrow> bool" where
  "made_of lib d v m b pb cp \<longleftrightarrow> PrevBlock cp = Some pb \<and>
     NewBlock cp = Some \<lparr>cb_Height = bh_Height b, cb_Hash = hash_String (bh_Hash b)\<rparr> \<and>
     cb_Height pb \<noteq> bh_Height b \<and> wrap64 (cb_Height pb + 1) = bh_Height b \<and>
     (\<forall>s. m (hash_key v) = Some (Val (VString s)) \<longrightarrow> cb_Hash pb = s) \<and>
     (\<forall>n. m (height_key v) = Some (Val (VInt64 n)) \<longrightarrow> cb_Height pb = n) \<and>
     fetched v m (TxsBeforeUpdate cp) \<and>
     derefAddresses lib (TxsBeforeUpdate cp) b = Ok (DereferencedAddressesTxs cp) \<and>
     spendAllOutputs_of_block lib d (TxsBeforeUpdate cp) b = Ok (NewTxOutputs cp) \<and>
     extractAddressReferencesFromOutputs lib d b = Ok (NewAddreessReferences cp)"

context utxo_reads_laws
begin

lemma NewCheckpoint_made:
  assumes c: "NewCheckpointFromNextBlock lib d R b w = (Ok cp, w')" and t: "outputs_typed v (ks w)"
    and h: "ks w (hash_key v) \<noteq> None"
  shows "ks w' = ks w \<and> ck w' = ck w \<and> (\<exists>pb. made_of lib d v (ks w) b pb cp)"
proof -
  let ?nb = "\<lparr>cb_Height = bh_Height b, cb_Hash = hash_String (bh_Hash b)\<rparr>"
  obtain p w1 where p: "previous_block R b w = (Ok p, w1)"
    and c1: "(if p = None then retS (NewUTXOSpendingCheckpoint None (Some ?nb) [] [] [] [])
       else bindS (extractSpendingOutputsFromBlock R b) (\<lambda>spendingOutputs.
         bindS (liftO (derefAddresses lib spendingOutputs b)) (\<lambda>dereferencedAddresses.
         bindS (liftO (spendAllOutputs_of_block lib d spendingOutputs b)) (\<lambda>newTxOutputs.
         bindS (liftO (extractAddressReferencesFromOutputs lib d b)) (\<lambda>newAddreessReferences.
         retS (NewUTXOSpendingCheckpoint p (Some ?nb) spendingOutputs
           dereferencedAddresses newTxOutputs newAddreessReferences)))))) w1 = (Ok cp, w')"
    using c unfolding NewCheckpointFromNextBlock_def Let_def by (rule bindS_OkE)
  note po = obsD [OF previous_block_obs refl p]
  have "p \<noteq> None" using po(4) [OF refl] h by blast
  then obtain pb where pb: "p = Some pb" by blast
  obtain sp w2 derefs new refs where sp: "extractSpendingOutputsFromBlock R b w1 = (Ok sp, w2)"
    and parts: "derefAddresses lib sp b = Ok derefs" "spendAllOutputs_of_block lib d sp b = Ok new"
      "extractAddressReferencesFromOutputs lib d b = Ok refs"
    and cp: "cp = NewUTXOSpendingCheckpoint p (Some ?nb) sp derefs new refs" "w' = w2"
    using c1 by (auto simp: pb retS_Ok_iff liftO_Ok_iff elim!: bindS_OkE)
  note so = obsD [OF extract_obs [OF t] po(1) sp]
  have "ks w' = ks w \<and> ck w' = ck w \<and> made_of lib d v (ks w) b pb cp"
    using parts pb cp(2) po(1,2) so(1,2) po(4) [OF refl] so(4) [OF refl]
    by (simp add: made_of_def NewUTXOSpendingCheckpoint_def cp(1))
  then show ?thesis by blast
qed

end

text \<open>What such a checkpoint does.\<close>

lemma made_of_utxo:
  assumes "made_of lib d v m b pb cp" and "\<And>a. holds_set m (addr_key v a)"
  shows "gomap_wf (NewTxOutputs cp)"
    and "utxo v (run (up_cmds v nb cp) m) = apply_block lib d b (utxo v m)"
    and "\<forall>(t, i) \<in> set (block_coords (bk_Transactions b)).
      t \<in> dom (map_of (TxsBeforeUpdate cp)) \<union> bt_ID ` set (bk_Transactions b)"
    and "dom (map_of (NewTxOutputs cp)) = dom (map_of (TxsBeforeUpdate cp)) \<union> bt_ID ` set (bk_Transactions b)"
proof -
  let ?sp = "TxsBeforeUpdate cp"
  have f: "fetched v m ?sp" and "foldO (spend_tx lib d (bh_Height b)) ?sp (bk_Transactions b) = Ok (NewTxOutputs cp)"
    using assms(1) by (simp_all add: made_of_def spendAllOutputs_of_block_def)
  note s = spend_txs_refine [OF this(2)]
  show wf: "gomap_wf (NewTxOutputs cp)" using s f by (simp add: fetched_def)
  show "utxo v (run (up_cmds v nb cp) m) = apply_block lib d b (utxo v m)"
    unfolding stored_entry_up [OF wf assms(2)] utxo_def [of v m] apply_block_def
    using s [of "stored_entry v m"] f by (simp add: fetched_overlay)
  show "\<forall>(t, i) \<in> set (block_coords (bk_Transactions b)). t \<in> dom (map_of ?sp) \<union> bt_ID ` set (bk_Transactions b)"
    using s by (fastforce simp: block_coords_def block_inputs_def map_filter_def)
  show "dom (map_of (NewTxOutputs cp)) = dom (map_of ?sp) \<union> bt_ID ` set (bk_Transactions b)"
    using s by simp
qed

lemma made_of_fetched_fresh:
  assumes "made_of lib d v m b pb cp" and "fresh_block v b m"
  shows "dom (map_of (TxsBeforeUpdate cp)) \<inter> bt_ID ` set (bk_Transactions b) = {}"
proof -
  have "map_of (TxsBeforeUpdate cp) (bt_ID tx) = None" if "tx \<in> set (bk_Transactions b)" for tx
    using assms that unfolding made_of_def fetched_def fresh_block_def
    by (metis not_None_eq)
  then show ?thesis by fastforce
qed

text \<open>The references a block removes are those of the addresses that lose their last output.\<close>

lemma made_of_derefs:
  assumes m: "made_of lib d v m b pb cp" and "\<And>a. holds_set m (addr_key v a)"
    and fr: "fresh_block v b m" and di: "distinct_inputs b"
  shows "t \<in> ids_of (DereferencedAddressesTxs cp) a \<longleftrightarrow>
    t \<notin> bt_ID ` set (bk_Transactions b) \<and> pays lib (utxo v m) a t \<and> \<not> pays lib (apply_block lib d b (utxo v m)) a t"
proof -
  let ?sp = "TxsBeforeUpdate cp" and ?C = "set (block_coords (bk_Transactions b))"
  have f: "fetched v m ?sp" and da: "derefAddresses lib ?sp b = Ok (DereferencedAddressesTxs cp)"
    using m by (simp_all add: made_of_def)
  note dj = made_of_fetched_fresh [OF m fr]
  have wf: "gomap_wf ?sp" and se: "\<And>t e. map_of ?sp t = Some e \<Longrightarrow> stored_entry v m t = Some e"
    using f by (auto simp: fetched_def stored_entry_def)
  note ex = dereferenced [OF da wf dj di [unfolded distinct_inputs_def], of t a]
  show ?thesis
  proof (cases "map_of ?sp t")
    case None
    show ?thesis
    proof (cases "t \<in> bt_ID ` set (bk_Transactions b)")
      case False
      then have "(t, i) \<notin> ?C" for i
        using made_of_utxo(3) [OF m assms(2)] None by auto
      then have "apply_block lib d b (utxo v m) (t, i) = utxo v m (t, i)" for i
        using False by (simp add: apply_block_def apply_txs_old)
      then show ?thesis using ex None by (auto simp: pays_def)
    qed (use ex None in auto)
  next
    case (Some e)
    then have new: "t \<notin> bt_ID ` set (bk_Transactions b)" using dj by blast
    then have ab: "apply_block lib d b (utxo v m) (t, i) =
        (if (t, i) \<in> ?C then None else if i < length (Outputs e) then map_option (Pair (BlockHeight e)) (Outputs e ! i) else None)" for i
      using se [OF Some] by (simp add: apply_block_def apply_txs_old utxo_def entries_utxo_def)
    have "pays lib (apply_block lib d b (utxo v m)) a t \<longleftrightarrow>
        (\<exists>i < length (Outputs e). (t, i) \<notin> ?C \<and> 0 < pay_count lib a (Outputs e ! i))"
      unfolding pays_def ab by (auto simp: pay_count_pos split: if_splits)
    then show ?thesis using ex Some new se [OF Some] by (auto simp: pays_stored)
  qed
qed

lemma made_of_describes:
  assumes m: "made_of lib d v m b pb cp" and ok: "store_ok lib v m" and fr: "fresh_block v b m"
    and di: "distinct_inputs b"
  shows "describes v pb cp m"
proof -
  have h: "\<And>a. holds_set m (addr_key v a)" and ic: "\<And>a t. pays lib (utxo v m) a t \<Longrightarrow> t \<in> members m (addr_key v a)"
    using ok by (auto simp: store_ok_def index_complete_def)
  have refs: "ids_of (NewAddreessReferences cp) a \<inter> members m (addr_key v a) = {}" for a
    using new_references [of lib d b "NewAddreessReferences cp"] m fr by (auto simp: made_of_def fresh_block_def)
  have derefs: "ids_of (DereferencedAddressesTxs cp) a \<subseteq> members m (addr_key v a)" for a
    using made_of_derefs [OF m h fr di] ic by blast
  have "m (tx_key v t) = None" if "(t, e) \<in> set (created cp)" for t e
  proof -
    have "t \<in> fst ` set (created cp)" using that by force
    then have "t \<in> dom (map_of (NewTxOutputs cp))" "t \<notin> dom (map_of (TxsBeforeUpdate cp))"
      by (simp_all add: created_iff dom_map_of_conv_image_fst del: domIff)
    then have "t \<in> bt_ID ` set (bk_Transactions b)" using made_of_utxo(4) [OF m h] by blast
    then show ?thesis using fr by (auto simp: fresh_block_def)
  qed
  moreover have "m (tx_key v t) = Some (Val (VOutputs e))" if "(t, e) \<in> set (TxsBeforeUpdate cp)" for t e
    using m that by (auto simp: made_of_def fetched_def gomap_mem_iff)
  moreover obtain s n where "m (hash_key v) = Some (Val (VString s))" "m (height_key v) = Some (Val (VInt64 n))"
    using ok by (auto simp: store_ok_def block_stored_def)
  ultimately show ?thesis using m h refs derefs by (auto simp: describes_def made_of_def)
qed

text \<open>The invariant is kept by the block.\<close>

lemma made_of_store_ok:
  assumes m: "made_of lib d v m b pb cp" and ok: "store_ok lib v m" and fr: "fresh_block v b m"
    and di: "distinct_inputs b"
  shows "store_ok lib v (run (up_cmds v nb cp) m)"
proof -
  let ?m = "run (up_cmds v nb cp) m"
  have h: "\<And>a. holds_set m (addr_key v a)" and ic: "\<And>a t. pays lib (utxo v m) a t \<Longrightarrow> t \<in> members m (addr_key v a)"
    and ty: "outputs_typed v m"
    using ok by (auto simp: store_ok_def index_complete_def)
  note u = made_of_utxo [OF m h]
  note l = up_lookup [OF u(1) h]
  have "?m (tx_key v t) = None \<or> (\<exists>e. ?m (tx_key v t) = Some (Val (VOutputs e)))" for t
  proof (cases "t \<in> fst ` set (NewTxOutputs cp)")
    case True
    then obtain e where "(t, e) \<in> set (NewTxOutputs cp)" by force
    from l(5) [OF this, of nb] show ?thesis by simp
  next
    case False
    then show ?thesis using l(6) ty by (simp add: outputs_typed_def)
  qed
  moreover have "t \<in> members ?m (addr_key v a)" if p: "pays lib (utxo v ?m) a t" for a t
  proof -
    have d: "t \<notin> ids_of (DereferencedAddressesTxs cp) a"
      using made_of_derefs [OF m h fr di] p u(2) by auto
    obtain i k o1 where o1: "apply_block lib d b (utxo v m) (t, i) = Some (k, o1)" "a \<in> set (addrs_of lib o1)"
      using p u(2) by (auto simp: pays_def)
    consider "utxo v m (t, i) = Some (k, o1)"
      | tx q where "tx \<in> set (bk_Transactions b)" "bt_ID tx = t" "q \<in> set (bt_VOut tx)" "created_output lib d q = Some o1"
      using apply_txs_created [of lib d "bh_Height b" "utxo v m" "bk_Transactions b" t i k o1] o1(1)
      unfolding apply_block_def by blast
    then have "t \<in> members m (addr_key v a) \<union> ids_of (NewAddreessReferences cp) a"
    proof cases
      case 1
      then show ?thesis using ic [of a t] o1(2) by (auto simp: pays_def)
    next
      case 2
      then have "creates lib d a tx" using o1(2) by (auto simp: creates_def pay_count_pos)
      then show ?thesis using 2 new_references [of lib d b "NewAddreessReferences cp" t a] m by (auto simp: made_of_def)
    qed
    with d l(4) show ?thesis by blast
  qed
  ultimately show ?thesis using l(1-3) by (simp add: store_ok_def outputs_typed_def index_complete_def block_stored_def)
qed

end
