(* ===== verification/Spending_Properties.thy ===== *)
theory Spending_Properties
  imports Store_Properties Address_Index
begin

text \<open>
  The properties of block processing: what the checkpoint of a block does to the UTXO set and to the
  address index, end to end over the store and its recovery, with an example on the executable server.
\<close>

section \<open>One block\<close>

text \<open>Computing the checkpoint of a block on a store that holds a block.\<close>

lemma checkpoint_made:
  assumes "utxo_backend U D ks ck pend" and "outputs_typed (us_dbVer U) (ks (world s))"
    and "block_stored (us_dbVer U) (ks (world s))"
    and "NewCheckpointFromNextBlock lib d (store_reads U) b s = (Ok cp, s1)"
  shows "ks (world s1) = ks (world s) \<and> ck (world s1) = ck (world s) \<and> isConsist s1 = isConsist s \<and>
    (\<exists>pb. made_of lib d (us_dbVer U) (ks (world s)) b pb cp)"
  using utxo_reads_laws.NewCheckpoint_made [OF utxo_backend.store_reads_laws [OF assms(1)] assms(4,2)] assms(3)
  by (auto simp: block_stored_def)

lemma commit_consistent: "CommitCheckpoint U cp s = (Ok (), s') \<Longrightarrow> isConsist s"
  by (auto simp: CommitCheckpoint_def guarded_def split: if_splits)

lemma commit_runs:
  assumes "utxo_backend U D ks ck pend" and "CommitCheckpoint U cp s = (Ok (), s')" and "NewBlock cp = Some nb"
  shows "ks (world s') = run (up_cmds (us_dbVer U) nb cp) (ks (world s)) \<and> ck (world s') = NoFile \<and> isConsist s'"
  using utxo_backend.commit_outcome [OF assms commit_consistent [OF assms(2)]] by blast

lemma block_step:
  assumes "utxo_backend U D ks ck pend" and "store_ok lib (us_dbVer U) (ks (world s))"
    and "NewCheckpointFromNextBlock lib d (store_reads U) b s = (Ok cp, s1)"
    and "CommitCheckpoint U cp s1 = (Ok (), s2)"
  defines "v \<equiv> us_dbVer U" and "new \<equiv> ks (world s2)"
  shows "utxo v new = apply_block lib d b (utxo v (ks (world s)))"
    and "new (hash_key v) = Some (Val (VString (hash_String (bh_Hash b))))"
    and "new (height_key v) = Some (Val (VInt64 (bh_Height b)))"
    and "\<exists>n. ks (world s) (height_key v) = Some (Val (VInt64 n)) \<and> bh_Height b = wrap64 (n + 1)"
    and "fresh_block v b (ks (world s)) \<Longrightarrow> distinct_inputs b \<Longrightarrow> store_ok lib v new"
    and "ck (world s2) = NoFile" and "isConsist s2"
proof -
  have h: "\<And>a. holds_set (ks (world s)) (addr_key v a)" and ty: "outputs_typed v (ks (world s))"
    and bs: "block_stored v (ks (world s))"
    using assms(2) by (auto simp: store_ok_def index_complete_def v_def)
  obtain pb where s1: "ks (world s1) = ks (world s)" and m: "made_of lib d v (ks (world s)) b pb cp"
    using checkpoint_made [OF assms(1) ty [unfolded v_def] bs [unfolded v_def] assms(3)] by (auto simp: v_def)
  let ?nb = "\<lparr>cb_Height = bh_Height b, cb_Hash = hash_String (bh_Hash b)\<rparr>"
  have nb: "NewBlock cp = Some ?nb" using m by (simp add: made_of_def)
  note c = commit_runs [OF assms(1,4) nb, folded v_def]
  note u = made_of_utxo [OF m h]
  note l = up_lookup [OF u(1) h]
  show "utxo v new = apply_block lib d b (utxo v (ks (world s)))"
    "new (hash_key v) = Some (Val (VString (hash_String (bh_Hash b))))"
    "new (height_key v) = Some (Val (VInt64 (bh_Height b)))"
    "\<exists>n. ks (world s) (height_key v) = Some (Val (VInt64 n)) \<and> bh_Height b = wrap64 (n + 1)"
    "ck (world s2) = NoFile" "isConsist s2"
    using c s1 u(2) l(1,2) m bs by (auto simp: new_def made_of_def block_stored_def)
  show "fresh_block v b (ks (world s)) \<Longrightarrow> distinct_inputs b \<Longrightarrow> store_ok lib v new"
    using made_of_store_ok [OF m] assms(2) c s1 by (simp add: new_def v_def)
qed

lemma block_restart:
  assumes "utxo_backend U D ks ck pend" and "store_ok lib (us_dbVer U) (ks (world s))"
    and "fresh_block (us_dbVer U) b (ks (world s))" and "distinct_inputs b" and "isConsist s" and "ck (world s) = NoFile"
    and "ks (world s) (hash_key (us_dbVer U)) \<noteq> Some (Val (VString (hash_String (bh_Hash b))))"
    and "NewCheckpointFromNextBlock lib d (store_reads U) b s = (Ok cp, s1)"
    and "CommitCheckpoint U cp s1 = (r, s2)" and "restarts U (world s2) w" and "New U w = (Ok (), s3)"
  defines "v \<equiv> us_dbVer U"
  shows "ck (world s3) = NoFile" and "store_ok lib v (ks (world s3))"
    and "ks (world s3) = ks (world s) \<or> utxo v (ks (world s3)) = apply_block lib d b (utxo v (ks (world s)))"
proof -
  have h: "\<And>a. holds_set (ks (world s)) (addr_key v a)"
    using assms(2) by (auto simp: store_ok_def index_complete_def v_def)
  obtain pb where s1: "ks (world s1) = ks (world s)" "ck (world s1) = ck (world s)" "isConsist s1 = isConsist s"
    and m: "made_of lib d v (ks (world s)) b pb cp"
    using checkpoint_made [OF assms(1) _ _ assms(8)] assms(2) by (auto simp: store_ok_def v_def)
  let ?nb = "\<lparr>cb_Height = bh_Height b, cb_Hash = hash_String (bh_Hash b)\<rparr>"
  have pbnb: "PrevBlock cp = Some pb" "NewBlock cp = Some ?nb" using m by (simp_all add: made_of_def)
  have d: "describes v pb cp (ks (world s))" using made_of_describes [OF m] assms(2-4) by (simp add: v_def)
  have hash: "cb_Hash pb \<noteq> cb_Hash ?nb" using d assms(7) by (auto simp: describes_def v_def)
  note wf = made_of_utxo(1) [OF m h]
  have "safe v pb ?nb cp (ks (world s)) (ks (world s2)) (ck (world s2))"
    using utxo_backend.commit_safe [OF assms(1,9) pbnb(2)] s1 assms(5,6) d by (simp add: v_def)
  then have "safe v pb ?nb cp (ks (world s)) (ks w) (ck w)"
    using restarts_safe [OF assms(1) pbnb _ wf hash assms(10)] d by (simp add: v_def)
  then have o: "ck (world s3) = NoFile \<and> (ks (world s3) = ks (world s) \<or> ks (world s3) = run (up_cmds v ?nb cp) (ks (world s)))"
    using utxo_backend.New_outcome [OF assms(1,11) pbnb _ wf hash] d by (auto simp: v_def)
  then show "ck (world s3) = NoFile"
    "ks (world s3) = ks (world s) \<or> utxo v (ks (world s3)) = apply_block lib d b (utxo v (ks (world s)))"
    using made_of_utxo(2) [OF m h] by auto
  show "store_ok lib v (ks (world s3))" using o made_of_store_ok [OF m] assms(2-4) by (auto simp: v_def)
qed

text \<open>
  C6: refinement. A block whose checkpoint is computed and committed updates the UTXO set of the store
  exactly as the reference \<open>apply_block\<close> does: the spendable outputs of its transactions enter, every
  output an input refers to leaves, in the order of the block, and nothing else changes. Height and
  hash are those of the block, and the height is the successor of the stored one.
\<close>

theorem block_refinement:
  assumes "utxo_backend U D ks ck pend" and "store_ok lib (us_dbVer U) (ks (world s))"
    and "NewCheckpointFromNextBlock lib d (store_reads U) b s = (Ok cp, s1)"
    and "CommitCheckpoint U cp s1 = (Ok (), s2)"
  defines "v \<equiv> us_dbVer U" and "new \<equiv> ks (world s2)"
  shows "utxo v new = apply_block lib d b (utxo v (ks (world s))) \<and>
    new (hash_key v) = Some (Val (VString (hash_String (bh_Hash b)))) \<and>
    new (height_key v) = Some (Val (VInt64 (bh_Height b))) \<and>
    (\<exists>n. ks (world s) (height_key v) = Some (Val (VInt64 n)) \<and> bh_Height b = wrap64 (n + 1))"
  using block_step [OF assms(1-4)] by (simp add: v_def new_def)

text \<open>
  C14: the invariant. Processing a block that is new to the store and spends no output twice keeps the
  store well-formed and its address index complete: whoever holds an unspent output finds its
  transaction under the address.
\<close>

theorem block_keeps_index:
  assumes "utxo_backend U D ks ck pend" and "store_ok lib (us_dbVer U) (ks (world s))"
    and "fresh_block (us_dbVer U) b (ks (world s))" and "distinct_inputs b"
    and "NewCheckpointFromNextBlock lib d (store_reads U) b s = (Ok cp, s1)"
    and "CommitCheckpoint U cp s1 = (Ok (), s2)"
  shows "store_ok lib (us_dbVer U) (ks (world s2))"
  using block_step(5) [OF assms(1,2,5,6,3,4)] .

text \<open>
  C15: the references a block removes from the index are exact: a transaction known before is removed
  from an address exactly when it paid to the address and no unspent output of it does any more. The
  references it adds are those of the outputs it creates.
\<close>

theorem index_changes_exact:
  assumes "utxo_backend U D ks ck pend" and "store_ok lib (us_dbVer U) (ks (world s))"
    and "fresh_block (us_dbVer U) b (ks (world s))" and "distinct_inputs b"
    and "NewCheckpointFromNextBlock lib d (store_reads U) b s = (Ok cp, s1)"
  defines "old \<equiv> utxo (us_dbVer U) (ks (world s))"
  shows "(t \<in> ids_of (DereferencedAddressesTxs cp) a \<longleftrightarrow>
      t \<notin> bt_ID ` set (bk_Transactions b) \<and> pays lib old a t \<and> \<not> pays lib (apply_block lib d b old) a t) \<and>
    (t \<in> ids_of (NewAddreessReferences cp) a \<longleftrightarrow>
      (\<exists>tx \<in> set (bk_Transactions b). bt_ID tx = t \<and> creates lib d a tx))"
proof -
  obtain pb where m: "made_of lib d (us_dbVer U) (ks (world s)) b pb cp"
    using checkpoint_made [OF assms(1) _ _ assms(5)] assms(2) by (auto simp: store_ok_def)
  have h: "\<And>a. holds_set (ks (world s)) (addr_key (us_dbVer U) a)"
    using assms(2) by (auto simp: store_ok_def index_complete_def)
  show ?thesis
    using made_of_derefs [OF m h assms(3,4)] new_references [of lib d b "NewAddreessReferences cp"] m
    by (simp add: old_def made_of_def)
qed

text \<open>
  C7: the checkpoint of a block describes the state it was computed in, so the recovery theorems apply:
  a block that is processed with a crash at any point, and any number of failing restarts, ends after
  the first successful start with the UTXO set before the block or with the block applied, the index
  complete, and no checkpoint left.
\<close>

theorem block_crash_recovery:
  assumes "utxo_backend U D ks ck pend" and "store_ok lib (us_dbVer U) (ks (world s))"
    and "fresh_block (us_dbVer U) b (ks (world s))" and "distinct_inputs b" and "isConsist s" and "ck (world s) = NoFile"
    and "ks (world s) (hash_key (us_dbVer U)) \<noteq> Some (Val (VString (hash_String (bh_Hash b))))"
    and "NewCheckpointFromNextBlock lib d (store_reads U) b s = (Ok cp, s1)"
    and "CommitCheckpoint U cp s1 = (r, s2)" and "restarts U (world s2) w" and "New U w = (Ok (), s3)"
  defines "v \<equiv> us_dbVer U"
  shows "ck (world s3) = NoFile \<and> store_ok lib v (ks (world s3)) \<and>
    utxo v (ks (world s3)) \<in> {utxo v (ks (world s)), apply_block lib d b (utxo v (ks (world s)))}"
  using block_restart [OF assms(1-11)] by (auto simp: v_def)

section \<open>A chain of blocks\<close>

text \<open>
  The life of an indexer: it commits blocks, and a block may crash it, after which it is restarted
  until a start succeeds. \<open>indexed U ... bs s s'\<close>: from \<open>s\<close> it has reached \<open>s'\<close> and \<open>bs\<close> are the
  blocks whose commands have reached the database.
\<close>

inductive indexed :: "('key, 'addr) btc_lib \<Rightarrow> int \<Rightarrow> ('w, 'tx) utxo_store \<Rightarrow> ('w \<Rightarrow> kstate) \<Rightarrow>
    block list \<Rightarrow> 'w store_state \<Rightarrow> 'w store_state \<Rightarrow> bool"
  for lib d U ks where
    start: "indexed lib d U ks [] s s"
  | commit: "indexed lib d U ks bs s s1 \<Longrightarrow>
      fresh_block (us_dbVer U) b (ks (world s1)) \<Longrightarrow> distinct_inputs b \<Longrightarrow>
      NewCheckpointFromNextBlock lib d (store_reads U) b s1 = (Ok cp, s2) \<Longrightarrow>
      CommitCheckpoint U cp s2 = (Ok (), s3) \<Longrightarrow> indexed lib d U ks (bs @ [b]) s s3"
  | crash: "indexed lib d U ks bs s s1 \<Longrightarrow> isConsist s1 \<Longrightarrow>
      fresh_block (us_dbVer U) b (ks (world s1)) \<Longrightarrow> distinct_inputs b \<Longrightarrow>
      ks (world s1) (hash_key (us_dbVer U)) \<noteq> Some (Val (VString (hash_String (bh_Hash b)))) \<Longrightarrow>
      NewCheckpointFromNextBlock lib d (store_reads U) b s1 = (Ok cp, s2) \<Longrightarrow>
      CommitCheckpoint U cp s2 = (r, s3) \<Longrightarrow> restarts U (world s3) w \<Longrightarrow> New U w = (Ok (), s4) \<Longrightarrow>
      indexed lib d U ks (if ks (world s4) = ks (world s1) then bs else bs @ [b]) s s4"
  | restart: "indexed lib d U ks bs s s1 \<Longrightarrow> New U (world s1) = (Ok (), s2) \<Longrightarrow> indexed lib d U ks bs s s2"

definition apply_blocks :: "('key, 'addr) btc_lib \<Rightarrow> int \<Rightarrow> block list \<Rightarrow> utxo_set \<Rightarrow> utxo_set" where
  "apply_blocks lib d bs u = foldl (\<lambda>u b. apply_block lib d b u) u bs"

lemma New_clean:
  assumes "utxo_backend U D ks ck pend" and "ck w = NoFile" and "New U w = (Ok (), s')"
  shows "ks (world s') = ks w \<and> ck (world s') = NoFile"
  using utxo_backend.New_no_file [OF assms] .

lemma indexed_invariant:
  assumes "indexed lib d U ks bs s s'" and "utxo_backend U D ks ck pend"
    and "store_ok lib (us_dbVer U) (ks (world s))" and "ck (world s) = NoFile"
  shows "utxo (us_dbVer U) (ks (world s')) = apply_blocks lib d bs (utxo (us_dbVer U) (ks (world s))) \<and>
    store_ok lib (us_dbVer U) (ks (world s')) \<and> ck (world s') = NoFile"
  using assms(1,3,4)
proof (induction rule: indexed.induct)
  case (start s)
  then show ?case by (simp add: apply_blocks_def)
next
  case (commit bs s s1 b cp s2 s3)
  note IH = commit.IH [OF commit.prems]
  show ?case using IH block_step [OF assms(2) _ commit.hyps(4,5)] commit.hyps(2,3) by (simp add: apply_blocks_def)
next
  case (crash bs s s1 b cp s2 r s3 w s4)
  note IH = crash.IH [OF crash.prems]
  show ?case using IH block_restart [OF assms(2) _ crash.hyps(3,4,2) _ crash.hyps(5-9)] by (auto simp: apply_blocks_def)
next
  case (restart bs s s1 s2)
  note IH = restart.IH [OF restart.prems]
  show ?case using IH New_clean [OF assms(2) _ restart.hyps(2)] by simp
qed

text \<open>
  C5: over a whole run with crashes, restarts and repairs in any order, the UTXO set of the store is
  the reference applied to the blocks that reached it, each exactly once and in order; the store stays
  well-formed, its index complete, and no checkpoint file is left between blocks.
\<close>

theorem indexed_refines:
  assumes "indexed lib d U ks bs s s'" and "utxo_backend U D ks ck pend"
    and "store_ok lib (us_dbVer U) (ks (world s))" and "ck (world s) = NoFile"
  shows "utxo (us_dbVer U) (ks (world s')) = apply_blocks lib d bs (utxo (us_dbVer U) (ks (world s))) \<and>
    store_ok lib (us_dbVer U) (ks (world s')) \<and> ck (world s') = NoFile"
  using assms by (rule indexed_invariant)

section \<open>An example\<close>

text \<open>The block spends the only output of \<open>aa\<close> and creates an output of \<open>bb\<close>.\<close>

definition block_world :: "bool list \<Rightarrow> sim" where
  "block_world faults =
     \<lparr>sim_keys = [(hash_key ''1'', Inl (VString ''h0'')), (height_key ''1'', Inl (VInt64 0)),
        (tx_key ''1'' ''aa'', Inl (VOutputs \<lparr>BlockHeight = 0,
           Outputs = [Some \<lparr>CompressedScript = [9, 1, 2, 3], CompressedAmount = 9\<rparr>]\<rparr>)),
        (addr_key ''1'' ''010203'', Inr [''aa''])],
      sim_queue = [], sim_file = None, sim_faults = faults\<rparr>"

definition sample_block :: block where
  "sample_block = \<lparr>bh_Hash = [171], bh_NextBlockHash = [], bh_PrevBlockHash = [], bh_Height = 1,
     bk_Transactions = [\<lparr>bt_ID = ''bb'',
       bt_VIn = [\<lparr>bi_Coinbase = None, bi_SpendingOutput = Some \<lparr>so_TxID = ''aa'', so_VOut = 0\<rparr>\<rparr>],
       bt_VOut = [\<lparr>bo_Value = None, bo_ScriptPubKey = Some \<lparr>spk_Type = ''nonstandard'', spk_HEX = ''0405''\<rparr>\<rparr>]\<rparr>]\<rparr>"

abbreviation sample_start :: "bool list \<Rightarrow> sim store_state" where
  "sample_start f \<equiv> \<lparr>world = block_world f, isConsist = True\<rparr>"

definition block_cp :: checkpoint where
  "block_cp = \<lparr>PrevBlock = Some \<lparr>cb_Height = 0, cb_Hash = ''h0''\<rparr>, NewBlock = Some \<lparr>cb_Height = 1, cb_Hash = ''ab''\<rparr>,
     TxsBeforeUpdate = [(''aa'', \<lparr>BlockHeight = 0, Outputs = [Some \<lparr>CompressedScript = [9, 1, 2, 3], CompressedAmount = 9\<rparr>]\<rparr>)],
     DereferencedAddressesTxs = [(''010203'', [''aa''])],
     NewTxOutputs = [(''aa'', \<lparr>BlockHeight = 0, Outputs = [None]\<rparr>),
       (''bb'', \<lparr>BlockHeight = 1, Outputs = [Some \<lparr>CompressedScript = [8, 4, 5], CompressedAmount = 0\<rparr>]\<rparr>)],
     NewAddreessReferences = [(''0405'', [''bb''])]\<rparr>"

lemma sample_checkpoint:
  "NewCheckpointFromNextBlock sample_lib 8 (store_reads (sim_store ''1'')) sample_block (sample_start []) =
     (Ok block_cp, sample_start [])"
  by code_simp

lemma sample_typed: "outputs_typed ''1'' (sim_ks (block_world f))"
  by (auto simp: outputs_typed_def block_world_def view_def sim_space_def)

lemma sample_entry: "stored_entry ''1'' (sim_ks (block_world f)) t =
  (if t = ''aa'' then Some \<lparr>BlockHeight = 0, Outputs = [Some \<lparr>CompressedScript = [9, 1, 2, 3], CompressedAmount = 9\<rparr>]\<rparr> else None)"
  by (auto simp: stored_entry_def block_world_def view_def sim_space_def)

lemma sample_addresses: "addrs_of sample_lib \<lparr>CompressedScript = [9, 1, 2, 3], CompressedAmount = 9\<rparr> = [''010203'']"
  by code_simp

lemma sample_members: "members (sim_ks (block_world f)) (addr_key ''1'' a) = (if a = ''010203'' then {''aa''} else {})"
  by (auto simp: block_world_def view_def sim_space_def members_def)

lemma sample_store_ok: "store_ok sample_lib ''1'' (sim_ks (block_world f))"
proof -
  have "holds_set (sim_ks (block_world f)) (addr_key ''1'' a)" for a
    by (simp add: block_world_def view_def sim_space_def holds_set_def sim_codec_def)
  moreover have "pays sample_lib (utxo ''1'' (sim_ks (block_world f))) a t \<Longrightarrow> a = ''010203'' \<and> t = ''aa''" for a t
    by (auto simp: pays_stored sample_entry pay_count_pos sample_addresses split: if_splits)
  moreover have "block_stored ''1'' (sim_ks (block_world f))"
    by (simp add: block_stored_def block_world_def view_def sim_space_def)
  ultimately show ?thesis
    by (fastforce simp: store_ok_def index_complete_def sample_typed sample_members)
qed

lemma sample_fresh: "fresh_block ''1'' sample_block (sim_ks (block_world f))"
  by (auto simp: fresh_block_def sample_block_def sample_members) (simp add: block_world_def view_def sim_space_def)

lemma sample_distinct: "distinct_inputs sample_block"
  by (simp add: distinct_inputs_def block_coords_def block_inputs_def sample_block_def map_filter_simps spent_coord_def)

lemma sample_commit: "fst (CommitCheckpoint (sim_store ''1'') block_cp (sample_start [])) = Ok ()"
  by code_simp

theorem block_refinement_witness:
  "\<exists>s2. CommitCheckpoint (sim_store ''1'') block_cp (sample_start []) = (Ok (), s2) \<and>
     utxo ''1'' (sim_ks (world s2)) = apply_block sample_lib 8 sample_block (utxo ''1'' (sim_ks (block_world [])))"
proof -
  obtain s2 where c: "CommitCheckpoint (sim_store ''1'') block_cp (sample_start []) = (Ok (), s2)"
    using sample_commit by (metis prod.collapse)
  from block_refinement [OF sim_backend [of "''1''"] _ sample_checkpoint c] c sample_store_ok [of "[]"]
  show ?thesis by simp
qed

theorem block_keeps_index_witness:
  "\<exists>s2. CommitCheckpoint (sim_store ''1'') block_cp (sample_start []) = (Ok (), s2) \<and>
     store_ok sample_lib ''1'' (sim_ks (world s2))"
proof -
  obtain s2 where c: "CommitCheckpoint (sim_store ''1'') block_cp (sample_start []) = (Ok (), s2)"
    using sample_commit by (metis prod.collapse)
  from block_keeps_index [OF sim_backend [of "''1''"] _ _ sample_distinct sample_checkpoint c] c
    sample_store_ok [of "[]"] sample_fresh [of "[]"]
  show ?thesis by simp
qed

theorem index_changes_exact_witness:
  "pays sample_lib (utxo ''1'' (sim_ks (block_world []))) ''010203'' ''aa'' \<and>
   \<not> pays sample_lib (apply_block sample_lib 8 sample_block (utxo ''1'' (sim_ks (block_world [])))) ''010203'' ''aa''"
  using index_changes_exact [OF sim_backend [of "''1''"] _ _ sample_distinct sample_checkpoint, of "''aa''" "''010203''"]
    sample_store_ok [of "[]"] sample_fresh [of "[]"]
  by (simp add: block_cp_def ids_of_def)

text \<open>The answer of the update is lost, and the start after it restores the old state.\<close>

definition lost :: "bool list" where "lost = [False, False, False, False, True]"

lemma lost_checkpoint:
  "\<exists>s1. NewCheckpointFromNextBlock sample_lib 8 (store_reads (sim_store ''1'')) sample_block (sample_start lost) = (Ok block_cp, s1) \<and>
     fst (CommitCheckpoint (sim_store ''1'') block_cp s1) \<noteq> Ok () \<and>
     fst (New (sim_store ''1'') (world (snd (CommitCheckpoint (sim_store ''1'') block_cp s1)))) = Ok ()"
proof -
  let ?n = "NewCheckpointFromNextBlock sample_lib 8 (store_reads (sim_store ''1'')) sample_block (sample_start lost)"
  have "fst ?n = Ok block_cp" "fst (CommitCheckpoint (sim_store ''1'') block_cp (snd ?n)) \<noteq> Ok ()"
    "fst (New (sim_store ''1'') (world (snd (CommitCheckpoint (sim_store ''1'') block_cp (snd ?n))))) = Ok ()"
    by code_simp+
  then show ?thesis by (metis prod.collapse)
qed

theorem block_crash_recovery_witness:
  "\<exists>w s3. New (sim_store ''1'') w = (Ok (), s3) \<and> sim_ck (world s3) = NoFile \<and>
     utxo ''1'' (sim_ks (world s3)) \<in> {utxo ''1'' (sim_ks (block_world lost)),
       apply_block sample_lib 8 sample_block (utxo ''1'' (sim_ks (block_world lost)))}"
proof -
  obtain s1 where n: "NewCheckpointFromNextBlock sample_lib 8 (store_reads (sim_store ''1'')) sample_block (sample_start lost) = (Ok block_cp, s1)"
    and f: "fst (New (sim_store ''1'') (world (snd (CommitCheckpoint (sim_store ''1'') block_cp s1)))) = Ok ()"
    using lost_checkpoint by blast
  obtain r s2 where c: "CommitCheckpoint (sim_store ''1'') block_cp s1 = (r, s2)" by fastforce
  obtain s3 where s3: "New (sim_store ''1'') (world s2) = (Ok (), s3)" using f c by (metis prod.collapse snd_conv)
  have k: "sim_ks (block_world lost) (hash_key ''1'') \<noteq> Some (Val (VString (hash_String (bh_Hash sample_block))))"
    "sim_ck (block_world lost) = NoFile"
    by (simp_all add: block_world_def view_def sim_space_def file_view_def) code_simp
  from block_crash_recovery [OF sim_backend [of "''1''"] _ _ sample_distinct _ _ _ n c restarts.none s3]
    sample_store_ok [of lost] sample_fresh [of lost] k s3
  show ?thesis by auto
qed

text \<open>The run: the update of the block is lost in a crash, the indexer restarts twice and commits it.\<close>

theorem indexed_refines_witness:
  "\<exists>bs s'. indexed sample_lib 8 (sim_store ''1'') sim_ks bs (sample_start []) s' \<and> bs = [sample_block] \<and>
     utxo ''1'' (sim_ks (world s')) = apply_blocks sample_lib 8 [sample_block] (utxo ''1'' (sim_ks (block_world [])))"
proof -
  obtain s2 where c: "CommitCheckpoint (sim_store ''1'') block_cp (sample_start []) = (Ok (), s2)"
    using sample_commit by (metis prod.collapse)
  have i: "indexed sample_lib 8 (sim_store ''1'') sim_ks ([] @ [sample_block]) (sample_start []) s2"
    by (rule indexed.commit [OF indexed.start _ sample_distinct sample_checkpoint c]) (simp add: sample_fresh)
  have "sim_ck (world (sample_start [])) = NoFile" by (simp add: block_world_def file_view_def)
  from indexed_refines [OF i sim_backend [of "''1''"] _ this] sample_store_ok [of "[]"] i show ?thesis by auto
qed

section \<open>Which blocks are refused\<close>

text \<open>
  C30: the guards. A block at the stored height is reported as no difference, one that is not the next
  one as too far; without a stored block any block is taken, of any height, and its checkpoint carries
  no outputs at all. Nothing is written in any of the cases.
\<close>

theorem NewCheckpoint_guards:
  assumes "rd_GetBlockHash R w = (Ok h, w1)" and "rd_GetBlockHeight R w1 = (Ok n, w2)"
    and "rd_GetBlockHash R' w = (Err e, w1)" and "errors_is e ErrBlockHashNotFound"
  shows "(bh_Height b = n \<longrightarrow> NewCheckpointFromNextBlock lib d R b w = (Err ErrNoDiff, w2)) \<and>
    (bh_Height b \<noteq> n \<and> bh_Height b \<noteq> wrap64 (n + 1) \<longrightarrow>
       NewCheckpointFromNextBlock lib d R b w = (Err ErrNextBlockTooFar, w2)) \<and>
    NewCheckpointFromNextBlock lib d R' b w =
      (Ok (NewUTXOSpendingCheckpoint None (Some \<lparr>cb_Height = bh_Height b, cb_Hash = hash_String (bh_Hash b)\<rparr>) [] [] [] []), w1)"
  using assms
  by (simp add: NewCheckpointFromNextBlock_def previous_block_def bindS_def tryS_def wrapS_def failS_def retS_def)

definition sample_reads :: "(string, go_error) sum \<Rightarrow> (nat utxo_reads)" where
  "sample_reads h = \<lparr>rd_GetOutputsByTxID = (\<lambda>t. failS ErrNotFound), rd_GetBlockHeight = retS 7,
     rd_GetBlockHash = (case h of Inl s \<Rightarrow> retS s | Inr e \<Rightarrow> failS e)\<rparr>"

theorem NewCheckpoint_guards_witness:
  "NewCheckpointFromNextBlock sample_lib 8 (sample_reads (Inl ''h'')) (sample_block\<lparr>bh_Height := 7\<rparr>) 0 = (Err ErrNoDiff, 0) \<and>
   NewCheckpointFromNextBlock sample_lib 8 (sample_reads (Inl ''h'')) (sample_block\<lparr>bh_Height := 9\<rparr>) 0 = (Err ErrNextBlockTooFar, 0)"
  using NewCheckpoint_guards [of "sample_reads (Inl ''h'')" 0 "''h''" 0 7 0
      "sample_reads (Inr ErrBlockHashNotFound)" ErrBlockHashNotFound "sample_block\<lparr>bh_Height := 7\<rparr>" sample_lib 8]
    NewCheckpoint_guards [of "sample_reads (Inl ''h'')" 0 "''h''" 0 7 0
      "sample_reads (Inr ErrBlockHashNotFound)" ErrBlockHashNotFound "sample_block\<lparr>bh_Height := 9\<rparr>" sample_lib 8]
  by (simp add: sample_reads_def retS_def failS_def wrap64_def)



end
