(* ===== verification/Address_Query.thy ===== *)
theory Address_Query
  imports Address_Index Deployment
begin

text \<open>
  The query for the unspent outputs of an address. The law of \<open>MulGet\<close> is an interface of its own,
  since the Redis store keeps it only when its command is answered; with it, and a complete index, the
  query gives exactly the outputs of the UTXO set that pay to the address.
\<close>

locale mulget_laws = kv_laws S ks ck
  for S :: "'w kv_store" and ks :: "'w \<Rightarrow> kstate" and ck :: "'w \<Rightarrow> 'r" +
  fixes failed :: "string list \<Rightarrow> 'w \<Rightarrow> bool"
  assumes MulGet_frame: "kv_MulGet S t keys w = (r, w') \<Longrightarrow> ks w' = ks w \<and> ck w' = ck w"
    and MulGet_failed: "failed keys w \<Longrightarrow> kv_MulGet S t keys w = (r, w') \<Longrightarrow> r = Ok []"
    and MulGet_keys: "kv_MulGet S t keys w = (Ok vs, w') \<Longrightarrow> \<not> failed keys w \<Longrightarrow> List.map fst vs = keys"
    and MulGet_none: "kv_MulGet S t keys w = (Ok vs, w') \<Longrightarrow> (k, x) \<in> set vs \<Longrightarrow> ks w k = None \<Longrightarrow> x = None"
    and MulGet_value: "kv_MulGet S t keys w = (Ok vs, w') \<Longrightarrow> (k, x) \<in> set vs \<Longrightarrow> ks w k = Some (Val u) \<Longrightarrow>
      gotype_of u = t \<Longrightarrow> x = Some u"

section \<open>Redis keeps the law\<close>

text \<open>\<open>MGET\<close> answers one value per key, nil for a key that holds none; \<open>SMEMBERS\<close> answers each member once.\<close>

locale redis_mget = redis_client cdc cl rk ck
  for cdc :: "'raw codec" and cl :: "('w, 'raw) cmdable" and rk :: "'w \<Rightarrow> 'raw kspace" and ck :: "'w \<Rightarrow> 'r" +
  assumes MGET_frame: "r_MGet cl keys w = (q, w') \<Longrightarrow> rk w' = rk w \<and> ck w' = ck w \<and> q \<noteq> Panic"
    and MGET_Ok: "r_MGet cl keys w = (Ok vs, w') \<Longrightarrow>
      vs = List.map (\<lambda>k. case rk w k of Some (RStr raw) \<Rightarrow> MStr raw | _ \<Rightarrow> MNil) keys"

text \<open>The loop over the answers: one result per key, the decoded string.\<close>

lemma mulget_loop_answers:
  assumes "mulget_loop cdc t keys (List.map f keys) = Ok vs"
  shows "List.map fst vs = keys"
    and "(k, x) \<in> set vs \<Longrightarrow> (f k = MNil \<longrightarrow> x = None) \<and> (\<forall>raw. f k = MStr raw \<longrightarrow> (\<exists>v. Unmarshal cdc t raw = Ok v \<and> x = Some v))"
proof -
  have "List.map fst vs = keys \<and> (\<forall>(k, x) \<in> set vs. (f k = MNil \<longrightarrow> x = None) \<and>
      (\<forall>raw. f k = MStr raw \<longrightarrow> (\<exists>v. Unmarshal cdc t raw = Ok v \<and> x = Some v)))"
    using assms
  proof (induction keys arbitrary: vs)
    case (Cons key keys)
    then show ?case by (cases "f key") (fastforce simp: bindO_Ok_iff)+
  qed simp
  then show "List.map fst vs = keys"
    and "(k, x) \<in> set vs \<Longrightarrow> (f k = MNil \<longrightarrow> x = None) \<and> (\<forall>raw. f k = MStr raw \<longrightarrow> (\<exists>v. Unmarshal cdc t raw = Ok v \<and> x = Some v))"
    by auto
qed

context redis_mget
begin

definition mget_failed :: "string list \<Rightarrow> 'w \<Rightarrow> bool" where
  "mget_failed keys w \<longleftrightarrow> (\<exists>e w'. r_MGet cl keys w = (Err e, w'))"

lemma MulGet_cases:
  assumes "kv_MulGet (RedisStore cl cdc) t keys w = (r, w')"
  shows "rk w' = rk w \<and> ck w' = ck w" and "mget_failed keys w \<Longrightarrow> r = Ok []"
    and "\<not> mget_failed keys w \<Longrightarrow> r = mulget_loop cdc t keys
      (List.map (\<lambda>k. case rk w k of Some (RStr raw) \<Rightarrow> MStr raw | _ \<Rightarrow> MNil) keys)"
proof -
  obtain q v where q: "r_MGet cl keys w = (q, v)" by fastforce
  have "rk w' = rk w \<and> ck w' = ck w \<and> (mget_failed keys w \<longrightarrow> r = Ok []) \<and>
    (\<not> mget_failed keys w \<longrightarrow> r = mulget_loop cdc t keys
      (List.map (\<lambda>k. case rk w k of Some (RStr raw) \<Rightarrow> MStr raw | _ \<Rightarrow> MNil) keys))"
    using assms q MGET_frame [OF q] MGET_Ok [of keys w _ v]
    by (cases q) (auto simp: RedisStore_def RedisStore_MulGet_def mget_failed_def bindS_def tryS_def liftO_def)
  then show "rk w' = rk w \<and> ck w' = ck w" and "mget_failed keys w \<Longrightarrow> r = Ok []"
    and "\<not> mget_failed keys w \<Longrightarrow> r = mulget_loop cdc t keys
      (List.map (\<lambda>k. case rk w k of Some (RStr raw) \<Rightarrow> MStr raw | _ \<Rightarrow> MNil) keys)"
    by blast+
qed

lemma MulGet_answer:
  assumes "kv_MulGet (RedisStore cl cdc) t keys w = (Ok vs, w')" and "(k, x) \<in> set vs"
  shows "view cdc (rk w) k = None \<longrightarrow> x = None"
    and "view cdc (rk w) k = Some (Val u) \<longrightarrow> gotype_of u = t \<longrightarrow> x = Some u"
proof -
  have nf: "\<not> mget_failed keys w" using MulGet_cases(2) [OF assms(1)] assms(2) by auto
  note a = mulget_loop_answers(2) [OF MulGet_cases(3) [OF assms(1) nf, symmetric] assms(2)]
  show "view cdc (rk w) k = None \<longrightarrow> x = None"
    using a by (auto simp: view_def split: option.splits rval.splits)
  show "view cdc (rk w) k = Some (Val u) \<longrightarrow> gotype_of u = t \<longrightarrow> x = Some u"
    using a decoded_Val [of _ u] Unmarshal_Marshal [of u]
    by (fastforce simp: view_def split: option.splits rval.splits)
qed

end

sublocale redis_mget \<subseteq> mget: mulget_laws "RedisStore cl cdc" "\<lambda>w. view cdc (rk w)" ck mget_failed
  by unfold_locales
    (auto dest: MulGet_cases(1,2) MulGet_answer MulGet_cases(3) [THEN sym] simp: mulget_loop_answers(1))

interpretation sim: redis_mget sim_codec sim_client "\<lambda>w. sim_space (sim_keys w)" "\<lambda>w. file_view sim_mp (sim_file w)"
  by unfold_locales
    (auto simp: sim_client_def sim_space_lookup elim!: sim_op_cases split: option.splits sum.splits)

section \<open>The query\<close>

locale query_backend =
  utxo_backend U D ks ck pend + mulget_laws "kv_base (us_s U)" ks ck failed
  for U :: "('w, 'tx) utxo_store" and D :: "('w, 'tx) tx_driver" and ks :: "'w \<Rightarrow> kstate"
    and ck :: "'w \<Rightarrow> ckpt_file" and pend :: "'w \<Rightarrow> 'tx \<Rightarrow> kcmd list" and failed :: "string list \<Rightarrow> 'w \<Rightarrow> bool" +
  assumes GetSet_distinct: "set_GetSet (sets_base (us_sets U)) k w = (Ok ids, w') \<Longrightarrow> distinct ids"

locale deployment_query = deployment cdc cl rk D pipe rpend os mp fc + redis_mget cdc cl rk "\<lambda>w. file_view mp (fc w)"
  for cdc :: "'raw codec" and cl :: "('w, 'raw) cmdable" and rk :: "'w \<Rightarrow> 'raw kspace"
    and D :: "('w, 'tx) tx_driver" and pipe :: "'tx \<Rightarrow> ('w, 'raw) cmdable" and rpend :: "'w \<Rightarrow> 'tx \<Rightarrow> 'raw rcmd list"
    and os :: "('w, 'f) file_ops" and mp :: "'f checkpoint_codec" and fc :: "'w \<Rightarrow> 'f option" +
  assumes SMEMBERS_distinct: "r_SMembers cl k w = (Ok ids, w') \<Longrightarrow> distinct ids"

sublocale deployment_query \<subseteq> query: query_backend "redis_utxo_store cl cdc pipe D os mp ver" D
  "\<lambda>w. view cdc (rk w)" "\<lambda>w. file_view mp (fc w)" "\<lambda>w tx. List.map (view_cmd cdc) (rpend w tx)" mget_failed
  for ver
  unfolding query_backend_def query_backend_axioms_def
  using backend.utxo_backend_axioms mget.mulget_laws_axioms SMEMBERS_distinct
  by (auto simp: redis_utxo_store_def RedisSets_def RedisSets_GetSet_def wrapS_Ok_iff)

interpretation sim_query: deployment_query sim_codec sim_client "\<lambda>w. sim_space (sim_keys w)" sim_driver sim_pipe
  "\<lambda>w tx. sim_queue w" sim_os sim_mp sim_file
  by unfold_locales (auto simp: sim_client_def elim!: sim_op_cases split: option.splits sum.splits)

text \<open>The unspent outputs of an entry that pay to an address, as the query lists them.\<close>

definition paying :: "('key, 'addr) btc_lib \<Rightarrow> string \<Rightarrow> tx_outputs \<Rightarrow> nat list" where
  "paying lib a e = filter (\<lambda>i. 0 < pay_count lib a (Outputs e ! i)) [0..<length (Outputs e)]"

definition listed :: "('key, 'addr) btc_lib \<Rightarrow> string \<Rightarrow> string \<Rightarrow> tx_outputs \<Rightarrow> utxo_entry list" where
  "listed lib a t e = List.map (\<lambda>i. \<lparr>ue_TxID = t, ue_Vout = of_nat i, ue_Output = Outputs e ! i,
     ue_BlockHeight = BlockHeight e\<rparr>) (paying lib a e)"

lemma unspent_of_outputs_from:
  assumes "unspent_of_outputs lib a t e k os = Ok es" and "os = drop k (Outputs e)" and "k \<le> length (Outputs e)"
  shows "es = List.map (\<lambda>i. \<lparr>ue_TxID = t, ue_Vout = of_nat i, ue_Output = Outputs e ! i, ue_BlockHeight = BlockHeight e\<rparr>)
    (filter (\<lambda>i. 0 < pay_count lib a (Outputs e ! i)) [k..<length (Outputs e)])"
  using assms
proof (induction os arbitrary: k es)
  case (Cons p os)
  have k: "k < length (Outputs e)" using Cons.prems(2) by (metis drop_all leI list.distinct(1))
  have "p # os = Outputs e ! k # drop (Suc k) (Outputs e)" using Cons.prems(2) Cons_nth_drop_Suc [OF k] by simp
  then have p: "p = Outputs e ! k" and os: "os = drop (Suc k) (Outputs e)" by simp_all
  note u = upt_conv_Cons [OF k]
  show ?case
  proof (cases p)
    case None
    then show ?thesis using Cons.IH [of "Suc k" es] Cons.prems(1) k os p
      by (simp add: isSpentOutput_def u pay_count_def)
  next
    case (Some o1)
    then obtain as rest where as: "GetAddresses lib o1 = Ok as" "unspent_of_outputs lib a t e (Suc k) os = Ok rest"
      and es: "es = (if a \<in> set as then \<lparr>ue_TxID = t, ue_Vout = of_nat k, ue_Output = Outputs e ! k,
                  ue_BlockHeight = BlockHeight e\<rparr> # rest else rest)"
      using Cons.prems(1) by (auto simp: isSpentOutput_def bindO_Ok_iff GetAddresses_ptr_def)
    have "0 < pay_count lib a (Outputs e ! k) \<longleftrightarrow> a \<in> set as"
      using Some as(1) p by (auto simp: pay_count_pos addrs_of_def)
    then show ?thesis using Cons.IH [OF as(2) os] k es by (simp add: u)
  qed
qed simp

lemma unspent_of_outputs_listed:
  "unspent_of_outputs lib a t e 0 (Outputs e) = Ok es \<Longrightarrow> es = listed lib a t e"
  using unspent_of_outputs_from [of lib a t e 0 "Outputs e" es] by (simp add: listed_def paying_def)

lemma unspent_of_entries_listed:
  "unspent_of_entries lib a ps = Ok es \<Longrightarrow> es = concat (List.map (\<lambda>(t, e). listed lib a t e) ps)"
  by (induction ps arbitrary: es) (auto simp: bindO_Ok_iff dest!: unspent_of_outputs_listed)

text \<open>The entry of a transaction, or an empty one.\<close>

definition entry_or_empty :: "string \<Rightarrow> kstate \<Rightarrow> string \<Rightarrow> tx_outputs" where
  "entry_or_empty v m t = (case stored_entry v m t of Some e \<Rightarrow> e | None \<Rightarrow> \<lparr>BlockHeight = 0, Outputs = []\<rparr>)"

lemma answers_by_id:
  assumes "List.map fst vs = List.map key ids" and "\<And>t. t \<in> set ids \<Longrightarrow> f (key t) = t"
    and "\<And>t x. (key t, x) \<in> set vs \<Longrightarrow> g x = h t"
  shows "List.map (\<lambda>(k, x). (f k, g x)) vs = List.map (\<lambda>t. (t, h t)) ids"
  using assms
proof (induction ids arbitrary: vs)
  case (Cons t ids)
  then obtain x vs' where "vs = (key t, x) # vs'" by (cases vs) auto
  with Cons show ?case by auto
qed simp

lemma id_of_key:
  assumes "distinct ids" and "inj key" and "t \<in> set ids"
  shows "map_of (rev (zip (List.map key ids) ids)) (key t) = Some t"
proof (rule map_of_is_SomeI)
  have "List.map fst (rev (zip (List.map key ids) ids)) = rev (List.map fst (zip (List.map key ids) ids))"
    by (simp only: rev_map)
  also have "\<dots> = rev (List.map key ids)" by simp
  finally show "distinct (List.map fst (rev (zip (List.map key ids) ids)))"
    using assms(1) inj_on_subset [OF assms(2) subset_UNIV] by (simp add: distinct_map)
  show "(key t, t) \<in> set (rev (zip (List.map key ids) ids))"
    using assms(3) by (induction ids) auto
qed

text \<open>
  The query with another goroutine at work between its two reads: \<open>env\<close> is what that goroutine does to
  the world.
\<close>

definition between :: "('w \<Rightarrow> 'w) \<Rightarrow> 'w base_store \<Rightarrow> 'w base_store" where
  "between env B = B\<lparr>b_s := (b_s B)\<lparr>kv_MulGet := (\<lambda>t keys w. kv_MulGet (b_s B) t keys (env w))\<rparr>\<rparr>"

lemma between_sel [simp]:
  "kv_MulGet (b_s (between env B)) t keys = (\<lambda>w. kv_MulGet (b_s B) t keys (env w))"
  "getAddressUTXOTransactionIds (between env B) = getAddressUTXOTransactionIds B" "b_dbVer (between env B) = b_dbVer B"
  by (simp_all add: between_def getAddressUTXOTransactionIds_def fun_eq_iff)

lemma between_id: "between (\<lambda>w. w) B = B"
  by (simp add: between_def)

context query_backend
begin

lemma query_between:
  assumes q: "getUnspentOutputsByAddress lib (between env (base U)) a w = (Ok es, w')"
    and ty: "\<And>v. ks v = ks w \<Longrightarrow> ck v = ck w \<Longrightarrow> outputs_typed (us_dbVer U) (ks (env v))"
  shows "\<exists>ids w1. distinct ids \<and> set ids = members (ks w) (addr_key (us_dbVer U) a) \<and> ks w1 = ks w \<and> ck w1 = ck w \<and>
    (w' = w1 \<or> ks w' = ks (env w1) \<and> ck w' = ck (env w1)) \<and>
    (es = concat (List.map (\<lambda>t. listed lib a t (entry_or_empty (us_dbVer U) (ks (env w1)) t)) ids) \<or>
     (es = [] \<and> failed (List.map (tx_key (us_dbVer U)) ids) (env w1)))"
proof -
  let ?v = "us_dbVer U"
  obtain ids w1 where g: "getAddressUTXOTransactionIds (base U) a w = (Ok ids, w1)"
    and r: "(if ids = [] then retS [] else
       let txIDKeys = List.map (tx_key ?v) ids; txIDKeysFormatted = map_of (rev (zip txIDKeys ids)) in
       bindS (wrapS ''failed to get tx outputs'' (\<lambda>w. kv_MulGet (kv_base (us_s U)) TOutputs txIDKeys (env w))) (\<lambda>values.
       liftO (unspent_of_entries lib a
         (List.map (\<lambda>(key, val).
            ((case txIDKeysFormatted key of Some txID \<Rightarrow> txID | None \<Rightarrow> ''''),
             (case val of Some v \<Rightarrow> as_outputs v | None \<Rightarrow> \<lparr>BlockHeight = 0, Outputs = []\<rparr>))) values)))) w1 = (Ok es, w')"
    using q unfolding getUnspentOutputsByAddress_def between_sel base_sel by (rule bindS_OkE)
  note o = obsD [OF getAddress_obs refl g]
  have di: "distinct ids" using g GetSet_distinct by (auto simp: getAddressUTXOTransactionIds_def wrapS_Ok_iff)
  show ?thesis
  proof (cases "ids = []")
    case True
    then show ?thesis using r o by (intro exI [of _ ids] exI [of _ w1]) (force simp: retS_Ok_iff)
  next
    case False
    let ?w = "env w1" and ?keys = "List.map (tx_key ?v) ids" and ?f = "map_of (rev (zip (List.map (tx_key ?v) ids) ids))"
    obtain vs where m: "kv_MulGet (kv_base (us_s U)) TOutputs ?keys ?w = (Ok vs, w')"
      and u: "unspent_of_entries lib a (List.map (\<lambda>(key, val). ((case ?f key of Some txID \<Rightarrow> txID | None \<Rightarrow> ''''),
             (case val of Some v \<Rightarrow> as_outputs v | None \<Rightarrow> \<lparr>BlockHeight = 0, Outputs = []\<rparr>))) vs) = Ok es"
      using r False by (auto simp: Let_def bindS_Ok_iff wrapS_Ok_iff liftO_Ok_iff)
    note fr = MulGet_frame [OF m]
    have "es = concat (List.map (\<lambda>t. listed lib a t (entry_or_empty ?v (ks ?w) t)) ids) \<or> (es = [] \<and> failed ?keys ?w)"
    proof (cases "failed ?keys ?w")
      case True
      with MulGet_failed [OF True m] u show ?thesis by auto
    next
      case False
      have keys: "List.map fst vs = ?keys" using MulGet_keys [OF m False] .
      have val: "(case x of Some v \<Rightarrow> as_outputs v | None \<Rightarrow> \<lparr>BlockHeight = 0, Outputs = []\<rparr>) = entry_or_empty ?v (ks ?w) t"
        if "(tx_key ?v t, x) \<in> set vs" for t x
      proof (cases "ks ?w (tx_key ?v t)")
        case (Some y)
        then obtain e where "y = Val (VOutputs e)" using ty [of w1] o unfolding outputs_typed_def
          by (metis option.distinct(1) option.inject)
        with Some MulGet_value [OF m that, of "VOutputs e"] show ?thesis
          by (simp add: entry_or_empty_def stored_entry_def)
      qed (use MulGet_none [OF m that] in \<open>simp add: entry_or_empty_def stored_entry_def\<close>)
      have "inj (tx_key ?v)" by (auto simp: inj_def)
      note id_of_key [OF di this]
      then have "List.map (\<lambda>(key, val). ((case ?f key of Some txID \<Rightarrow> txID | None \<Rightarrow> ''''),
             (case val of Some v \<Rightarrow> as_outputs v | None \<Rightarrow> \<lparr>BlockHeight = 0, Outputs = []\<rparr>))) vs =
          List.map (\<lambda>t. (t, entry_or_empty ?v (ks ?w) t)) ids"
        by (intro answers_by_id [OF keys _ val]) simp
      then have "unspent_of_entries lib a (List.map (\<lambda>t. (t, entry_or_empty ?v (ks ?w) t)) ids) = Ok es"
        using u by (simp only:)
      from unspent_of_entries_listed [OF this] show ?thesis by (simp add: o_def)
    qed
    with o fr di show ?thesis by (intro exI [of _ ids] exI [of _ w1]) auto
  qed
qed

lemma query_outcome:
  assumes q: "getUnspentOutputsByAddress lib (base U) a w = (Ok es, w')" and ty: "outputs_typed (us_dbVer U) (ks w)"
  shows "ks w' = ks w \<and> ck w' = ck w \<and> (\<exists>ids. distinct ids \<and> set ids = members (ks w) (addr_key (us_dbVer U) a) \<and>
    (es = concat (List.map (\<lambda>t. listed lib a t (entry_or_empty (us_dbVer U) (ks w) t)) ids) \<or>
     (es = [] \<and> (\<exists>w1. failed (List.map (tx_key (us_dbVer U)) ids) w1))))"
proof -
  from q have "getUnspentOutputsByAddress lib (between (\<lambda>w. w) (base U)) a w = (Ok es, w')" by (simp add: between_id)
  from query_between [OF this] ty obtain ids w1 where o: "distinct ids" "set ids = members (ks w) (addr_key (us_dbVer U) a)"
      "ks w1 = ks w" "ck w1 = ck w" "w' = w1 \<or> ks w' = ks w1 \<and> ck w' = ck w1"
    and es: "es = concat (List.map (\<lambda>t. listed lib a t (entry_or_empty (us_dbVer U) (ks w1) t)) ids) \<or>
     (es = [] \<and> failed (List.map (tx_key (us_dbVer U)) ids) w1)"
    by auto
  from es show ?thesis using o by (intro conjI exI [of _ ids]) (auto simp del: listed_def)
qed

end

section \<open>Exactness\<close>

text \<open>The coordinates of the unspent outputs that pay to an address, and their value in 64 bits.\<close>

definition holdings :: "('key, 'addr) btc_lib \<Rightarrow> utxo_set \<Rightarrow> string \<Rightarrow> (string \<times> nat) set" where
  "holdings lib u a = {c. \<exists>h o1. u c = Some (h, o1) \<and> a \<in> set (addrs_of lib o1)}"

definition balance :: "('key, 'addr) btc_lib \<Rightarrow> utxo_set \<Rightarrow> string \<Rightarrow> u64" where
  "balance lib u a = (\<Sum>c \<in> holdings lib u a. GetAmount (snd (the (u c))))"

lemma paying_iff: "i \<in> set (paying lib a (entry_or_empty v m t)) \<longleftrightarrow> (t, i) \<in> holdings lib (utxo v m) a"
proof (cases "stored_entry v m t")
  case (Some e)
  then show ?thesis
    by (cases "i < length (Outputs e)")
      (auto simp: paying_def entry_or_empty_def holdings_def utxo_def entries_utxo_def pay_count_pos)
qed (simp add: paying_def entry_or_empty_def holdings_def utxo_def entries_utxo_def)

lemma distinct_paying: "distinct (paying lib a e)"
  by (simp add: paying_def)

lemma holdings_member:
  assumes "index_complete lib v m" and "(t, i) \<in> holdings lib (utxo v m) a"
  shows "t \<in> members m (addr_key v a)"
  using assms unfolding index_complete_def holdings_def pays_def by blast

lemma listed_entry:
  assumes "(t, i) \<in> holdings lib (utxo v m) a"
  shows "\<exists>h o1. utxo v m (t, i) = Some (h, o1) \<and> BlockHeight (entry_or_empty v m t) = h \<and>
    Outputs (entry_or_empty v m t) ! i = Some o1"
  using assms
  by (auto simp: holdings_def utxo_def entries_utxo_def entry_or_empty_def split: option.splits if_splits)

lemma listed_set:
  "set (listed lib a t (entry_or_empty v m t)) = {\<lparr>ue_TxID = t, ue_Vout = of_nat i, ue_Output = Some o1, ue_BlockHeight = h\<rparr>
     | i h o1. utxo v m (t, i) = Some (h, o1) \<and> a \<in> set (addrs_of lib o1)}"
proof (intro set_eqI iffI)
  fix x
  assume "x \<in> set (listed lib a t (entry_or_empty v m t))"
  then obtain i where i: "(t, i) \<in> holdings lib (utxo v m) a" and x: "x = \<lparr>ue_TxID = t, ue_Vout = of_nat i,
      ue_Output = Outputs (entry_or_empty v m t) ! i, ue_BlockHeight = BlockHeight (entry_or_empty v m t)\<rparr>"
    by (auto simp: listed_def paying_iff)
  from listed_entry [OF i] i show "x \<in> {\<lparr>ue_TxID = t, ue_Vout = of_nat i, ue_Output = Some o1, ue_BlockHeight = h\<rparr>
     | i h o1. utxo v m (t, i) = Some (h, o1) \<and> a \<in> set (addrs_of lib o1)}"
    unfolding x holdings_def by fastforce
next
  fix x
  assume "x \<in> {\<lparr>ue_TxID = t, ue_Vout = of_nat i, ue_Output = Some o1, ue_BlockHeight = h\<rparr>
     | i h o1. utxo v m (t, i) = Some (h, o1) \<and> a \<in> set (addrs_of lib o1)}"
  then obtain i h o1 where u: "utxo v m (t, i) = Some (h, o1)" "a \<in> set (addrs_of lib o1)"
    and x: "x = \<lparr>ue_TxID = t, ue_Vout = of_nat i, ue_Output = Some o1, ue_BlockHeight = h\<rparr>" by blast
  then have i: "(t, i) \<in> holdings lib (utxo v m) a" by (simp add: holdings_def)
  with listed_entry [OF i] u x show "x \<in> set (listed lib a t (entry_or_empty v m t))"
    by (auto simp: listed_def paying_iff)
qed

lemma listed_amounts:
  assumes "\<And>t i. (t, i) \<in> holdings lib (utxo v m) a \<Longrightarrow> t \<in> set ids" and "distinct ids"
  shows "(\<Sum>x \<leftarrow> concat (List.map (\<lambda>t. listed lib a t (entry_or_empty v m t)) ids). GetAmount (the (ue_Output x)))
    = balance lib (utxo v m) a"
proof -
  let ?p = "\<lambda>t. set (paying lib a (entry_or_empty v m t))" and ?f = "\<lambda>t i. GetAmount (the (Outputs (entry_or_empty v m t) ! i))"
  have one: "(\<Sum>x \<leftarrow> listed lib a t (entry_or_empty v m t). GetAmount (the (ue_Output x))) = (\<Sum>i \<in> ?p t. ?f t i)" for t
    by (simp add: listed_def o_def sum_list_distinct_conv_sum_set distinct_paying)
  have "(\<Sum>x \<leftarrow> concat (List.map (\<lambda>t. listed lib a t (entry_or_empty v m t)) ids). GetAmount (the (ue_Output x)))
      = (\<Sum>t \<leftarrow> ids. \<Sum>i \<in> ?p t. ?f t i)"
    by (induction ids) (simp_all add: one)
  also have "\<dots> = (\<Sum>t \<in> set ids. \<Sum>i \<in> ?p t. ?f t i)" using assms(2) by (simp add: sum_list_distinct_conv_sum_set)
  also have "\<dots> = (\<Sum>(t, i) \<in> Sigma (set ids) ?p. ?f t i)" by (simp add: sum.Sigma)
  also have "Sigma (set ids) ?p = holdings lib (utxo v m) a"
    using assms(1) by (auto simp: paying_iff)
  also have "(\<Sum>(t, i) \<in> holdings lib (utxo v m) a. ?f t i) = balance lib (utxo v m) a"
    unfolding balance_def by (rule sum.cong) (auto dest!: listed_entry)
  finally show ?thesis .
qed

context query_backend
begin

text \<open>The query over a well-formed store, when the server answered it.\<close>

lemma query_exact:
  assumes q: "getUnspentOutputsByAddress lib (base U) a w = (Ok es, w')" and ok: "store_ok lib (us_dbVer U) (ks w)"
  defines "u \<equiv> utxo (us_dbVer U) (ks w)"
  shows "(set es = {\<lparr>ue_TxID = t, ue_Vout = of_nat i, ue_Output = Some o1, ue_BlockHeight = h\<rparr>
       | t i h o1. u (t, i) = Some (h, o1) \<and> a \<in> set (addrs_of lib o1)} \<and>
     (\<Sum>x \<leftarrow> es. GetAmount (the (ue_Output x))) = balance lib u a \<and> None \<notin> ue_Output ` set es) \<or>
    (es = [] \<and> (\<exists>keys w1. failed keys w1))"
proof -
  have ty: "outputs_typed (us_dbVer U) (ks w)" and ic: "index_complete lib (us_dbVer U) (ks w)"
    using ok by (simp_all add: store_ok_def)
  obtain ids where ids: "distinct ids" "set ids = members (ks w) (addr_key (us_dbVer U) a)"
    and es: "es = concat (List.map (\<lambda>t. listed lib a t (entry_or_empty (us_dbVer U) (ks w) t)) ids) \<or>
     (es = [] \<and> (\<exists>w1. failed (List.map (tx_key (us_dbVer U)) ids) w1))"
    using query_outcome [OF q ty] by blast
  have hold: "(t, i) \<in> holdings lib u a \<Longrightarrow> t \<in> set ids" for t i
    using holdings_member [OF ic] ids(2) by (simp add: u_def)
  from es show ?thesis
  proof
    assume e: "es = concat (List.map (\<lambda>t. listed lib a t (entry_or_empty (us_dbVer U) (ks w) t)) ids)"
    have "set es = (\<Union>t \<in> set ids. set (listed lib a t (entry_or_empty (us_dbVer U) (ks w) t)))" by (simp add: e)
    also have "\<dots> = {\<lparr>ue_TxID = t, ue_Vout = of_nat i, ue_Output = Some o1, ue_BlockHeight = h\<rparr>
       | t i h o1. u (t, i) = Some (h, o1) \<and> a \<in> set (addrs_of lib o1)}"
      unfolding listed_set using hold by (fastforce simp: u_def holdings_def)
    finally show ?thesis using listed_amounts [OF hold ids(1), unfolded u_def] e by (force simp: u_def)
  qed blast
qed

end

end
