(* ===== verification/Utxo_Service.thy ===== *)
theory Utxo_Service
  imports Address_Query
begin

text \<open>
  The service over the store (\<^verbatim>\<open>utxo/service/service.go\<close>), the handlers of the gRPC API
  (\<^verbatim>\<open>utxo/transport/grpc\<close>), the scanner that feeds blocks to a handler
  (\<^verbatim>\<open>blockchainscanner/scanner\<close>, \<^verbatim>\<open>blockchainscanner/state\<close>) and the handler the program gives it
  (\<^verbatim>\<open>cmd/utxo-indexer/main.go\<close>). Decoding of an address string, the node and the iterator over its
  blocks are parameters. Logging is left out.
\<close>

section \<open>The service\<close>

text \<open>\<open>UTXOStoreMethods\<close>, and the service with its spender and the address decoder.\<close>

record 'w service_store =
  sv_GetUnspentOutputsByAddress :: "string \<Rightarrow> ('w, utxo_entry list) st"
  sv_GetBlockHeight :: "('w, int) st"
  sv_GetBlockHash :: "('w, string) st"
  sv_CommitCheckpoint :: "checkpoint \<Rightarrow> ('w, unit) st"

record 'w utxo_service =
  svc_s :: "'w service_store"
  svc_NewCheckpointFromNextBlock :: "block \<Rightarrow> ('w, checkpoint) st"
  svc_DecodeAddress :: "string \<Rightarrow> bytes outcome"

definition Service_GetBlockHash :: "'w utxo_service \<Rightarrow> ('w, string) st" where
  "Service_GetBlockHash u = wrapS ''failed to get block hash from store'' (sv_GetBlockHash (svc_s u))"

definition Service_GetBlockHeight :: "'w utxo_service \<Rightarrow> ('w, int) st" where
  "Service_GetBlockHeight u = wrapS ''failed to get block height from store'' (sv_GetBlockHeight (svc_s u))"

definition GetUTXOByBase58Address :: "'w utxo_service \<Rightarrow> string \<Rightarrow> ('w, utxo_entry list) st" where
  "GetUTXOByBase58Address u address =
     (case svc_DecodeAddress u address of
        Ok scriptAddress \<Rightarrow> wrapS ''failed to get UTXO by address''
          (sv_GetUnspentOutputsByAddress (svc_s u) (hex_EncodeToString scriptAddress))
      | Err _ \<Rightarrow> failS ErrInvalidBase58Address
      | Panic \<Rightarrow> panicS)"

definition AddFromBlock :: "'w utxo_service \<Rightarrow> block \<Rightarrow> ('w, unit) st" where
  "AddFromBlock u b =
     bindS (tryS (svc_NewCheckpointFromNextBlock u b)) (\<lambda>res.
     case res of
       Inl err \<Rightarrow> if errors_is err ErrNoDiff then failS ErrBlockAlreadyStored
                  else failS (Wrap ''failed to create next spending checkpoint'' err)
     | Inr spendingCheckpoint \<Rightarrow>
         wrapS ''fialed to store new block outputs'' (sv_CommitCheckpoint (svc_s u) spendingCheckpoint))"

text \<open>The service the program builds: the store of the UTXO, and the spender over the same store.\<close>

definition store_service :: "('key, 'addr) btc_lib \<Rightarrow> int \<Rightarrow> (string \<Rightarrow> bytes outcome) \<Rightarrow> ('w, 'tx) utxo_store \<Rightarrow>
    'w store_state utxo_service" where
  "store_service lib d dec U =
     \<lparr>svc_s = \<lparr>sv_GetUnspentOutputsByAddress = GetUnspentOutputsByAddress lib U, sv_GetBlockHeight = GetBlockHeight U,
        sv_GetBlockHash = GetBlockHash U, sv_CommitCheckpoint = CommitCheckpoint U\<rparr>,
      svc_NewCheckpointFromNextBlock = NewCheckpointFromNextBlock lib d (store_reads U), svc_DecodeAddress = dec\<rparr>"

section \<open>The handlers of the API\<close>

text \<open>\<open>status.Error(code, message)\<close>; the causes are not sent to the client.\<close>

definition status_Error :: "string \<Rightarrow> string \<Rightarrow> go_error" where
  "status_Error code desc = Msg (''rpc error: code = '' @ code @ '' desc = '' @ desc)"

record account_balance =
  Confirmed :: u64
  Unconfirmed :: u64

record api_output =
  ao_TxId :: string
  ao_Amount :: u64
  ao_Script :: string
  ao_Index :: int
  ao_BlockHeight :: int

text \<open>\<open>output.Output.GetAmount()\<close> reads a field through the pointer.\<close>

definition entry_amount :: "utxo_entry \<Rightarrow> u64 outcome" where
  "entry_amount x = (case ue_Output x of None \<Rightarrow> Panic | Some o1 \<Rightarrow> Ok (GetAmount o1))"

definition outputs_of_address :: "'w utxo_service \<Rightarrow> string \<Rightarrow> string \<Rightarrow> ('w, utxo_entry list) st" where
  "outputs_of_address u msg address =
     bindS (tryS (GetUTXOByBase58Address u address)) (\<lambda>res.
     case res of
       Inl err \<Rightarrow> failS (if errors_is err ErrInvalidBase58Address
                         then status_Error ''InvalidArgument'' ''invalid address''
                         else status_Error ''Internal'' msg)
     | Inr outputs \<Rightarrow> retS outputs)"

definition GetBalance :: "'w utxo_service \<Rightarrow> string \<Rightarrow> ('w, account_balance) st" where
  "GetBalance u address =
     bindS (outputs_of_address u ''failed to get outputs'' address) (\<lambda>outputs.
     bindS (liftO (foldO (\<lambda>total x. bindO (entry_amount x) (\<lambda>n. Ok (total + n))) 0 outputs)) (\<lambda>totalAmount.
     retS \<lparr>Confirmed = totalAmount, Unconfirmed = totalAmount\<rparr>))"

definition api_output_of :: "('key, 'addr) btc_lib \<Rightarrow> utxo_entry \<Rightarrow> api_output outcome" where
  "api_output_of lib x =
     (case ue_Output x of
        None \<Rightarrow> Panic
      | Some o1 \<Rightarrow>
          bindO (GetScriptBytes lib o1) (\<lambda>scriptBytes.
          Ok \<lparr>ao_TxId = ue_TxID x, ao_Amount = GetAmount o1, ao_Script = hex_EncodeToString scriptBytes,
              ao_Index = sint (ue_Vout x), ao_BlockHeight = ue_BlockHeight x\<rparr>))"

definition GetUnspentOutputs :: "('key, 'addr) btc_lib \<Rightarrow> 'w utxo_service \<Rightarrow> string \<Rightarrow> ('w, api_output list) st" where
  "GetUnspentOutputs lib u address =
     bindS (outputs_of_address u ''failed to get UTXO'' address) (\<lambda>outputs.
     liftO (mapO (api_output_of lib) outputs))"

text \<open>What the node reports about itself.\<close>

record 'w node_info =
  ni_GetBlocksCount :: "('w, int) st"
  ni_GetHeadersCount :: "('w, int) st"

record chain_info =
  ci_Height :: int
  ci_BestBlockHash :: string
  ci_Decimals :: int
  ci_IsSynced :: bool

definition GetInfo :: "'w utxo_service \<Rightarrow> 'w node_info \<Rightarrow> int \<Rightarrow> ('w, chain_info) st" where
  "GetInfo u node decimals =
     bindS (maskS (status_Error ''Internal'' ''failed to get blockchain height'') (Service_GetBlockHeight u)) (\<lambda>blockHeight.
     bindS (maskS (status_Error ''Internal'' ''failed toget blockchain hash'') (Service_GetBlockHash u)) (\<lambda>blockHash.
     bindS (maskS (status_Error ''Internal'' (''failed to get node'' @ [CHR 0x27] @ ''s blocks count'')) (ni_GetBlocksCount node)) (\<lambda>nodeBlocksCount.
     bindS (maskS (status_Error ''Internal'' (''failed to get node'' @ [CHR 0x27] @ ''s headers count'')) (ni_GetHeadersCount node)) (\<lambda>nodeHeadersCount.
     let nodeIsSynced = (nodeHeadersCount = nodeBlocksCount) in
     retS \<lparr>ci_Height = blockHeight, ci_BestBlockHash = blockHash,
           ci_Decimals = sint (of_int decimals :: 32 word), ci_IsSynced = (nodeBlocksCount = blockHeight \<and> nodeIsSynced)\<rparr>))))"

datatype serving_status = NOT_SERVING | SERVING

definition health_Check :: "'w utxo_service \<Rightarrow> 'w node_info \<Rightarrow> ('w, serving_status) st" where
  "health_Check u node =
     bindS (tryS (ni_GetBlocksCount node)) (\<lambda>res.
     case res of
       Inl _ \<Rightarrow> retS NOT_SERVING
     | Inr blockchainBlocksCount \<Rightarrow>
         bindS (tryS (Service_GetBlockHeight u)) (\<lambda>res.
         case res of
           Inl _ \<Rightarrow> retS NOT_SERVING
         | Inr indexerBlocksCount \<Rightarrow>
             retS (if blockchainBlocksCount \<noteq> indexerBlocksCount then NOT_SERVING else SERVING)))"

section \<open>The scanner\<close>

record 'w scanner_state =
  GetLastScannedBlockHash :: "('w, string) st"
  UpdateLastScannedBlockHash :: "string \<Rightarrow> ('w, unit) st"

text \<open>The two implementations of the state: a variable, and a key of a key-value store.\<close>

definition InMemory_GetLastScannedBlockHash :: "(string, string) st" where
  "InMemory_GetLastScannedBlockHash = (\<lambda>lastScannedBlockHash. (Ok lastScannedBlockHash, lastScannedBlockHash))"

definition InMemory_UpdateLastScannedBlockHash :: "string \<Rightarrow> (string, unit) st" where
  "InMemory_UpdateLastScannedBlockHash hash = (\<lambda>_. (Ok (), hash))"

definition KeyValue_UpdateLastScannedBlockHash :: "'w kv_store \<Rightarrow> string \<Rightarrow> ('w, unit) st" where
  "KeyValue_UpdateLastScannedBlockHash store hash =
     wrapS ''faild to set lastScannedBlockHash'' (kv_Set store ''lastScannedBlockHash'' (VString hash))"

definition KeyValue_GetLastScannedBlockHash :: "'w kv_store \<Rightarrow> string \<Rightarrow> ('w, string) st" where
  "KeyValue_GetLastScannedBlockHash store defaultStartFromBlockHash =
     bindS (wrapS ''faild to get lastScannedBlockHash'' (kv_Get store TString ''lastScannedBlockHash'')) (\<lambda>res.
     retS (case res of None \<Rightarrow> defaultStartFromBlockHash | Some v \<Rightarrow> as_string v))"

text \<open>
  The inner loop of \<open>Start\<close>: the handler is called until it succeeds or the context is done. It may
  run forever, which is the result \<open>None\<close>. The result says whether the block was handled.
\<close>

partial_function (option) handle_until_done ::
  "('w \<Rightarrow> bool) \<Rightarrow> ('w, unit) st \<Rightarrow> 'w \<Rightarrow> (bool outcome \<times> 'w) option" where
  "handle_until_done ctx_done handleBlocks w =
     (if ctx_done w then Some (Ok False, w)
      else case handleBlocks w of
        (Ok u, w') \<Rightarrow> Some (Ok True, w')
      | (Err err, w') \<Rightarrow> handle_until_done ctx_done handleBlocks w'
      | (Panic, w') \<Rightarrow> Some (Panic, w'))"

text \<open>The loop over the blocks of the channel, in the order they come.\<close>

fun scan_blocks :: "('w \<Rightarrow> bool) \<Rightarrow> ('b \<Rightarrow> ('w, unit) st) \<Rightarrow> 'b list \<Rightarrow> 'w \<Rightarrow> (unit outcome \<times> 'w) option" where
  "scan_blocks ctx_done handleBlocks [] w = Some (Ok (), w)"
| "scan_blocks ctx_done handleBlocks (b # bs) w =
     (case handle_until_done ctx_done (handleBlocks b) w of
        None \<Rightarrow> None
      | Some (Ok handled, w') \<Rightarrow> if handled then scan_blocks ctx_done handleBlocks bs w' else Some (Ok (), w')
      | Some (Err e, w') \<Rightarrow> Some (Err e, w')
      | Some (Panic, w') \<Rightarrow> Some (Panic, w'))"

definition Start :: "'w scanner_state \<Rightarrow> (string \<Rightarrow> ('w, 'b list) st) \<Rightarrow> ('w \<Rightarrow> bool) \<Rightarrow> ('b \<Rightarrow> ('w, unit) st) \<Rightarrow>
    'w \<Rightarrow> (unit outcome \<times> 'w) option" where
  "Start state Iterate ctx_done handleBlocks w =
     (case wrapS ''failed to get last scanned block hash'' (GetLastScannedBlockHash state) w of
        (Ok fromBlockHash, w') \<Rightarrow>
          (case wrapS ''failed to get blockchain items from iterator'' (Iterate fromBlockHash) w' of
             (Ok bs, w'') \<Rightarrow> scan_blocks ctx_done handleBlocks bs w''
           | (Err e, w'') \<Rightarrow> Some (Err e, w'')
           | (Panic, w'') \<Rightarrow> Some (Panic, w''))
      | (Err e, w') \<Rightarrow> Some (Err e, w')
      | (Panic, w') \<Rightarrow> Some (Panic, w'))"

text \<open>The handler of \<open>runUTXOScanner\<close>: a block that is stored already counts as handled.\<close>

definition handle_block :: "'w utxo_service \<Rightarrow> (string \<Rightarrow> ('w, unit) st) \<Rightarrow> block \<Rightarrow> ('w, unit) st" where
  "handle_block svc updateState b =
     bindS (tryS (AddFromBlock svc b)) (\<lambda>res.
     thenS (case res of
              Inl err \<Rightarrow> if \<not> errors_is err ErrBlockAlreadyStored
                         then failS (Wrap ''failed to store UTXO from block'' err) else retS ()
            | Inr _ \<Rightarrow> retS ())
       (wrapS ''failed to update last scanner block hash'' (updateState (hash_String (bh_Hash b)))))"

end
