(* ===== verification/Service_Properties.thy ===== *)
theory Service_Properties
  imports Spending_Properties Utxo_Service
begin

text \<open>
  The properties of the service, the API handlers and the scanner over the store: queries are exact,
  the retry loop applies every block once, and a store marked inconsistent blocks it for good.
\<close>

section \<open>Queries\<close>


text \<open>The example server without faults, so that \<open>MGET\<close> is answered in its state.\<close>

lemma sim_query_backend: "query_backend (sim_store ver) sim_driver sim_ks (\<lambda>w. sim_ck w)
    (\<lambda>w tx. List.map (view_cmd sim_codec) (sim_queue w)) sim.mget_failed"
  using sim_query.query.query_backend_axioms [of ver] by (simp add: sim_store_def)

lemma sample_query: "GetUnspentOutputsByAddress sample_lib (sim_store ''1'') ''010203'' (sample_start []) =
    (Ok [\<lparr>ue_TxID = ''aa'', ue_Vout = 0, ue_Output = Some \<lparr>CompressedScript = [9, 1, 2, 3], CompressedAmount = 9\<rparr>,
      ue_BlockHeight = 0\<rparr>], sample_start [])"
  by code_simp


lemma total_amount:
  assumes "foldO (\<lambda>total x. bindO (entry_amount x) (\<lambda>n. Ok (total + n))) t0 es = Ok t"
  shows "t = t0 + (\<Sum>x \<leftarrow> es. GetAmount (the (ue_Output x)))"
  using assms
proof (induction es arbitrary: t0)
  case (Cons x es)
  then obtain n where "entry_amount x = Ok n" "foldO (\<lambda>total x. bindO (entry_amount x) (\<lambda>n. Ok (total + n))) (t0 + n) es = Ok t"
    by (auto simp: bindO_Ok_iff)
  moreover from this(1) have "n = GetAmount (the (ue_Output x))" by (simp add: entry_amount_def split: option.splits)
  ultimately show ?case using Cons.IH [of "t0 + n"] by simp
qed simp

lemma outputs_of_address_Ok:
  assumes "outputs_of_address (store_service lib d dec U) msg address s = (Ok es, s')"
  obtains h w' where "dec address = Ok h" "getUnspentOutputsByAddress lib (base U) (hex_EncodeToString h) (world s) = (Ok es, w')"
proof -
  obtain h where h: "dec address = Ok h" and "GetUnspentOutputsByAddress lib U (hex_EncodeToString h) s = (Ok es, s')"
    using assms by (cases "dec address")
      (auto simp: outputs_of_address_def GetUTXOByBase58Address_def store_service_def bindS_Ok_iff tryS_def wrapS_def
        retS_def failS_def panicS_def split: prod.splits outcome.splits sum.splits)
  then show thesis using that
    by (auto simp: GetUnspentOutputsByAddress_def guarded_def on_world_iff split: if_splits)
qed



section \<open>The retry loop\<close>

text \<open>\<open>attempts h w r w'\<close>: the handler fails some times and then ends with \<open>r\<close>, which is no error.\<close>

inductive attempts :: "('w, unit) st \<Rightarrow> 'w \<Rightarrow> unit outcome \<Rightarrow> 'w \<Rightarrow> bool" for h where
  success: "h w = (Ok (), w') \<Longrightarrow> attempts h w (Ok ()) w'"
| panic: "h w = (Panic, w') \<Longrightarrow> attempts h w Panic w'"
| again: "h w = (Err e, w1) \<Longrightarrow> attempts h w1 r w' \<Longrightarrow> attempts h w r w'"

inductive_cases attempts_OkE: "attempts h w (Ok ()) w'"

definition handled :: "unit outcome \<Rightarrow> bool outcome" where
  "handled r = (case r of Ok _ \<Rightarrow> Ok True | Err e \<Rightarrow> Err e | Panic \<Rightarrow> Panic)"

lemma attempts_run: "attempts h w r w' \<Longrightarrow> handle_until_done (\<lambda>_. False) h w = Some (handled r, w')"
  by (induction rule: attempts.induct) (simp_all add: handle_until_done.simps handled_def)

lemma run_attempts:
  assumes "handle_until_done done h w = Some q" and "done = (\<lambda>_. False)"
  shows "\<exists>r. fst q = handled r \<and> attempts h w r (snd q)"
proof -
  have "done = (\<lambda>_. False) \<longrightarrow> (\<exists>r. fst q = handled r \<and> attempts h w r (snd q))"
  proof (rule handle_until_done.raw_induct [OF _ assms(1)])
    fix f and done' :: "'a \<Rightarrow> bool" and h' w q
    assume IH: "\<And>d (h :: ('a, unit) st) w q. f d h w = Some q \<Longrightarrow>
        d = (\<lambda>_. False) \<longrightarrow> (\<exists>r. fst q = handled r \<and> attempts h w r (snd q))"
      and b: "(if done' w then Some (Ok False, w) else case h' w of
        (Ok u, w') \<Rightarrow> Some (Ok True, w') | (Err err, w') \<Rightarrow> f done' h' w' | (Panic, w') \<Rightarrow> Some (Panic, w')) = Some q"
    show "done' = (\<lambda>_. False) \<longrightarrow> (\<exists>r. fst q = handled r \<and> attempts h' w r (snd q))"
    proof
      assume d: "done' = (\<lambda>_. False)"
      obtain x w1 where x: "h' w = (x, w1)" by fastforce
      show "\<exists>r. fst q = handled r \<and> attempts h' w r (snd q)"
      proof (cases x)
        case (Err e)
        with b d x IH obtain r where "fst q = handled r" "attempts h' w1 r (snd q)" by fastforce
        with x Err show ?thesis by (blast intro: attempts.again)
      next
        case (Ok u)
        then have "q = (Ok True, w1)" "h' w = (Ok (), w1)" using b d x by simp_all
        then show ?thesis by (intro exI [of _ "Ok ()"]) (simp add: handled_def attempts.success)
      next
        case Panic
        then have "q = (Panic, w1)" "h' w = (Panic, w1)" using b d x by simp_all
        then show ?thesis by (intro exI [of _ Panic]) (simp add: handled_def attempts.panic)
      qed
    qed
  qed
  with assms(2) show ?thesis by blast
qed

text \<open>
  The loop of the scanner around its handler, with a context that is never cancelled, returns
  exactly when some attempt succeeds (or panics), with the state that attempt leaves; otherwise it
  runs forever.
\<close>

theorem retry_loop_returns_iff:
  "(\<exists>w'. handle_until_done (\<lambda>_. False) h w = Some (Ok True, w') \<and> P w') \<longleftrightarrow> (\<exists>w'. attempts h w (Ok ()) w' \<and> P w')"
proof
  assume "\<exists>w'. handle_until_done (\<lambda>_. False) h w = Some (Ok True, w') \<and> P w'"
  then obtain w' where w': "handle_until_done (\<lambda>_. False) h w = Some (Ok True, w')" "P w'" by blast
  from run_attempts [OF w'(1) refl] obtain r where "Ok True = handled r" "attempts h w r w'" by auto
  then show "\<exists>w'. attempts h w (Ok ()) w' \<and> P w'" using w'(2) by (cases r) (auto simp: handled_def)
next
  assume "\<exists>w'. attempts h w (Ok ()) w' \<and> P w'"
  then show "\<exists>w'. handle_until_done (\<lambda>_. False) h w = Some (Ok True, w') \<and> P w'"
    using attempts_run [of h w "Ok ()"] by (auto simp: handled_def)
qed

lemma attempts_stuck: "attempts h w r w' \<Longrightarrow> h w \<noteq> (Err e, w)"
  by (induction rule: attempts.induct) auto

lemma handle_block_inconsistent:
  assumes "\<not> isConsist s"
  shows "\<exists>e. handle_block (store_service lib d dec U) upd b s = (Err e, s)"
proof -
  have "NewCheckpointFromNextBlock lib d (store_reads U) b s =
      (Err (Wrap ''failed to get current block hash'' ErrInconsistenceState), s)"
    using assms by (simp add: NewCheckpointFromNextBlock_def previous_block_def store_reads_def GetBlockHash_def
        guarded_def bindS_def tryS_def failS_def)
  then show ?thesis
    by (simp add: handle_block_def AddFromBlock_def store_service_def bindS_def tryS_def thenS_def failS_def)
qed

text \<open>
  C33: a store marked inconsistent, as a commit whose transaction failed leaves it, wedges the scanner:
  every attempt to handle a block fails without touching anything, so the retry loop never ends and
  no later block is handled until the process is restarted.
\<close>

theorem wedged_store_never_returns:
  assumes "\<not> isConsist s"
  shows "handle_until_done (\<lambda>_. False) (handle_block (store_service lib d dec U) upd b) s = None \<and>
    scan_blocks (\<lambda>_. False) (handle_block (store_service lib d dec U) upd) (b # bs) s = None"
proof -
  let ?h = "handle_block (store_service lib d dec U) upd b"
  obtain e where e: "?h s = (Err e, s)" using handle_block_inconsistent [OF assms] by blast
  have "\<not> attempts ?h s r s'" for r s' using attempts_stuck [of ?h s r s' e] e by blast
  then have "handle_until_done (\<lambda>_. False) ?h s = None"
    using run_attempts [of "\<lambda>_. False" ?h s] by (cases "handle_until_done (\<lambda>_. False) ?h s") auto
  then show ?thesis by simp
qed

theorem wedged_store_never_returns_witness:
  "handle_until_done (\<lambda>_. False) (handle_block (store_service sample_lib 8 (\<lambda>s. Ok []) (sim_store ''1'')) (\<lambda>h. retS ()) sample_block)
     \<lparr>world = block_world [], isConsist = False\<rparr> = None"
  by (rule wedged_store_never_returns [THEN conjunct1]) simp

section \<open>Retried blocks\<close>

text \<open>
  The states a block can be in while it is retried: not applied, or applied with the answer lost.
\<close>

definition applied :: "('key, 'addr) btc_lib \<Rightarrow> int \<Rightarrow> string \<Rightarrow> block \<Rightarrow> kstate \<Rightarrow> kstate \<Rightarrow> bool" where
  "applied lib d v b old m \<longleftrightarrow> store_ok lib v m \<and> utxo v m = apply_block lib d b (utxo v old) \<and>
     m (height_key v) = Some (Val (VInt64 (bh_Height b)))"

lemma AddFromBlock_cases:
  assumes "AddFromBlock (store_service lib d dec U) b s = (r, s')"
  obtains (refused) e where "NewCheckpointFromNextBlock lib d (store_reads U) b s = (Err e, s')"
      "r = Err (if errors_is e ErrNoDiff then ErrBlockAlreadyStored else Wrap ''failed to create next spending checkpoint'' e)"
    | (panic) "NewCheckpointFromNextBlock lib d (store_reads U) b s = (Panic, s')" "r = Panic"
    | (commit) cp s1 q where "NewCheckpointFromNextBlock lib d (store_reads U) b s = (Ok cp, s1)"
      "CommitCheckpoint U cp s1 = (q, s')" "r = wrapO ''fialed to store new block outputs'' q"
  using assms
  by (auto simp: AddFromBlock_def store_service_def failS_def wrapS_def elim!: bindS_cases tryS_cases split: prod.splits if_splits)

context utxo_backend
begin

text \<open>A checkpoint that is not computed changes nothing; on an applied block it is never computed.\<close>

lemma NewCheckpoint_frame:
  assumes "NewCheckpointFromNextBlock lib d (store_reads U) b s = (r, s')" and "outputs_typed (us_dbVer U) (ks (world s))"
  shows "ks (world s') = ks (world s)"
proof -
  let ?nb = "\<lparr>cb_Height = bh_Height b, cb_Hash = hash_String (bh_Hash b)\<rparr>"
  have lift: "liftO x w = (r, w') \<Longrightarrow> w' = w" for x r and w w' :: "'w store_state" by (simp add: liftO_def)
  have ret: "retS x w = (r, w') \<Longrightarrow> w' = w" for x r and w w' :: "'w store_state" by (simp add: retS_def)
  from assms(1) show ?thesis unfolding NewCheckpointFromNextBlock_def Let_def
  proof (cases rule: bindS_cases)
    case (Ok p s1)
    note o = obsD(1) [OF reads.previous_block_obs refl Ok(1)]
    show ?thesis
    proof (cases "p = None")
      case True
      with Ok(2) o show ?thesis by (auto dest: ret)
    next
      case False
      with Ok(2) obtain q s2 where e: "extractSpendingOutputsFromBlock (store_reads U) b s1 = (q, s2)" "s' = s2"
        by (auto elim!: bindS_cases dest!: lift ret)
      from obsD(1) [OF reads.extract_obs [OF assms(2)] o e(1)] o e(2) show ?thesis by simp
    qed
  qed (auto dest!: obsD(1) [OF reads.previous_block_obs refl])
qed

lemma NewCheckpoint_applied:
  assumes "NewCheckpointFromNextBlock lib d (store_reads U) b s = (r, s')"
    and "ks (world s) (hash_key (us_dbVer U)) \<noteq> None" and "ks (world s) (height_key (us_dbVer U)) = Some (Val (VInt64 (bh_Height b)))"
  shows "\<exists>e. r = Err e"
  using assms(1) unfolding NewCheckpointFromNextBlock_def Let_def
proof (cases rule: bindS_cases)
  case (Ok p s1)
  from obsD(4) [OF reads.previous_block_obs refl Ok(1), of p] assms(2,3) show ?thesis by (cases p) auto
next
  case Panic
  then show ?thesis using obsD(3) [OF reads.previous_block_obs refl] by blast
qed blast

end

end
