(* ===== verification/Chainstate.thy ===== *)
theory Chainstate
  imports Utxo_Types
begin

text \<open>
  The reader of Bitcoin Core's chainstate database: the coin format
  (\<^verbatim>\<open>bitcoincore/utxo/coin.go\<close>, \<^verbatim>\<open>txout.go\<close>, \<^verbatim>\<open>utxocompression/compress.go\<close>), the obfuscation
  (\<^verbatim>\<open>chainstate/deobfuscation.go\<close>), the iterator over the coins (\<^verbatim>\<open>chainstate/iterator.go\<close>) and the
  database (\<^verbatim>\<open>chainstate/db.go\<close>). LevelDB is a parameter: the value of a key, and the entries an
  iterator yields in the order of their keys.
\<close>

section \<open>The byte reader\<close>

text \<open>
  \<open>bytes.Reader\<close>: the data and the index of the next byte. \<open>Read\<close> at the end is \<open>EOF\<close> also for an empty
  buffer; a short read leaves the rest of the buffer as it was made, zero.
\<close>

record byte_reader =
  rd_s :: bytes
  rd_i :: nat

definition NewReader :: "bytes \<Rightarrow> byte_reader" where
  "NewReader b = \<lparr>rd_s = b, rd_i = 0\<rparr>"

definition rd_Read :: "nat \<Rightarrow> byte_reader \<Rightarrow> (bytes \<times> byte_reader) outcome" where
  "rd_Read sz r =
     (if length (rd_s r) \<le> rd_i r then Err EOF
      else let got = take sz (drop (rd_i r) (rd_s r)) in
        Ok (got @ replicate (sz - length got) 0, r\<lparr>rd_i := rd_i r + length got\<rparr>))"

definition rd_UnreadByte :: "byte_reader \<Rightarrow> byte_reader outcome" where
  "rd_UnreadByte r =
     (if rd_i r \<le> 0 then Err (Msg ''bytes.Reader.UnreadByte: at beginning of slice'')
      else Ok (r\<lparr>rd_i := rd_i r - 1\<rparr>))"

definition rd_VLQ :: "byte_reader \<Rightarrow> u64 \<times> byte_reader" where
  "rd_VLQ r = (case DeserializeVLQ (drop (rd_i r) (rd_s r)) of ((n, sz), _) \<Rightarrow> (n, r\<lparr>rd_i := rd_i r + sz\<rparr>))"

section \<open>Scripts of the chainstate\<close>

definition GetScriptSize :: "u64 \<Rightarrow> u64" where
  "GetScriptSize scriptType =
     (if scriptType = 0 \<or> scriptType = 1 then 20
      else if scriptType \<in> {2, 3, 4, 5} then 32
      else scriptType - 6)"

definition Utxo_DecompressScript :: "'key ec_lib \<Rightarrow> u64 \<Rightarrow> bytes \<Rightarrow> bytes outcome" where
  "Utxo_DecompressScript ec scriptType compressedPkScript =
     (if scriptType = 0 then Ok (p2pkh_script compressedPkScript)
      else if scriptType = 1 then Ok (p2sh_script compressedPkScript)
      else if scriptType = 2 \<or> scriptType = 3 then
        Ok ((copy_at ((replicate 35 0)[0 := OP_DATA_33]) 1 compressedPkScript)[34 := OP_CHECKSIG])
      else if scriptType = 4 \<or> scriptType = 5 then
        (if compressedPkScript = [] then Panic
         else
           let compressedKey = copy_at ((replicate 33 0)[0 := ucast (scriptType - 2)]) 1 (drop 1 compressedPkScript) in
           case ParsePubKey ec compressedKey of
             None \<Rightarrow> Ok []
           | Some key \<Rightarrow> Ok (p2pk_uncomp_script (SerializeUncompressed ec key)))
      else Ok compressedPkScript)"

section \<open>Coins\<close>

record wire_txout =
  wo_Value :: int
  wo_PkScript :: bytes

record coin =
  isCoinBase :: bool
  coin_blockHeight :: u64
  coin_out :: wire_txout

record txout =
  to_txID :: bytes
  to_index :: u64
  to_coin :: coin

definition GetTxID :: "txout \<Rightarrow> string" where
  "GetTxID t = hex_EncodeToString (to_txID t)"

definition MAX_SCRIPT_SIZE :: u64 where
  "MAX_SCRIPT_SIZE = 10000"

definition read_script :: "u64 \<Rightarrow> byte_reader \<Rightarrow> (bytes \<times> byte_reader) outcome" where
  "read_script scriptType r =
     bindO (if scriptType \<in> {2, 3, 4, 5}
            then bindO (wrapO ''unread after read scriot size error'' (rd_UnreadByte r)) (\<lambda>r. Ok (GetScriptSize scriptType + 1, r))
            else Ok (GetScriptSize scriptType, r)) (\<lambda>(scriptSize, r).
     if scriptSize > MAX_SCRIPT_SIZE then Err (Msg (''script size is too large: '' @ nat_digits (unat scriptSize)))
     else rd_Read (unat scriptSize) r)"

definition Coin_Deserialize :: "'key ec_lib \<Rightarrow> byte_reader \<Rightarrow> (coin \<times> byte_reader) outcome" where
  "Coin_Deserialize ec r =
     (case rd_VLQ r of (code, r) \<Rightarrow>
      case rd_VLQ r of (amount, r) \<Rightarrow>
      case rd_VLQ r of (scriptType, r) \<Rightarrow>
      bindO (read_script scriptType r) (\<lambda>(pkScript, r).
      bindO (Utxo_DecompressScript ec scriptType pkScript) (\<lambda>script.
      Ok (\<lparr>isCoinBase = (code AND 1 = 1), coin_blockHeight = drop_bit 1 code,
           coin_out = \<lparr>wo_Value = int_of_u64 (Utxo_DecompressTxOutAmount amount), wo_PkScript = script\<rparr>\<rparr>, r))))"

definition TxOut_Deserialize :: "'key ec_lib \<Rightarrow> byte_reader \<Rightarrow> (txout \<times> byte_reader) outcome" where
  "TxOut_Deserialize ec r =
     bindO (wrapO ''read txID error'' (rd_Read 32 r)) (\<lambda>(txID, r).
     case rd_VLQ r of (index, r) \<Rightarrow>
     bindO (Coin_Deserialize ec r) (\<lambda>(c, r).
     Ok (\<lparr>to_txID = ReverseBytesWithCopy txID, to_index = index, to_coin = c\<rparr>, r)))"

section \<open>Obfuscation\<close>

text \<open>The key of the obfuscation, nil or some bytes; \<open>i % len(key)\<close> panics on an empty key.\<close>

definition deobfuscateValue :: "bytes \<Rightarrow> bytes \<Rightarrow> bytes outcome" where
  "deobfuscateValue obfuscationKey value =
     (if obfuscationKey = [] \<and> value \<noteq> [] then Panic
      else Ok (List.map (\<lambda>i. (value ! i) XOR (obfuscationKey ! (i mod length obfuscationKey))) [0..<length value]))"

definition Deobfuscate :: "bytes option \<Rightarrow> bytes \<Rightarrow> bytes outcome" where
  "Deobfuscate key value = (case key of None \<Rightarrow> Ok value | Some k \<Rightarrow> deobfuscateValue k value)"

definition obfuscationKeyKey :: bytes where
  "obfuscationKeyKey = [0x0e, 0x00] @ List.map of_char ''obfuscate_key''"

text \<open>
  A failed \<open>Get\<close> returns nil bytes: the test tolerates \<open>ErrNotFound\<close>, and the index into nil panics.
\<close>

definition newDeobfuscator :: "(bytes \<Rightarrow> bytes outcome) \<Rightarrow> (bytes option) outcome" where
  "newDeobfuscator get =
     bindO (case get obfuscationKeyKey of
              Ok k \<Rightarrow> Ok k
            | Err err \<Rightarrow> if \<not> errors_is err LevelDBNotFound then Err (Wrap ''failed to get obfuscation key'' err) else Ok []
            | Panic \<Rightarrow> Panic) (\<lambda>obfuscationKey.
     if obfuscationKey = [] then Panic
     else if hd obfuscationKey \<noteq> 0x8 then Err (Msg ''invalid obfuscation key format'')
     else Ok (Some (tl obfuscationKey)))"

section \<open>The iterator\<close>

definition buildTxOutBytes :: "bytes \<Rightarrow> bytes \<Rightarrow> bytes" where
  "buildTxOutBytes outpoint coin_bytes = outpoint @ coin_bytes"

text \<open>\<open>NewDB\<close>, as far as the obfuscation key.\<close>

definition NewDB :: "(bytes \<Rightarrow> bytes outcome) \<Rightarrow> (bytes option) outcome" where
  "NewDB get = wrapO ''failed to create debofuscator'' (newDeobfuscator get)"

text \<open>
  The entries a LevelDB iterator still yields; its \<open>Next\<close> is false after the last one, also when the
  iteration ended with an error, which the program asks for in \<open>ApproximateSize\<close> only.
\<close>

fun UTXOIterator_Next :: "'key ec_lib \<Rightarrow> bytes option \<Rightarrow> (bytes \<times> bytes) list \<Rightarrow>
    txout outcome \<times> (bytes \<times> bytes) list" where
  "UTXOIterator_Next ec key [] = (Err ErrNoKeysMore, [])"
| "UTXOIterator_Next ec key ((outpoint, obfuscatedValue) # es) =
     (if length outpoint < 34 \<or> \<not> (length outpoint \<ge> 1 \<and> outpoint ! 0 = 0x43) then UTXOIterator_Next ec key es
      else
        (bindO (wrapO ''deobfuscate UTXO error'' (Deobfuscate key obfuscatedValue)) (\<lambda>deobfuscatedValue.
         bindO (wrapO ''deserialize UTXO error''
           (TxOut_Deserialize ec (NewReader (buildTxOutBytes (drop 1 outpoint) deobfuscatedValue)))) (\<lambda>(txOut, _).
         Ok txOut)), es))"

section \<open>The database\<close>

text \<open>
  A snapshot of LevelDB: its entries in the order of their keys, and the error its iterators end with.
\<close>

record chainstate_db =
  ldb_Get :: "bytes \<Rightarrow> bytes outcome"
  ldb_entries :: "(bytes \<times> bytes) list"
  ldb_iterator_Error :: "go_error option"

definition ApproximateSize :: "chainstate_db \<Rightarrow> int outcome" where
  "ApproximateSize d =
     (case ldb_iterator_Error d of
        Some err \<Rightarrow> Err (Wrap ''iterator error'' err)
      | None \<Rightarrow> Ok (wrap64 (int (length (ldb_entries d)))))"

definition buildTxIDKey :: "bytes \<Rightarrow> bytes" where
  "buildTxIDKey txID = 0x43 # ReverseBytesWithCopy txID"

text \<open>The order of LevelDB's default comparator.\<close>

fun bytes_le :: "bytes \<Rightarrow> bytes \<Rightarrow> bool" where
  "bytes_le [] ys = True"
| "bytes_le (x # xs) [] = False"
| "bytes_le (x # xs) (y # ys) = (x < y \<or> (x = y \<and> bytes_le xs ys))"

text \<open>The loop of \<open>GetOutputs\<close>: the iterator is asked until another transaction or no key comes.\<close>

function outputs_while :: "'key ec_lib \<Rightarrow> bytes option \<Rightarrow> string \<Rightarrow> (bytes \<times> bytes) list \<Rightarrow> txout list \<Rightarrow> txout list outcome" where
  "outputs_while ec key txID es utxos =
     (case UTXOIterator_Next ec key es of
        (Ok u, es') \<Rightarrow> if GetTxID u = txID then outputs_while ec key txID es' (utxos @ [u]) else Ok utxos
      | (Err err, es') \<Rightarrow> if errors_is err ErrNoKeysMore then Ok utxos else Err (Msg ''failed to iterate over UTXOs'')
      | (Panic, es') \<Rightarrow> Panic)"
  by pat_completeness auto

lemma Next_shorter: "UTXOIterator_Next ec key es = (Ok u, es') \<Longrightarrow> length es' < length es"
  by (induction ec key es rule: UTXOIterator_Next.induct) (auto split: if_splits)

termination outputs_while
  by (relation "measure (\<lambda>(ec, key, txID, es, utxos). length es)") (auto dest: Next_shorter [OF sym])

definition GetOutputs :: "'key ec_lib \<Rightarrow> bytes option \<Rightarrow> chainstate_db \<Rightarrow> bytes \<Rightarrow> txout list outcome" where
  "GetOutputs ec key d txID =
     outputs_while ec key (hex_EncodeToString txID)
       (filter (\<lambda>(k, _). bytes_le (buildTxIDKey txID) k) (ldb_entries d)) []"

definition GetOutput :: "'key ec_lib \<Rightarrow> bytes option \<Rightarrow> chainstate_db \<Rightarrow> bytes \<Rightarrow> int \<Rightarrow> txout outcome" where
  "GetOutput ec key d txID index =
     bindO (PutVLQ (replicate 12 0) (of_int index)) (\<lambda>(idxBytes, offset).
     let txKey = buildTxIDKey txID @ take offset idxBytes in
     case ldb_Get d txKey of
       Err err \<Rightarrow> if errors_is err LevelDBNotFound then Err ErrChainstateNotFound else Err (Wrap ''failed to get utxo'' err)
     | Panic \<Rightarrow> Panic
     | Ok utxoValue \<Rightarrow>
         bindO (wrapO ''failed to deobfuscate'' (Deobfuscate key utxoValue)) (\<lambda>deobfuscatedCoin.
         bindO (wrapO ''failed to deserialize coin''
           (TxOut_Deserialize ec (NewReader (buildTxOutBytes (drop 1 txKey) deobfuscatedCoin)))) (\<lambda>(txOut, _).
         Ok txOut)))"

definition Chainstate_GetBlockHash :: "bytes option \<Rightarrow> chainstate_db \<Rightarrow> bytes outcome" where
  "Chainstate_GetBlockHash key d =
     bindO (wrapO ''failed to get block hash'' (ldb_Get d [0x42])) (\<lambda>blockHash.
     bindO (wrapO ''deobfuscate block hash error'' (Deobfuscate key blockHash)) (\<lambda>deobfuscatedBlockhash.
     Ok (ReverseBytesWithCopy deobfuscatedBlockhash)))"

section \<open>Integers of variable size\<close>

text \<open>The decoder in \<^verbatim>\<open>chainstate/iterator.go\<close> is the third of its kind and agrees with the others.\<close>

fun Chainstate_DeserializeVLQ_loop :: "u64 \<Rightarrow> nat \<Rightarrow> bytes \<Rightarrow> u64 \<times> nat" where
  "Chainstate_DeserializeVLQ_loop n sz [] = (n, sz)"
| "Chainstate_DeserializeVLQ_loop n sz (val # serialized) =
     (let n' = push_bit 7 n OR ucast (val AND 0x7f) in
      if val AND 0x80 \<noteq> 0x80 then (n', sz + 1)
      else Chainstate_DeserializeVLQ_loop (n' + 1) (sz + 1) serialized)"

definition Chainstate_DeserializeVLQ :: "bytes \<Rightarrow> u64 \<times> nat" where
  "Chainstate_DeserializeVLQ serialized = Chainstate_DeserializeVLQ_loop 0 0 serialized"

lemma Chainstate_DeserializeVLQ_eq: "Chainstate_DeserializeVLQ serialized = deserializeVLQ serialized"
proof -
  have "Chainstate_DeserializeVLQ_loop n sz bs = deserializeVLQ_loop n sz bs" for n sz bs
    by (induction n sz bs rule: deserializeVLQ_loop.induct) (auto simp: Let_def)
  then show ?thesis by (simp add: Chainstate_DeserializeVLQ_def deserializeVLQ_def)
qed

text \<open>\<open>binaryutils.DecodeVarint\<close>: \<open>data[0]\<close> and the slices panic on short data.\<close>

fun little_endian :: "bytes \<Rightarrow> u64" where
  "little_endian [] = 0"
| "little_endian (b # bs) = ucast b OR push_bit 8 (little_endian bs)"

definition DecodeVarint :: "slice \<Rightarrow> (nat \<times> u64) outcome" where
  "DecodeVarint data =
     (case sdata data of
        [] \<Rightarrow> Panic
      | sz # _ \<Rightarrow>
          if sz < 253 then Ok (1, ucast sz)
          else if sz = 253 then bindO (reslice data 1 3) (\<lambda>b. Ok (3, little_endian b))
          else if sz = 254 then bindO (reslice data 1 5) (\<lambda>b. Ok (5, little_endian b))
          else if sz = 255 then bindO (reslice data 1 9) (\<lambda>b. Ok (9, little_endian b))
          else Err (Msg (''can'' @ [CHR 0x27] @ ''t decode this'')))"

text \<open>The last branch is never taken.\<close>

lemma DecodeVarint_no_error: "DecodeVarint data \<noteq> Err e"
proof -
  have "sz < 253 \<or> sz = 253 \<or> sz = 254 \<or> sz = 255" for sz :: byte
  proof -
    have "unat sz < 256" using unsigned_less [of sz, where ?'a = nat] by simp
    then show ?thesis by (simp add: word_less_nat_alt word_unat_eq_iff) linarith
  qed
  moreover have "reslice data a b \<noteq> Err e'" for a b e' by (simp add: reslice_def)
  ultimately show ?thesis by (auto simp: DecodeVarint_def bindO_Ok_iff reslice_def split: list.split)
qed

text \<open>A database without an obfuscation key: the program panics instead of reading plain values.\<close>

lemma newDeobfuscator_missing_key: "get obfuscationKeyKey = Err LevelDBNotFound \<Longrightarrow> newDeobfuscator get = Panic"
  by (simp add: newDeobfuscator_def)

section \<open>Reading back what Bitcoin Core writes\<close>

text \<open>A reader in front of \<open>rest\<close>, behind the bytes \<open>before\<close>.\<close>

abbreviation rd_at :: "bytes \<Rightarrow> bytes \<Rightarrow> byte_reader" where
  "rd_at before rest \<equiv> \<lparr>rd_s = before @ rest, rd_i = length before\<rparr>"

lemma rd_VLQ_vlq: "rd_VLQ (rd_at before (vlq n @ rest)) = (n, rd_at (before @ vlq n) rest)"
  by (simp add: rd_VLQ_def DeserializeVLQ_vlq)

lemma rd_VLQ_byte: "b \<le> 0x7f \<Longrightarrow> rd_VLQ (rd_at before (b # rest)) = (ucast b, rd_at (before @ [b]) rest)"
  by (simp add: rd_VLQ_def DeserializeVLQ_eq deserialize_small)

lemma rd_Read_exact: "xs \<noteq> [] \<or> rest \<noteq> [] \<Longrightarrow>
    rd_Read (length xs) (rd_at before (xs @ rest)) = Ok (xs, rd_at (before @ xs) rest)"
  by (auto simp: rd_Read_def Let_def)

lemma rd_Unread: "rd_UnreadByte (rd_at (before @ [b]) rest) = Ok (rd_at before (b # rest))"
  by (simp add: rd_UnreadByte_def)

text \<open>The two decompressors agree: one is given the identifier, the other reads it.\<close>

lemma Utxo_DecompressScript_eq:
  assumes "b \<in> {0, 1, 2, 3, 4, 5 :: byte}" and "length x = (if b \<in> {0, 1} then 20 else 32)"
  shows "Utxo_DecompressScript ec (ucast b) (if b \<in> {0, 1} then x else b # x) =
    DecompressScript ec (exact_slice (b # x))"
proof -
  have "b \<le> 0x7f" using assms(1) by auto
  then have d: "deserializeVLQ (b # x) = (ucast b, 1)" by (rule deserialize_small)
  have r: "reslice (exact_slice (b # x)) 1 (1 + length x) = Ok x"
    using reslice_after [of 1 "[b]" "1 + length x" x "[]"] by (simp add: exact_slice_def)
  have c: "length x = 32 \<Longrightarrow> (copy_at ((replicate 35 0)[0 := OP_DATA_33]) 1 (b # x))[34 := OP_CHECKSIG] = p2pk_comp_script b x"
    by (simp add: p2pk_comp_script_def copy_at_fits list_update_append eval_nat_numeral)
  show ?thesis using assms d r c
    by (elim insertE) (simp_all add: Utxo_DecompressScript_def DecompressScript_def exact_slice_def Let_def)
qed

lemma script_read:
  assumes "ec_laws ec" and "length s \<le> 10000" and "s \<noteq> [] \<or> rest \<noteq> []"
  obtains ty r p where "rd_VLQ (rd_at before (compress_script ec s @ rest)) = (ty, r)"
    "read_script ty r = Ok (p, rd_at (before @ compress_script ec s) rest)"
    "Utxo_DecompressScript ec ty p = Ok s"
proof (cases rule: compress_script_cases [of ec s])
  case (special b x)
  have small: "b \<le> 0x7f" using special(2) by auto
  have v: "rd_VLQ (rd_at before (compress_script ec s @ rest)) = (ucast b, rd_at (before @ [b]) (x @ rest))"
    using rd_VLQ_byte [OF small] special(1) by simp
  let ?p = "if b \<in> {0, 1} then x else b # x"
  have "read_script (ucast b) (rd_at (before @ [b]) (x @ rest)) = Ok (?p, rd_at (before @ compress_script ec s) rest)"
  proof (cases "b \<in> {0, 1}")
    case True
    then have "length x = 20" "x \<noteq> []" using special(3) by auto
    then show ?thesis using special True rd_Read_exact [of x rest "before @ [b]"]
      by (auto simp: read_script_def GetScriptSize_def MAX_SCRIPT_SIZE_def)
  next
    case False
    then show ?thesis using special rd_Read_exact [of "b # x" rest before] rd_Unread [of before b "x @ rest"]
      by (auto simp: read_script_def GetScriptSize_def MAX_SCRIPT_SIZE_def)
  qed
  moreover have "Utxo_DecompressScript ec (ucast b) ?p = Ok s"
    using Utxo_DecompressScript_eq [OF special(2,3), of ec] DecompressScript_compress [OF assms(1), of s] assms(2) special(1)
    by (simp add: exact_slice_def)
  ultimately show thesis using v that by blast
next
  case general
  let ?n = "of_nat (length s) + numSpecialScripts :: u64"
  have l: "length s < 2 ^ 62" using assms(2) by simp
  note g = general_size [OF l]
  have n: "GetScriptSize ?n = of_nat (length s)" "?n \<notin> {2, 3, 4, 5}"
    using g(1,2) by (auto simp: GetScriptSize_def numSpecialScripts_def)
  have u: "unat (of_nat (length s) :: u64) = length s" using l by (simp add: unat_of_nat)
  have m: "\<not> (of_nat (length s) :: u64) > MAX_SCRIPT_SIZE"
    using assms(2) u by (simp add: word_less_nat_alt MAX_SCRIPT_SIZE_def)
  have "rd_VLQ (rd_at before (compress_script ec s @ rest)) = (?n, rd_at (before @ vlq ?n) (s @ rest))"
    using general by (simp add: rd_VLQ_vlq)
  moreover have "read_script ?n (rd_at (before @ vlq ?n) (s @ rest)) = Ok (s, rd_at (before @ compress_script ec s) rest)"
    using n m u general rd_Read_exact [of s rest "before @ vlq ?n"] assms(3) by (simp add: read_script_def)
  moreover have "Utxo_DecompressScript ec ?n s = Ok s"
    using g(1) by (simp add: Utxo_DecompressScript_def)
  ultimately show thesis by (rule that)
qed

text \<open>The coins the database can hold, and their format: Bitcoin Core's.\<close>

definition valid_coin :: "txout \<Rightarrow> bool" where
  "valid_coin t \<longleftrightarrow> length (to_txID t) = 32 \<and> unat (coin_blockHeight (to_coin t)) < 2 ^ 63 \<and>
     0 \<le> wo_Value (coin_out (to_coin t)) \<and> wo_Value (coin_out (to_coin t)) < 2 ^ 60 \<and>
     length (wo_PkScript (coin_out (to_coin t))) \<le> 10000"

definition coin_key :: "txout \<Rightarrow> bytes" where
  "coin_key t = 0x43 # rev (to_txID t) @ vlq (to_index t)"

definition coin_code :: "coin \<Rightarrow> u64" where
  "coin_code c = push_bit 1 (coin_blockHeight c) OR (if isCoinBase c then 1 else 0)"

definition coin_bytes :: "'key ec_lib \<Rightarrow> coin \<Rightarrow> bytes" where
  "coin_bytes ec c = vlq (coin_code c) @ vlq (CompressTxOutAmount (of_int (wo_Value (coin_out c)))) @
     compress_script ec (wo_PkScript (coin_out c))"

lemma coin_code_bits:
  assumes "unat (coin_blockHeight c) < 2 ^ 63"
  shows "drop_bit 1 (coin_code c) = coin_blockHeight c" and "(coin_code c AND 1 = 1) = isCoinBase c"
proof -
  let ?h = "coin_blockHeight c"
  have top: "bit ?h n \<Longrightarrow> n < 63" for n
  proof -
    have "unat (take_bit 63 ?h) = take_bit 63 (unat ?h)" by (rule unsigned_take_bit_eq)
    then have "unat (take_bit 63 ?h) = unat ?h mod 2 ^ 63" by (simp only: take_bit_eq_mod)
    then have "take_bit 63 ?h = ?h" using assms by (simp add: word_unat_eq_iff)
    then show "bit ?h n \<Longrightarrow> n < 63" by (metis bit_take_bit_iff)
  qed
  show "drop_bit 1 (coin_code c) = ?h"
    by (rule bit_word_eqI) (auto simp: coin_code_def bit_simps dest: top simp del: push_bit_Suc push_bit_of_1 One_nat_def)
  have "bit (coin_code c) 0 = isCoinBase c" by (auto simp: coin_code_def bit_simps simp del: push_bit_Suc push_bit_of_1 One_nat_def)
  then show "(coin_code c AND 1 = 1) = isCoinBase c" by (auto simp: and_one_eq bit_0 mod_2_eq_odd)
qed

lemma coin_value:
  assumes "0 \<le> v" and "v < 2 ^ 60"
  shows "int_of_u64 (Utxo_DecompressTxOutAmount (CompressTxOutAmount (of_int v))) = v"
proof -
  have u: "uint (of_int v :: u64) = v" using assms by (simp add: uint_word_of_int)
  then have "unat (of_int v :: u64) = nat v" by (metis unat_eq_nat_uint)
  moreover have "nat v < 2 ^ 60" using assms by (simp add: nat_less_iff)
  ultimately have "unat (of_int v :: u64) < 2 ^ 60" by simp
  then have "Utxo_DecompressTxOutAmount (CompressTxOutAmount (of_int v)) = (of_int v :: u64)"
    by (simp add: decompress_compress)
  then show ?thesis using u assms by (simp add: int_of_u64_small)
qed

lemma Coin_Deserialize_coin:
  assumes "ec_laws ec" and "valid_coin t" and "wo_PkScript (coin_out (to_coin t)) \<noteq> [] \<or> rest \<noteq> []"
  shows "Coin_Deserialize ec (rd_at before (coin_bytes ec (to_coin t) @ rest)) =
    Ok (to_coin t, rd_at (before @ coin_bytes ec (to_coin t)) rest)"
proof -
  let ?c = "to_coin t" and ?s = "wo_PkScript (coin_out (to_coin t))"
  let ?a = "CompressTxOutAmount (of_int (wo_Value (coin_out ?c)))"
  have l: "length ?s \<le> 10000" using assms(2) by (simp add: valid_coin_def)
  obtain ty r p where s: "rd_VLQ (rd_at (before @ vlq (coin_code ?c) @ vlq ?a) (compress_script ec ?s @ rest)) = (ty, r)"
    "read_script ty r = Ok (p, rd_at (before @ coin_bytes ec ?c) rest)" "Utxo_DecompressScript ec ty p = Ok ?s"
    using script_read [OF assms(1) l assms(3), of "before @ vlq (coin_code ?c) @ vlq ?a"] by (auto simp: coin_bytes_def)
  have v: "rd_VLQ (rd_at before (coin_bytes ec ?c @ rest)) =
      (coin_code ?c, rd_at (before @ vlq (coin_code ?c)) (vlq ?a @ compress_script ec ?s @ rest))"
    "rd_VLQ (rd_at (before @ vlq (coin_code ?c)) (vlq ?a @ compress_script ec ?s @ rest)) =
      (?a, rd_at (before @ vlq (coin_code ?c) @ vlq ?a) (compress_script ec ?s @ rest))"
    using rd_VLQ_vlq [of before "coin_code ?c"] rd_VLQ_vlq [of "before @ vlq (coin_code ?c)" ?a]
    by (simp_all add: coin_bytes_def)
  have "Coin_Deserialize ec (rd_at before (coin_bytes ec ?c @ rest)) =
      Ok (\<lparr>isCoinBase = (coin_code ?c AND 1 = 1), coin_blockHeight = drop_bit 1 (coin_code ?c),
           coin_out = \<lparr>wo_Value = int_of_u64 (Utxo_DecompressTxOutAmount ?a), wo_PkScript = ?s\<rparr>\<rparr>,
         rd_at (before @ coin_bytes ec ?c) rest)"
    unfolding Coin_Deserialize_def v prod.case s by (simp add: s(3))
  with assms(2) show ?thesis
    by (simp add: coin_code_bits [unfolded One_nat_def] coin_value valid_coin_def del: Utxo_copies)
qed

lemma TxOut_Deserialize_coin:
  assumes "ec_laws ec" and "valid_coin t" and "wo_PkScript (coin_out (to_coin t)) \<noteq> []"
  shows "\<exists>r. TxOut_Deserialize ec (NewReader (rev (to_txID t) @ vlq (to_index t) @ coin_bytes ec (to_coin t))) = Ok (t, r)"
proof -
  let ?i = "vlq (to_index t)" and ?c = "coin_bytes ec (to_coin t)"
  have l: "length (rev (to_txID t)) = 32" using assms(2) by (simp add: valid_coin_def)
  have r: "rd_Read 32 (rd_at [] (rev (to_txID t) @ ?i @ ?c)) = Ok (rev (to_txID t), rd_at (rev (to_txID t)) (?i @ ?c))"
    using rd_Read_exact [of "rev (to_txID t)" "?i @ ?c" "[]"] l by simp
  have c: "Coin_Deserialize ec (rd_at (rev (to_txID t) @ ?i) ?c) = Ok (to_coin t, rd_at (rev (to_txID t) @ ?i @ ?c) [])"
    using Coin_Deserialize_coin [OF assms(1,2), where before = "rev (to_txID t) @ ?i" and rest = "[]"] assms(3) by simp
  show ?thesis
    using r rd_VLQ_vlq [of "rev (to_txID t)" "to_index t" ?c] c
    by (simp add: TxOut_Deserialize_def NewReader_def)
qed

text \<open>The XOR with the key is its own inverse.\<close>

lemma deobfuscate_involution:
  assumes "Deobfuscate key v = Ok v'"
  shows "Deobfuscate key v' = Ok v" and "length v' = length v"
proof -
  have "Deobfuscate key v' = Ok v \<and> length v' = length v"
  proof (cases key)
    case (Some k)
    let ?f = "\<lambda>u. List.map (\<lambda>i. (u ! i) XOR (k ! (i mod length k))) [0..<length u]"
    from assms Some have k: "k \<noteq> [] \<or> v = []" and v': "v' = ?f v" by (auto simp: Deobfuscate_def deobfuscateValue_def split: if_splits)
    have "?f v' = v" by (rule nth_equalityI) (simp_all add: v' xor.assoc)
    with Some k v' show ?thesis by (auto simp: Deobfuscate_def deobfuscateValue_def)
  qed (use assms in \<open>simp add: Deobfuscate_def\<close>)
  then show "Deobfuscate key v' = Ok v" "length v' = length v" by simp_all
qed

text \<open>The entry the database holds for a coin.\<close>

definition coin_entry :: "'key ec_lib \<Rightarrow> bytes option \<Rightarrow> txout \<Rightarrow> bytes \<times> bytes \<Rightarrow> bool" where
  "coin_entry ec key t e \<longleftrightarrow> fst e = coin_key t \<and> Deobfuscate key (coin_bytes ec (to_coin t)) = Ok (snd e)"

definition other_entry :: "bytes \<times> bytes \<Rightarrow> bool" where
  "other_entry e \<longleftrightarrow> length (fst e) < 34 \<or> fst e ! 0 \<noteq> 0x43"

lemma coin_entryD:
  assumes "coin_entry ec key t e"
  shows "fst e = coin_key t" and "Deobfuscate key (snd e) = Ok (coin_bytes ec (to_coin t))"
proof -
  have d: "Deobfuscate key (coin_bytes ec (to_coin t)) = Ok (snd e)" and "fst e = coin_key t"
    using assms by (simp_all add: coin_entry_def)
  then show "fst e = coin_key t" by simp
  show "Deobfuscate key (snd e) = Ok (coin_bytes ec (to_coin t))" using d by (rule deobfuscate_involution(1))
qed

lemma Next_other: "list_all other_entry es \<Longrightarrow> UTXOIterator_Next ec key (es @ fs) = UTXOIterator_Next ec key fs"
proof (induction es)
  case (Cons e es)
  then show ?case by (cases e) (auto simp: other_entry_def)
qed simp

lemma coin_entry_not_other: "valid_coin t \<Longrightarrow> \<not> length (coin_key t) < 34"
  using vlq_nonempty(2) [of "to_index t"] by (simp add: coin_key_def valid_coin_def del: vlq_nonempty)

lemma Next_entry:
  assumes "\<not> length k < 34" and "k ! 0 = 0x43" and "Deobfuscate key v = Ok v'"
  shows "UTXOIterator_Next ec key ((k, v) # es) =
    (bindO (wrapO ''deserialize UTXO error'' (TxOut_Deserialize ec (NewReader (buildTxOutBytes (drop 1 k) v')))) (\<lambda>(t, _). Ok t), es)"
  using assms by (simp del: drop_Suc_Cons drop_append)

lemma coin_key_parts:
  assumes "valid_coin t"
  shows "\<not> length (coin_key t) < 34" and "coin_key t ! 0 = 0x43"
    and "buildTxOutBytes (drop 1 (coin_key t)) c = rev (to_txID t) @ vlq (to_index t) @ c"
  using coin_entry_not_other [OF assms] by (simp_all add: coin_key_def buildTxOutBytes_def)

lemma Next_coin:
  assumes "ec_laws ec" and "valid_coin t" and "wo_PkScript (coin_out (to_coin t)) \<noteq> []"
    and "list_all other_entry es" and "coin_entry ec key t e"
  shows "UTXOIterator_Next ec key (es @ e # fs) = (Ok t, fs)"
proof -
  obtain k v where e: "e = (k, v)" by fastforce
  with coin_entryD [OF assms(5)] have k: "k = coin_key t" and v: "Deobfuscate key v = Ok (coin_bytes ec (to_coin t))"
    by simp_all
  obtain r where r: "TxOut_Deserialize ec (NewReader (rev (to_txID t) @ vlq (to_index t) @ coin_bytes ec (to_coin t))) = Ok (t, r)"
    using TxOut_Deserialize_coin [OF assms(1-3)] by blast
  note n = Next_entry [OF coin_key_parts(1,2) [OF assms(2)] v [unfolded k], of ec fs]
  show ?thesis unfolding Next_other [OF assms(4)] e k n coin_key_parts(3) [OF assms(2)] r
    by (simp only: wrapO.simps bindO.simps prod.case)
qed

text \<open>The outputs of a transaction are together in the order of the keys.\<close>

lemma bytes_le_prefix: "length p = length q \<Longrightarrow> bytes_le (p @ x) (q @ y) \<longleftrightarrow> (if p = q then bytes_le x y else bytes_le p q)"
  by (induction p q rule: list_induct2) auto

lemma bytes_le_antisym: "bytes_le p q \<Longrightarrow> bytes_le q p \<Longrightarrow> p = q"
proof (induction p q rule: bytes_le.induct)
  case (1 ys)
  then show ?case by (cases ys) auto
qed auto

inductive holds_coins :: "'key ec_lib \<Rightarrow> bytes option \<Rightarrow> (bytes \<times> bytes) list \<Rightarrow> txout list \<Rightarrow> bool" for ec key where
  empty: "holds_coins ec key [] []"
| other: "other_entry e \<Longrightarrow> holds_coins ec key es ts \<Longrightarrow> holds_coins ec key (e # es) ts"
| coin: "coin_entry ec key t e \<Longrightarrow> valid_coin t \<Longrightarrow> wo_PkScript (coin_out (to_coin t)) \<noteq> [] \<Longrightarrow>
    holds_coins ec key es ts \<Longrightarrow> holds_coins ec key (e # es) (t # ts)"

lemma holds_coins_valid: "holds_coins ec key es ts \<Longrightarrow> t \<in> set ts \<Longrightarrow> valid_coin t"
  by (induction rule: holds_coins.induct) auto

text \<open>What the iterator yields over such entries, one coin at a time.\<close>

lemma holds_coins_Next:
  assumes "ec_laws ec" and "holds_coins ec key es ts"
  shows "case ts of [] \<Rightarrow> UTXOIterator_Next ec key es = (Err ErrNoKeysMore, [])
    | t # ts' \<Rightarrow> \<exists>es'. UTXOIterator_Next ec key es = (Ok t, es') \<and> holds_coins ec key es' ts'"
  using assms(2)
proof (induction rule: holds_coins.induct)
  case (other e es ts)
  have "UTXOIterator_Next ec key (e # es) = UTXOIterator_Next ec key es"
    using Next_other [of "[e]" ec key es] other(1) by simp
  then show ?case using other(3) by (simp only:)
next
  case (coin t e es ts)
  then show ?case using Next_coin [OF assms(1) coin(2,3) _ coin(1), of "[]" es] by simp
qed simp

lemma outputs_while_takeWhile:
  assumes "ec_laws ec" and "holds_coins ec key es ts"
  shows "outputs_while ec key x es us = Ok (us @ takeWhile (\<lambda>t. GetTxID t = x) ts)"
  using assms(2)
proof (induction ts arbitrary: es us rule: list.induct)
  case Nil
  from holds_coins_Next [OF assms(1) Nil] show ?case by (simp add: outputs_while.simps [of ec key x es])
next
  case (Cons t ts)
  obtain es' where "UTXOIterator_Next ec key es = (Ok t, es')" "holds_coins ec key es' ts"
    using holds_coins_Next [OF assms(1) Cons.prems] by auto
  with Cons.IH [of es'] show ?case by (simp add: outputs_while.simps [of ec key x es])
qed

text \<open>The coins of the entries from a key on, in the order of the keys.\<close>

abbreviation keys_sorted :: "(bytes \<times> bytes) list \<Rightarrow> bool" where
  "keys_sorted \<equiv> sorted_wrt (\<lambda>e f. bytes_le (fst e) (fst f))"

lemma coin_key_le: "length p = length (to_txID t) \<Longrightarrow> bytes_le (0x43 # p) (coin_key t) \<longleftrightarrow> bytes_le p (rev (to_txID t))"
  using bytes_le_prefix [of p "rev (to_txID t)" "[]" "vlq (to_index t)"]
  by (cases "p = rev (to_txID t)") (simp_all add: coin_key_def bytes_le_prefix [of "rev _" _ "[]" "[]", simplified])

lemma holds_coins_from:
  assumes "holds_coins ec key es ts" and "keys_sorted es" and "length p = 32"
  defines "rest_of \<equiv> filter (\<lambda>t. bytes_le p (rev (to_txID t))) ts"
  shows "holds_coins ec key (filter (\<lambda>(k, _). bytes_le (0x43 # p) k) es) rest_of \<and>
    sorted_wrt (\<lambda>t u. bytes_le (rev (to_txID t)) (rev (to_txID u))) rest_of"
  using assms(1,2) unfolding rest_of_def
proof (induction rule: holds_coins.induct)
  case (other e es ts)
  then show ?case by (cases e) (auto intro: holds_coins.other)
next
  case (coin t e es ts)
  have e: "fst e = coin_key t" using coin(1) by (simp add: coin_entry_def)
  have l: "length (to_txID t) = 32" using coin(2) by (simp add: valid_coin_def)
  have s: "bytes_le (rev (to_txID t)) (rev (to_txID u))" if "u \<in> set ts" for u
  proof -
    have "\<exists>f \<in> set es. fst f = coin_key u" using coin(4) that
      by (induction rule: holds_coins.induct) (auto simp: coin_entry_def)
    then have "bytes_le (coin_key t) (coin_key u)" using coin.prems e by auto
    moreover have "length (to_txID u) = 32" using holds_coins_valid [OF coin(4) that] by (simp add: valid_coin_def)
    ultimately show ?thesis using l bytes_le_prefix [of "rev (to_txID t)" "rev (to_txID u)" "vlq (to_index t)" "vlq (to_index u)"]
        bytes_le_prefix [of "rev (to_txID t)" "rev (to_txID u)" "[]" "[]"]
      by (auto simp: coin_key_def split: if_splits)
  qed
  have k: "bytes_le (0x43 # p) (fst e) = bytes_le p (rev (to_txID t))" using coin_key_le [of p t] l assms(3) e by simp
  from coin s k show ?case by (cases e) (auto intro: holds_coins.coin)
qed (simp add: holds_coins.empty)

lemma takeWhile_sorted:
  assumes "sorted_wrt R xs" and "\<And>x y. x \<in> set xs \<Longrightarrow> y \<in> set xs \<Longrightarrow> R x y \<Longrightarrow> P y \<Longrightarrow> P x"
  shows "takeWhile P xs = filter P xs"
  using assms
proof (induction xs)
  case (Cons x xs)
  show ?case
  proof (cases "P x")
    case False
    then have "\<forall>y \<in> set xs. \<not> P y" using Cons.prems by auto
    with False show ?thesis by simp
  qed (use Cons in auto)
qed simp

section \<open>Properties\<close>


text \<open>
  C34: a coin whose script is empty, which Bitcoin Core does write, is an error of the reader: the read of
  no bytes at the end of the value is \<open>EOF\<close>.
\<close>

theorem empty_script_fails:
  assumes "valid_coin t" and "wo_PkScript (coin_out (to_coin t)) = []" and "coin_entry ec key t e"
  shows "UTXOIterator_Next ec key (e # fs) = (Err (Wrap ''deserialize UTXO error'' EOF), fs)"
proof -
  obtain k v where e: "e = (k, v)" by fastforce
  with coin_entryD [OF assms(3)] have k: "k = coin_key t" and v: "Deobfuscate key v = Ok (coin_bytes ec (to_coin t))"
    by simp_all
  let ?i = "vlq (to_index t)" and ?c = "coin_bytes ec (to_coin t)" and ?t = "rev (to_txID t)"
  let ?a = "CompressTxOutAmount (of_int (wo_Value (coin_out (to_coin t))))" and ?o = "coin_code (to_coin t)"
  have l: "length ?t = 32" using assms(1) by (simp add: valid_coin_def)
  have c: "?c = vlq ?o @ vlq ?a @ vlq 6"
    using assms(2) by (simp add: coin_bytes_def compress_script_def isPubKeyHash_def isScriptHash_def isPubKey_def numSpecialScripts_def)
  have r: "rd_Read 32 (rd_at [] (?t @ ?i @ ?c)) = Ok (?t, rd_at ?t (?i @ ?c))"
    using rd_Read_exact [of ?t "?i @ ?c" "[]"] l by simp
  have s: "read_script 6 (rd_at (?t @ ?i @ vlq ?o @ vlq ?a @ vlq 6) []) = Err EOF"
    by (simp add: read_script_def GetScriptSize_def rd_Read_def MAX_SCRIPT_SIZE_def)
  have "TxOut_Deserialize ec (NewReader (?t @ ?i @ ?c)) = Err EOF"
    using r rd_VLQ_vlq [of ?t "to_index t" ?c] rd_VLQ_vlq [of "?t @ ?i" ?o "vlq ?a @ vlq 6"]
      rd_VLQ_vlq [of "?t @ ?i @ vlq ?o" ?a "vlq 6"] rd_VLQ_vlq [of "?t @ ?i @ vlq ?o @ vlq ?a" 6 "[]"] s
    by (simp add: TxOut_Deserialize_def NewReader_def Coin_Deserialize_def c)
  note d = this
  note n = Next_entry [OF coin_key_parts(1,2) [OF assms(1)] v, of ec fs]
  show ?thesis unfolding e k n coin_key_parts(3) [OF assms(1)] d by (simp only: wrapO.simps bindO.simps)
qed

text \<open>
  Over a database whose keys are in order, \<open>GetOutputs\<close> returns exactly the coins of the
  transaction, all of them, in the order of their keys.
\<close>

theorem GetOutputs_exact:
  assumes "ec_laws ec" and "holds_coins ec key (ldb_entries d) ts" and "keys_sorted (ldb_entries d)" and "length tx = 32"
  shows "GetOutputs ec key d tx = Ok (filter (\<lambda>t. to_txID t = tx) ts)"
proof -
  let ?f = "filter (\<lambda>t. bytes_le (rev tx) (rev (to_txID t))) ts"
  from holds_coins_from [OF assms(2,3), of "rev tx"] assms(4)
  have h: "holds_coins ec key (filter (\<lambda>(k, _). bytes_le (buildTxIDKey tx) k) (ldb_entries d)) ?f"
    and s: "sorted_wrt (\<lambda>t u. bytes_le (rev (to_txID t)) (rev (to_txID u))) ?f"
    by (simp_all add: buildTxIDKey_def)
  have "takeWhile (\<lambda>t. to_txID t = tx) ?f = filter (\<lambda>t. to_txID t = tx) ?f"
  proof (rule takeWhile_sorted [OF s])
    fix x y
    assume "x \<in> set ?f" "bytes_le (rev (to_txID x)) (rev (to_txID y))" "to_txID y = tx"
    then show "to_txID x = tx" using bytes_le_antisym [of "rev (to_txID x)" "rev tx"] by auto
  qed
  moreover have "filter (\<lambda>t. to_txID t = tx) ?f = filter (\<lambda>t. to_txID t = tx) ts"
  proof -
    have "bytes_le p p" for p :: bytes by (induction p) auto
    then show ?thesis by (auto intro!: filter_cong)
  qed
  ultimately show ?thesis using outputs_while_takeWhile [OF assms(1) h, of "hex_EncodeToString tx" "[]"]
    by (simp add: GetOutputs_def GetTxID_def hex_EncodeToString_inj)
qed

section \<open>Examples\<close>

definition sample_coin :: "nat \<Rightarrow> bytes \<Rightarrow> txout" where
  "sample_coin n s = \<lparr>to_txID = replicate 32 (of_nat n), to_index = 1, to_coin = \<lparr>isCoinBase = True,
     coin_blockHeight = 100, coin_out = \<lparr>wo_Value = 5000000000, wo_PkScript = s\<rparr>\<rparr>\<rparr>"

definition sample_key :: "bytes option" where
  "sample_key = Some [0x42, 0xd1, 0x7f, 0x00, 0x11, 0x9c, 0xe3, 0x58]"

definition entry_of :: "txout \<Rightarrow> bytes \<times> bytes" where
  "entry_of t = (coin_key t, case Deobfuscate sample_key (coin_bytes sample_ec (to_coin t)) of Ok v \<Rightarrow> v | _ \<Rightarrow> [])"

lemma entry_of_coin: "coin_entry sample_ec sample_key t (entry_of t)"
  by (simp add: coin_entry_def entry_of_def Deobfuscate_def deobfuscateValue_def sample_key_def)

lemma sample_coin_valid: "length s \<le> 10000 \<Longrightarrow> valid_coin (sample_coin n s)"
  by (simp add: valid_coin_def sample_coin_def)


theorem empty_script_fails_witness:
  "UTXOIterator_Next sample_ec sample_key [entry_of (sample_coin 7 [])] = (Err (Wrap ''deserialize UTXO error'' EOF), [])"
  using empty_script_fails [OF sample_coin_valid _ entry_of_coin, of "[]" 7] by (simp add: sample_coin_def)

definition sample_entries :: "(bytes \<times> bytes) list" where
  "sample_entries = [([0x42], [0x40, 0xd2]), entry_of (sample_coin 7 [0x51]), entry_of (sample_coin 8 [0x52])]"

lemma sample_entries_ok:
  "holds_coins sample_ec sample_key sample_entries [sample_coin 7 [0x51], sample_coin 8 [0x52]]" (is ?h)
  "keys_sorted sample_entries" (is ?s)
proof -
  have v: "valid_coin (sample_coin n [x])" for n x by (simp add: sample_coin_valid)
  have s: "wo_PkScript (coin_out (to_coin (sample_coin n [x]))) \<noteq> []" for n x by (simp add: sample_coin_def)
  show ?h unfolding sample_entries_def
    by (rule holds_coins.other, simp add: other_entry_def)
      (intro holds_coins.coin [OF entry_of_coin v s] holds_coins.empty)
  have r: "replicate 32 x = replicate 31 x @ [x]" for x :: byte using replicate_add [of 31 1 x] by simp
  have k: "coin_key (sample_coin n s) = 0x43 # of_nat n # replicate 31 (of_nat n) @ vlq 1" for n s
    by (simp add: coin_key_def sample_coin_def r)
  show ?s by (simp add: sample_entries_def entry_of_def k)
qed

theorem GetOutputs_exact_witness:
  "GetOutputs sample_ec sample_key \<lparr>ldb_Get = (\<lambda>_. Err LevelDBNotFound), ldb_entries = sample_entries,
      ldb_iterator_Error = None\<rparr> (replicate 32 8) = Ok [sample_coin 8 [0x52]]"
proof -
  let ?d = "\<lparr>ldb_Get = (\<lambda>_. Err LevelDBNotFound), ldb_entries = sample_entries, ldb_iterator_Error = None\<rparr>"
  have "GetOutputs sample_ec sample_key ?d (replicate 32 8) =
      Ok (filter (\<lambda>t. to_txID t = replicate 32 8) [sample_coin 7 [0x51], sample_coin 8 [0x52]])"
    using GetOutputs_exact [OF sample_ec_laws, where d = ?d] sample_entries_ok by simp
  then show ?thesis by (simp add: sample_coin_def)
qed

section \<open>The copies agree\<close>



end
