(* ===== verification/Chainstate_Migration.thy ===== *)
theory Chainstate_Migration
  imports Chainstate Address_Index
begin

text \<open>
  The migration of Bitcoin Core's chainstate into the store (\<^verbatim>\<open>chainstatemigration/migration.go\<close>): the
  coins come in the order of their keys, are grouped by transaction, stored in batches, and the block
  hash and height follow. A migration that was interrupted is started again and skips the batches
  that are there. Logging and the progress ticker are left out.
\<close>

section \<open>The code\<close>

record tx_outputs_entry =
  te_txID :: string
  te_blockHeight :: int
  te_outputs :: "tx_output option list"

text \<open>The interface \<open>UTXOStore\<close> of the migrator, as far as it is used.\<close>

record 'w migration_store =
  ms_AreExiststsOutputs :: "string \<Rightarrow> ('w, bool) st"
  ms_AddTransactionOutputsBatch :: "(string, tx_outputs) gomap \<Rightarrow> ('w, unit) st"
  ms_SetBlockHeight :: "int \<Rightarrow> ('w, unit) st"
  ms_SetBlockHash :: "string \<Rightarrow> ('w, unit) st"

text \<open>The mutable field of the migrator, and the world behind its store.\<close>

record 'w migrator =
  restoredLastSavedTxID :: bool
  mig_world :: 'w

definition on_store :: "('w, 'a) st \<Rightarrow> ('w migrator, 'a) st" where
  "on_store f = (\<lambda>s. case f (mig_world s) of (r, w') \<Rightarrow> (r, s\<lparr>mig_world := w'\<rparr>))"

definition convert_output :: "('key, 'addr) btc_lib \<Rightarrow> txout option \<Rightarrow> tx_output option outcome" where
  "convert_output lib p =
     (case p of
        None \<Rightarrow> Ok None
      | Some u \<Rightarrow>
          bindO (SetScriptBytes lib (wo_PkScript (coin_out (to_coin u))) \<lparr>CompressedScript = [], CompressedAmount = 0\<rparr>)
            (\<lambda>convertedOutput. Ok (Some (SetAmount (of_int (wo_Value (coin_out (to_coin u)))) convertedOutput))))"

definition ConvertUTXOlistToTransactionOutputList ::
  "('key, 'addr) btc_lib \<Rightarrow> txout option list \<Rightarrow> tx_output option list outcome" where
  "ConvertUTXOlistToTransactionOutputList lib utxos = mapO (convert_output lib) utxos"

text \<open>
  The element type is a pointer, and nil fills the gaps. \<open>make\<close> panics on a negative length; the limit
  of the memory is not modelled.
\<close>

definition PushElementToPlace :: "'a option list \<Rightarrow> 'a \<Rightarrow> int \<Rightarrow> 'a option list outcome" where
  "PushElementToPlace list1 element placeIdx =
     (if placeIdx < 0 then Err ErrNoNegativePlaces
      else if int (length list1) > placeIdx then Ok (list1[nat placeIdx := Some element])
      else if int (length list1) = placeIdx then Ok (list1 @ [Some element])
      else if wrap64 (placeIdx + 1) < 0 then Panic
      else
        let newList = (replicate (nat placeIdx + 1) None)[nat placeIdx := Some element] in
        Ok (list1 @ drop (length list1) newList))"

definition updateUTXObatch :: "'w migration_store \<Rightarrow> tx_outputs_entry list \<Rightarrow> ('w, unit) st" where
  "updateUTXObatch s batch =
     (let newBatch = foldl (\<lambda>m e. AList.update (te_txID e) \<lparr>BlockHeight = te_blockHeight e, Outputs = te_outputs e\<rparr> m) [] batch
      in wrapS ''failed to add transaction outputs'' (ms_AddTransactionOutputsBatch s newBatch))"

definition storeUTXOBatch :: "'w migration_store \<Rightarrow> tx_outputs_entry list \<Rightarrow> ('w migrator, unit) st" where
  "storeUTXOBatch s batch =
     (if batch = [] then retS ()
      else (\<lambda>m.
        if \<not> restoredLastSavedTxID m then
          bindS (on_store (wrapS ''fialed to check outputs'' (ms_AreExiststsOutputs s (te_txID (last batch))))) (\<lambda>found.
          if \<not> found then
            thenS (\<lambda>m. (Ok (), m\<lparr>restoredLastSavedTxID := True\<rparr>)) (on_store (updateUTXObatch s batch))
          else retS ()) m
        else on_store (updateUTXObatch s batch) m))"

text \<open>\<open>for { if err := ...; err != nil { sleep; continue }; break }\<close> may run forever.\<close>

partial_function (option) retry_batch :: "('w, unit) st \<Rightarrow> 'w \<Rightarrow> (unit outcome \<times> 'w) option" where
  "retry_batch f w =
     (case f w of
        (Ok u, w') \<Rightarrow> Some (Ok u, w')
      | (Err e, w') \<Rightarrow> retry_batch f w'
      | (Panic, w') \<Rightarrow> Some (Panic, w'))"

declare retry_batch.simps [code]

text \<open>The entry of the transaction that is complete; its height is that of the last output in place.\<close>

definition close_entry :: "('key, 'addr) btc_lib \<Rightarrow> string \<Rightarrow> txout option list \<Rightarrow> tx_outputs_entry outcome" where
  "close_entry lib currentTxID utxoByTxID =
     bindO (ConvertUTXOlistToTransactionOutputList lib utxoByTxID) (\<lambda>outputs.
     case last utxoByTxID of
       None \<Rightarrow> Panic
     | Some u \<Rightarrow> Ok \<lparr>te_txID = currentTxID, te_blockHeight = int_of_u64 (coin_blockHeight (to_coin u)), te_outputs = outputs\<rparr>)"

type_synonym progress = "txout option list \<times> string \<times> tx_outputs_entry list"

definition flush_entry :: "('key, 'addr) btc_lib \<Rightarrow> progress \<Rightarrow> tx_outputs_entry list outcome" where
  "flush_entry lib = (\<lambda>(utxoByTxID, currentTxID, utxoBatch).
     if utxoByTxID \<noteq> []
     then bindO (close_entry lib currentTxID utxoByTxID) (\<lambda>e. Ok (utxoBatch @ [e]))
     else Ok utxoBatch)"

definition take_utxo :: "('key, 'addr) btc_lib \<Rightarrow> progress \<Rightarrow> txout \<Rightarrow> progress outcome" where
  "take_utxo lib = (\<lambda>(utxoByTxID, currentTxID, utxoBatch) currentUTXO.
     bindO (if currentTxID \<noteq> GetTxID currentUTXO
            then bindO (flush_entry lib (utxoByTxID, currentTxID, utxoBatch)) (\<lambda>utxoBatch.
                 Ok ([], GetTxID currentUTXO, utxoBatch))
            else Ok (utxoByTxID, currentTxID, utxoBatch)) (\<lambda>(utxoByTxID, currentTxID, utxoBatch).
     bindO (wrapO ''failed to push utxo (like panic)''
       (PushElementToPlace utxoByTxID currentUTXO (int_of_u64 (to_index currentUTXO)))) (\<lambda>utxoByTxID.
     Ok (utxoByTxID, currentTxID, utxoBatch))))"

function migrate_loop :: "('key, 'addr) btc_lib \<Rightarrow> bytes option \<Rightarrow> 'w migration_store \<Rightarrow> int \<Rightarrow> (bytes \<times> bytes) list \<Rightarrow>
    progress \<Rightarrow> 'w migrator \<Rightarrow> (progress outcome \<times> 'w migrator) option" where
  "migrate_loop lib key s batchSize es p m =
     (case UTXOIterator_Next (btc_ec lib) key es of
        (Err err, es') \<Rightarrow> if errors_is err ErrNoKeysMore then Some (Ok p, m)
                          else Some (Err (Wrap ''failed to iterate UTXOs'' err), m)
      | (Panic, es') \<Rightarrow> Some (Panic, m)
      | (Ok currentUTXO, es') \<Rightarrow>
          (case take_utxo lib p currentUTXO of
             Err err \<Rightarrow> Some (Err err, m)
           | Panic \<Rightarrow> Some (Panic, m)
           | Ok (utxoByTxID, currentTxID, utxoBatch) \<Rightarrow>
               if int (length utxoBatch) = batchSize then
                 (case retry_batch (storeUTXOBatch s utxoBatch) m of
                    None \<Rightarrow> None
                  | Some (Ok _, m') \<Rightarrow> migrate_loop lib key s batchSize es' (utxoByTxID, currentTxID, []) m'
                  | Some (Err err, m') \<Rightarrow> Some (Err err, m')
                  | Some (Panic, m') \<Rightarrow> Some (Panic, m'))
               else migrate_loop lib key s batchSize es' (utxoByTxID, currentTxID, utxoBatch) m))"
  by pat_completeness auto
termination migrate_loop
  by (relation "measure (\<lambda>(lib, key, s, batchSize, es, p, m). length es)") (auto dest: Next_shorter [OF sym])

declare migrate_loop.simps [simp del]

definition finish_migration :: "('key, 'addr) btc_lib \<Rightarrow> bytes option \<Rightarrow> chainstate_db \<Rightarrow> 'w migration_store \<Rightarrow> int \<Rightarrow>
    progress \<Rightarrow> ('w migrator, unit) st" where
  "finish_migration lib key cdb s chainstateBlockHeight p =
     bindS (liftO (flush_entry lib p)) (\<lambda>utxoBatch.
     thenS (if utxoBatch \<noteq> [] then wrapS ''failed to store utxo batch'' (storeUTXOBatch s utxoBatch) else retS ())
     (bindS (wrapS ''failed to get block hash'' (liftO (Chainstate_GetBlockHash key cdb))) (\<lambda>blockHash.
     thenS (on_store (wrapS ''failed to set block hash'' (ms_SetBlockHash s (hex_EncodeToString blockHash))))
       (on_store (wrapS ''failed to set block height'' (ms_SetBlockHeight s chainstateBlockHeight))))))"

definition Migrate :: "('key, 'addr) btc_lib \<Rightarrow> bytes option \<Rightarrow> chainstate_db \<Rightarrow> 'w migration_store \<Rightarrow> int \<Rightarrow> int \<Rightarrow>
    'w migrator \<Rightarrow> (unit outcome \<times> 'w migrator) option" where
  "Migrate lib key cdb s batchSize chainstateBlockHeight m =
     (case wrapO ''failed to get chainstate approximate size'' (ApproximateSize cdb) of
        Err err \<Rightarrow> Some (Err err, m)
      | Panic \<Rightarrow> Some (Panic, m)
      | Ok countOfKeys \<Rightarrow>
          if batchSize < 0 then Some (Panic, m)
          else
            case migrate_loop lib key s batchSize (ldb_entries cdb) ([], '''', []) m of
              None \<Rightarrow> None
            | Some (Ok p, m') \<Rightarrow> Some (finish_migration lib key cdb s chainstateBlockHeight p m')
            | Some (Err err, m') \<Rightarrow> Some (Err err, m')
            | Some (Panic, m') \<Rightarrow> Some (Panic, m'))"

text \<open>The migration as the program runs it: into the store of the UTXO.\<close>

definition store_migration :: "('key, 'addr) btc_lib \<Rightarrow> ('w, 'tx) utxo_store \<Rightarrow> 'w store_state migration_store" where
  "store_migration lib U =
     \<lparr>ms_AreExiststsOutputs = AreExiststsOutputs U, ms_AddTransactionOutputsBatch = AddTransactionOutputsBatch lib U,
      ms_SetBlockHeight = SetBlockHeight U, ms_SetBlockHash = SetBlockHash U\<rparr>"

end
