(* ===== verification/Migration_Correct.thy ===== *)
theory Migration_Correct
  imports Chainstate_Migration Spending_Properties
begin

text \<open>
  Correctness of the migration: what the loop makes of the coins of a transaction, what storing a batch
  does to the key space, and the properties: a migration, however often it was interrupted, ends with
  exactly the coins of the chainstate in the store.
\<close>

section \<open>The transactions of the chainstate\<close>

text \<open>The coins of a transaction by their index, and the list of outputs with gaps.\<close>

definition idx :: "txout \<Rightarrow> nat" where
  "idx u = unat (to_index u)"

definition coins_at :: "txout list \<Rightarrow> nat \<rightharpoonup> txout" where
  "coins_at cs = foldl (\<lambda>m u. m(idx u \<mapsto> u)) Map.empty cs"

definition width :: "txout list \<Rightarrow> nat" where
  "width cs = foldl (\<lambda>n u. max n (Suc (idx u))) 0 cs"

definition placed :: "txout list \<Rightarrow> txout option list" where
  "placed cs = List.map (coins_at cs) [0..<width cs]"

definition converted :: "('key, 'addr) btc_lib \<Rightarrow> txout \<Rightarrow> tx_output" where
  "converted lib u = \<lparr>CompressedScript = compress_script (btc_ec lib) (wo_PkScript (coin_out (to_coin u))),
     CompressedAmount = CompressTxOutAmount (of_int (wo_Value (coin_out (to_coin u))))\<rparr>"

definition height_of :: "txout \<Rightarrow> int" where
  "height_of u = int_of_u64 (coin_blockHeight (to_coin u))"

definition tx_of :: "('key, 'addr) btc_lib \<Rightarrow> txout list \<Rightarrow> tx_outputs" where
  "tx_of lib cs = \<lparr>BlockHeight = height_of (the (last (placed cs))),
     Outputs = List.map (map_option (converted lib)) (placed cs)\<rparr>"

definition coins_of :: "string \<Rightarrow> txout list \<Rightarrow> txout list" where
  "coins_of t ts = filter (\<lambda>u. GetTxID u = t) ts"

definition chain_txs :: "('key, 'addr) btc_lib \<Rightarrow> txout list \<Rightarrow> (string \<times> tx_outputs) list" where
  "chain_txs lib ts = List.map (\<lambda>t. (t, tx_of lib (coins_of t ts))) (remdups_adj (List.map GetTxID ts))"

text \<open>The UTXO set of the chainstate.\<close>

definition chain_utxo :: "('key, 'addr) btc_lib \<Rightarrow> txout list \<Rightarrow> utxo_set" where
  "chain_utxo lib ts = (\<lambda>(t, i). map_option (\<lambda>u. (height_of u, converted lib u)) (coins_at (coins_of t ts) i))"

lemma coins_at_Nil [simp]: "coins_at [] = Map.empty"
  by (simp add: coins_at_def)

lemma coins_at_snoc [simp]: "coins_at (cs @ [u]) = (coins_at cs)(idx u \<mapsto> u)"
  by (simp add: coins_at_def)

lemma width_snoc [simp]: "width (cs @ [u]) = max (width cs) (Suc (idx u))"
  by (simp add: width_def)

lemma width_Nil [simp]: "width [] = 0"
  by (simp add: width_def)

lemma length_placed [simp]: "length (placed cs) = width cs"
  by (simp add: placed_def)

lemma coins_at_width: "width cs \<le> i \<Longrightarrow> coins_at cs i = None"
  by (induction cs rule: rev_induct) auto

lemma coins_at_Some: "coins_at cs i = Some u \<Longrightarrow> u \<in> set cs \<and> idx u = i"
  by (induction cs rule: rev_induct) (auto split: if_splits)

lemma width_attained: "cs \<noteq> [] \<Longrightarrow> 0 < width cs \<and> coins_at cs (width cs - 1) \<noteq> None"
proof (induction cs rule: rev_induct)
  case (snoc u cs)
  show ?case
  proof (cases "Suc (idx u) < width cs")
    case True
    then have "cs \<noteq> []" by auto
    with snoc.IH True show ?thesis by (auto simp: max_def)
  qed (simp add: max_def)
qed simp

lemma last_placed: "cs \<noteq> [] \<Longrightarrow> \<exists>u. last (placed cs) = Some u \<and> u \<in> set cs"
  using width_attained [of cs] coins_at_Some [of cs "width cs - 1"]
  by (auto simp: placed_def last_map last_upt)

text \<open>An element is put in its place.\<close>

lemma Push_placed:
  assumes "idx u < 2 ^ 32"
  shows "PushElementToPlace (placed cs) u (int_of_u64 (to_index u)) = Ok (placed (cs @ [u]))"
proof -
  have u: "uint (to_index u) = int (idx u)" by (simp add: idx_def)
  then have i: "int_of_u64 (to_index u) = int (idx u)" using assms by (subst int_of_u64_small) auto
  have w: "\<not> wrap64 (int (idx u) + 1) < 0" using assms by (subst wrap64_id) (auto simp: int64_range_def)
  consider "idx u < width cs" | "idx u = width cs" | "width cs < idx u" by linarith
  then show ?thesis
  proof cases
    case 1
    then have "(placed cs)[idx u := Some u] = placed (cs @ [u])"
      by (intro nth_equalityI) (auto simp: placed_def max_absorb1 nth_list_update)
    with 1 show ?thesis by (simp add: PushElementToPlace_def i)
  next
    case 2
    then show ?thesis by (auto simp: PushElementToPlace_def i placed_def max_def)
  next
    case 3
    have "placed cs @ drop (width cs) ((replicate (Suc (idx u)) None)[idx u := Some u]) = placed (cs @ [u])"
      (is "?l = ?r")
    proof (rule nth_equalityI)
      have l: "length ?l = Suc (idx u)"
        using 3 by (simp only: length_append length_drop length_placed length_list_update length_replicate)
      then show "length ?l = length ?r" using 3 by (simp only: length_placed width_snoc max_absorb2)
      fix j assume "j < length ?l"
      then have j: "j < Suc (idx u)" by (simp only: l)
      show "?l ! j = ?r ! j"
      proof (cases "j < width cs")
        case True
        then show ?thesis using 3 j by (auto simp: placed_def nth_append)
      next
        case False
        then show ?thesis using 3 j coins_at_width [of cs j] by (auto simp: placed_def nth_append nth_list_update simp del: replicate_Suc)
      qed
    qed
    then show ?thesis using 3 w by (simp add: PushElementToPlace_def i Let_def)
  qed
qed

lemma Convert_eq: "ConvertUTXOlistToTransactionOutputList lib us = Ok (List.map (map_option (converted lib)) us)"
  unfolding ConvertUTXOlistToTransactionOutputList_def
  by (rule mapO_Ok) (simp add: convert_output_def converted_def SetScriptBytes_eq SetAmount_def split: option.split)

definition entry_rec :: "string \<times> tx_outputs \<Rightarrow> tx_outputs_entry" where
  "entry_rec p = \<lparr>te_txID = fst p, te_blockHeight = BlockHeight (snd p), te_outputs = Outputs (snd p)\<rparr>"

lemma close_entry_placed:
  assumes "cs \<noteq> []"
  shows "close_entry lib t (placed cs) = Ok (entry_rec (t, tx_of lib cs))"
  using last_placed [OF assms] by (auto simp: close_entry_def Convert_eq entry_rec_def tx_of_def height_of_def)

section \<open>The loop over the coins\<close>

text \<open>What the chainstate of Bitcoin Core satisfies: the coins of a transaction share its height.\<close>

definition chain_ok :: "txout list \<Rightarrow> bool" where
  "chain_ok ts \<longleftrightarrow> distinct (remdups_adj (List.map GetTxID ts)) \<and>
     (\<forall>u \<in> set ts. idx u < 2 ^ 32 \<and> GetTxID u \<noteq> '''' \<and>
        (\<forall>w \<in> set ts. GetTxID w = GetTxID u \<longrightarrow> height_of w = height_of u))"

text \<open>The state of the loop after the coins \<open>ts\<close>, if no batch was stored yet.\<close>

definition progress_of :: "('key, 'addr) btc_lib \<Rightarrow> txout list \<Rightarrow> progress" where
  "progress_of lib ts = (if ts = [] then ([], '''', [])
     else (placed (coins_of (GetTxID (last ts)) ts), GetTxID (last ts), List.map entry_rec (butlast (chain_txs lib ts))))"

lemma remdups_adj_snoc:
  "remdups_adj (xs @ [x]) = (if xs \<noteq> [] \<and> last xs = x then remdups_adj xs else remdups_adj xs @ [x])"
proof (cases xs rule: rev_cases)
  case (snoc ys y)
  then show ?thesis using remdups_adj_append_two [of ys y x] by auto
qed simp

lemma last_remdups_adj: "xs \<noteq> [] \<Longrightarrow> \<exists>ys. remdups_adj xs = ys @ [last xs]"
proof (induction xs rule: rev_induct)
  case (snoc x xs)
  then show ?case by (auto simp: remdups_adj_snoc)
qed simp

lemma coins_of_snoc [simp]: "coins_of t (ts @ [u]) = coins_of t ts @ (if GetTxID u = t then [u] else [])"
  by (simp add: coins_of_def)

lemma chain_txs_last:
  assumes "ts \<noteq> []"
  obtains ids where "remdups_adj (List.map GetTxID ts) = ids @ [GetTxID (last ts)]"
    "chain_txs lib ts = List.map (\<lambda>t. (t, tx_of lib (coins_of t ts))) ids @
       [(GetTxID (last ts), tx_of lib (coins_of (GetTxID (last ts)) ts))]"
  using last_remdups_adj [of "List.map GetTxID ts"] assms by (auto simp: chain_txs_def last_map)

lemma coins_of_last: "ts \<noteq> [] \<Longrightarrow> coins_of (GetTxID (last ts)) ts \<noteq> []"
  by (cases ts rule: rev_cases) auto

lemma chain_ok_snoc:
  assumes "chain_ok (ts @ [u])" shows "chain_ok ts"
proof -
  have "distinct (remdups_adj (List.map GetTxID ts @ [GetTxID u]))" using assms by (simp add: chain_ok_def)
  then have "distinct (remdups_adj (List.map GetTxID ts))" by (simp add: remdups_adj_snoc split: if_splits)
  with assms show ?thesis unfolding chain_ok_def set_append by blast
qed

lemma flush_progress: "flush_entry lib (progress_of lib ts) = Ok (List.map entry_rec (chain_txs lib ts))"
proof (cases "ts = []")
  case False
  then obtain ids where "chain_txs lib ts = List.map (\<lambda>t. (t, tx_of lib (coins_of t ts))) ids @
       [(GetTxID (last ts), tx_of lib (coins_of (GetTxID (last ts)) ts))]" by (rule chain_txs_last)
  moreover have "placed (coins_of (GetTxID (last ts)) ts) \<noteq> []"
    using width_attained [OF coins_of_last [OF False]] by (auto simp flip: length_0_conv)
  ultimately show ?thesis using False
    by (simp add: flush_entry_def progress_of_def close_entry_placed [OF coins_of_last [OF False]])
qed (simp add: flush_entry_def progress_of_def chain_txs_def)

lemma take_progress:
  assumes "chain_ok (ts @ [u])"
  shows "take_utxo lib (progress_of lib ts) u = Ok (progress_of lib (ts @ [u]))"
proof -
  have u: "idx u < 2 ^ 32" "GetTxID u \<noteq> ''''" using assms by (simp_all add: chain_ok_def)
  show ?thesis
  proof (cases "ts \<noteq> [] \<and> GetTxID (last ts) = GetTxID u")
    case True
    then obtain ids where i: "remdups_adj (List.map GetTxID ts) = ids @ [GetTxID u]" by (metis chain_txs_last)
    have d: "GetTxID u \<notin> set ids"
      using assms True i by (auto simp: chain_ok_def remdups_adj_snoc last_map)
    have "chain_txs lib (ts @ [u]) = List.map (\<lambda>t. (t, tx_of lib (coins_of t ts))) ids @ [(GetTxID u, tx_of lib (coins_of (GetTxID u) ts @ [u]))]"
      using True i d by (auto simp: chain_txs_def remdups_adj_snoc last_map)
    moreover have "chain_txs lib ts = List.map (\<lambda>t. (t, tx_of lib (coins_of t ts))) ids @ [(GetTxID u, tx_of lib (coins_of (GetTxID u) ts))]"
      using i by (simp add: chain_txs_def)
    ultimately show ?thesis using True Push_placed [OF u(1)]
      by (simp add: take_utxo_def progress_of_def)
  next
    case False
    have r: "remdups_adj (List.map GetTxID (ts @ [u])) = remdups_adj (List.map GetTxID ts) @ [GetTxID u]"
      using False by (auto simp: remdups_adj_snoc last_map)
    then have d: "GetTxID u \<notin> GetTxID ` set ts" using assms by (auto simp: chain_ok_def)
    then have c: "coins_of (GetTxID u) ts = []" unfolding coins_of_def by (metis (mono_tags, lifting) filter_False image_eqI)
    have "chain_txs lib (ts @ [u]) = chain_txs lib ts @ [(GetTxID u, tx_of lib [u])]"
      unfolding chain_txs_def r using d c by auto
    moreover have "fst (snd (progress_of lib ts)) \<noteq> GetTxID u" using False u(2) by (auto simp: progress_of_def)
    moreover have "placed [u] = placed ([] @ [u])" by simp
    moreover have "placed [] = []" by (simp add: placed_def)
    ultimately show ?thesis using flush_progress [of lib ts] Push_placed [OF u(1), of "[]"] c
      by (cases "progress_of lib ts") (simp add: take_utxo_def progress_of_def [of lib "ts @ [u]"])
  qed
qed

lemma take_all: "chain_ok ts \<Longrightarrow> foldO (take_utxo lib) ([], '''', []) ts = Ok (progress_of lib ts)"
proof (induction ts rule: rev_induct)
  case (snoc u ts)
  have "foldO f s (xs @ [x]) = bindO (foldO f s xs) (\<lambda>s. f s x)" for f and s :: progress and xs and x :: txout
  proof (induction xs arbitrary: s)
    case (Cons y ys)
    then show ?case by (cases "f s y") auto
  next
    case Nil
    then show ?case by (cases "f s x") auto
  qed
  then show ?case using snoc.IH [OF chain_ok_snoc [OF snoc.prems]] take_progress [OF snoc.prems] by simp
qed (simp add: progress_of_def)

text \<open>Storing the head of the batch does not change what the loop makes of the coins.\<close>

lemma take_utxo_drop:
  assumes "take_utxo lib (us, cur, b) u = Ok (us', cur', b')" and "p \<le> length b"
  shows "take_utxo lib (us, cur, drop p b) u = Ok (us', cur', drop p b') \<and> (\<exists>r. b' = b @ r)"
  using assms by (auto simp: take_utxo_def flush_entry_def bindO_Ok_iff split: if_splits)

lemma foldO_take_prefix: "foldO (take_utxo lib) (us, cur, b) xs = Ok (us', cur', b') \<Longrightarrow> \<exists>r. b' = b @ r"
proof (induction xs arbitrary: us cur b)
  case (Cons x xs)
  then obtain us1 cur1 b1 where 1: "take_utxo lib (us, cur, b) x = Ok (us1, cur1, b1)"
    "foldO (take_utxo lib) (us1, cur1, b1) xs = Ok (us', cur', b')" by (auto simp: bindO_Ok_iff)
  from Cons.IH [OF 1(2)] take_utxo_drop [OF 1(1), of 0] show ?case by auto
qed simp

lemma retry_invariant:
  assumes "retry_batch f w = Some (r, w')" and "\<And>w r w'. I w \<Longrightarrow> f w = (r, w') \<Longrightarrow> I w' \<and> (\<forall>u. r = Ok u \<longrightarrow> Q w')" and "I w"
  shows "I w' \<and> (\<forall>u. r = Ok u \<longrightarrow> Q w') \<and> (\<forall>e. r \<noteq> Err e)"
proof -
  have "(\<forall>w r w'. I w \<longrightarrow> f w = (r, w') \<longrightarrow> I w' \<and> (\<forall>u. r = Ok u \<longrightarrow> Q w')) \<longrightarrow> I w \<longrightarrow>
      I (snd (r, w')) \<and> (\<forall>u. fst (r, w') = Ok u \<longrightarrow> Q (snd (r, w'))) \<and> (\<forall>e. fst (r, w') \<noteq> Err e)"
  proof (rule retry_batch.raw_induct [OF _ assms(1)])
    fix g and f :: "('a, unit) st" and w q
    assume IH: "\<And>f w q. g f w = Some q \<Longrightarrow> (\<forall>w r w'. I w \<longrightarrow> f w = (r, w') \<longrightarrow> I w' \<and> (\<forall>u. r = Ok u \<longrightarrow> Q w')) \<longrightarrow> I w \<longrightarrow>
        I (snd q) \<and> (\<forall>u. fst q = Ok u \<longrightarrow> Q (snd q)) \<and> (\<forall>e. fst q \<noteq> Err e)"
      and b: "(case f w of (Ok u, w') \<Rightarrow> Some (Ok u, w') | (Err e, w') \<Rightarrow> g f w' | (Panic, w') \<Rightarrow> Some (Panic, w')) = Some q"
    show "(\<forall>w r w'. I w \<longrightarrow> f w = (r, w') \<longrightarrow> I w' \<and> (\<forall>u. r = Ok u \<longrightarrow> Q w')) \<longrightarrow> I w \<longrightarrow>
        I (snd q) \<and> (\<forall>u. fst q = Ok u \<longrightarrow> Q (snd q)) \<and> (\<forall>e. fst q \<noteq> Err e)"
    proof (intro impI)
      assume step: "\<forall>w r w'. I w \<longrightarrow> f w = (r, w') \<longrightarrow> I w' \<and> (\<forall>u. r = Ok u \<longrightarrow> Q w')" and i: "I w"
      obtain x w1 where x: "f w = (x, w1)" by fastforce
      show "I (snd q) \<and> (\<forall>u. fst q = Ok u \<longrightarrow> Q (snd q)) \<and> (\<forall>e. fst q \<noteq> Err e)"
      proof (cases x)
        case (Err e)
        then have "g f w1 = Some q" using b x by simp
        moreover have "I w1" using step i x by blast
        ultimately show ?thesis using IH step by blast
      qed (use b x step i in auto)
    qed
  qed
  then show ?thesis using assms(2,3) by auto
qed

section \<open>Code that queues or fails\<close>

text \<open>Whatever happens the key space stays as it is, and success implies \<open>C\<close> and queues \<open>cs\<close>.\<close>

definition maybe_queues ::
  "('w \<Rightarrow> kstate) \<Rightarrow> ('w \<Rightarrow> 'r) \<Rightarrow> ('w \<Rightarrow> 'tx \<Rightarrow> kcmd list) \<Rightarrow> 'tx \<Rightarrow> ('w, unit) st \<Rightarrow> bool \<Rightarrow> kcmd list \<Rightarrow> bool" where
  "maybe_queues ks ck pend tx f C cs \<longleftrightarrow> (\<forall>w r w'. f w = (r, w') \<longrightarrow> ks w' = ks w \<and> ck w' = ck w \<and>
     (r = Ok () \<longrightarrow> C \<and> pend w' tx = pend w tx @ cs))"

named_theorems maybe_intros \<open>composition of code that queues commands or fails\<close>

lemma maybe_of_queues:
  assumes "queues ks ck pend tx f cs"
  shows "maybe_queues ks ck pend tx f True cs"
  unfolding maybe_queues_def
proof (intro allI impI)
  fix w r w'
  assume f: "f w = (r, w')"
  obtain w1 where "f w = (Ok (), w1)" "ks w1 = ks w" "ck w1 = ck w" "pend w1 tx = pend w tx @ cs"
    using assms by (rule queuesE)
  with f show "ks w' = ks w \<and> ck w' = ck w \<and> (r = Ok () \<longrightarrow> True \<and> pend w' tx = pend w tx @ cs)" by simp
qed

lemma maybe_then [maybe_intros]:
  assumes "maybe_queues ks ck pend tx f C cs" and "maybe_queues ks ck pend tx g D ds"
  shows "maybe_queues ks ck pend tx (thenS f g) (C \<and> D) (cs @ ds)"
  unfolding maybe_queues_def
proof (intro allI impI)
  fix w r w'
  assume "thenS f g w = (r, w')"
  then show "ks w' = ks w \<and> ck w' = ck w \<and> (r = Ok () \<longrightarrow> (C \<and> D) \<and> pend w' tx = pend w tx @ cs @ ds)"
    using assms unfolding maybe_queues_def by (cases rule: thenS_cases) fastforce+
qed

lemma maybe_for [maybe_intros]:
  assumes "\<And>x. x \<in> set xs \<Longrightarrow> maybe_queues ks ck pend tx (f x) (C x) (cs x)"
  shows "maybe_queues ks ck pend tx (forS f xs) (\<forall>x \<in> set xs. C x) (concat (List.map cs xs))"
  using assms
proof (induction xs)
  case Nil
  then show ?case by (simp add: maybe_queues_def retS_apply)
next
  case (Cons x xs)
  then show ?case using maybe_then [of ks ck pend tx "f x" "C x" "cs x" "forS f xs" "\<forall>x \<in> set xs. C x" "concat (List.map cs xs)"]
    by simp
qed

lemma maybe_lift [maybe_intros]:
  assumes "\<And>a. x = Ok a \<Longrightarrow> maybe_queues ks ck pend tx (f a) C cs"
  shows "maybe_queues ks ck pend tx (bindS (liftO x) f) ((\<exists>a. x = Ok a) \<and> C) cs"
  using assms by (cases x) (auto simp: maybe_queues_def bindS_def liftO_def)

context tx_laws
begin

lemma Do_maybe:
  assumes "Do (Some D) keys fn w = (r, w')"
    and fn: "\<And>tx. maybe_queues ks ck pend tx (fn tx) C cs"
  shows "ck w' = ck w \<and> (ks w' = ks w \<or> C \<and> ks w' = run cs (ks w)) \<and> (r = Ok () \<longrightarrow> C \<and> ks w' = run cs (ks w))"
  using assms(1) unfolding Do_def option.case
proof (cases rule: bindS_cases)
  case (Ok tx w1)
  then have b: "tx_Begin D keys w = (Ok tx, w1)" by (simp add: wrapS_Ok_iff)
  note b' = Begin_frame [OF b] Begin_pend [OF b]
  have f: "ks v' = ks v \<and> ck v' = ck v \<and> (q = Ok () \<longrightarrow> C \<and> pend v' tx = pend v tx @ cs)" if "fn tx v = (q, v')" for q v v'
    using fn [of tx] that unfolding maybe_queues_def by blast
  from Ok(2) show ?thesis
  proof (cases rule: bindS_cases)
    case t: (Ok res w2)
    from t(1) show ?thesis
    proof (cases rule: tryS_cases)
      case (Inr u)
      then have fw: "fn tx w1 = (Ok (), w2)" by simp
      from t(2) Inr(2) have "commit_or_rollback D tx w2 = (r, w')" by simp
      from commit_or_rollback_outcome [OF this] f [OF fw] b' show ?thesis by auto
    next
      case (Inl e)
      with t(2) have "ks w' = ks w2 \<and> ck w' = ck w2 \<and> (\<exists>e. r = Err e)"
        using rollback_with_frame by simp
      with f [OF Inl(1)] b' show ?thesis by auto
    qed simp
  next
    case Panic
    with b' f show ?thesis by (auto elim!: tryS_cases)
  qed (auto elim!: tryS_cases)
qed (auto elim!: wrapS_cases dest: Begin_frame)

end

section \<open>What a batch does to the key space\<close>

definition refs_of :: "('key, 'addr) btc_lib \<Rightarrow> string \<Rightarrow> tx_outputs \<Rightarrow> (string, string list) gomap" where
  "refs_of lib t e = (case txIDsByAddress lib t [] (Outputs e) of Ok m \<Rightarrow> m | _ \<Rightarrow> [])"

definition entry_cmds :: "('key, 'addr) btc_lib \<Rightarrow> string \<Rightarrow> string \<times> tx_outputs \<Rightarrow> kcmd list" where
  "entry_cmds lib v = (\<lambda>(t, e). KSet (tx_key v t) (VOutputs e) # List.map (\<lambda>(a, ids). KAdd (addr_key v a) ids) (refs_of lib t e))"

definition entry_pays :: "('key, 'addr) btc_lib \<Rightarrow> tx_outputs \<Rightarrow> string \<Rightarrow> bool" where
  "entry_pays lib e a \<longleftrightarrow> (\<exists>o1. Some o1 \<in> set (Outputs e) \<and> a \<in> set (addrs_of lib o1))"

lemma mem_ids_of: "y \<in> ids_of m c \<longleftrightarrow> (\<exists>x. (c, x) \<in> set m \<and> y \<in> set x)"
  by (force simp: ids_of_def)

lemma ids_of_map_of:
  assumes "gomap_wf m"
  shows "ids_of m c = (case map_of m c of None \<Rightarrow> {} | Some ids \<Rightarrow> set ids)"
  by (rule set_eqI) (simp add: mem_ids_of gomap_mem_iff [OF assms] split: option.split)

lemma ids_of_update: "gomap_wf m \<Longrightarrow> ids_of (AList.update b x m) a = (if a = b then set x else ids_of m a)"
  by (simp add: ids_of_map_of)

lemma txIDsByAddress_addrs_ids:
  "gomap_wf m \<Longrightarrow> gomap_wf (txIDsByAddress_addrs t m as) \<and>
     ids_of (txIDsByAddress_addrs t m as) a = ids_of m a \<union> (if a \<in> set as then {t} else {})"
proof (induction as arbitrary: m)
  case (Cons b as)
  let ?m = "AList.update b ((case map_of m b of None \<Rightarrow> [] | Some ids \<Rightarrow> ids) @ [t]) m"
  have w: "gomap_wf ?m" using Cons.prems by simp
  have "ids_of ?m a = ids_of m a \<union> (if a = b then {t} else {})"
    using ids_of_map_of [OF Cons.prems, of a] by (auto simp: ids_of_update [OF Cons.prems] split: option.splits)
  then show ?case using Cons.IH [OF w] by auto
qed simp

lemma txIDsByAddress_ids:
  "txIDsByAddress lib t m os = Ok m' \<Longrightarrow> gomap_wf m \<Longrightarrow> gomap_wf m' \<and>
     ids_of m' a = ids_of m a \<union> (if \<exists>o1. Some o1 \<in> set os \<and> a \<in> set (addrs_of lib o1) then {t} else {})"
proof (induction lib t m os rule: txIDsByAddress.induct)
  case (3 lib t m o1 os)
  then obtain as where as: "GetAddresses lib o1 = Ok as" "txIDsByAddress lib t (txIDsByAddress_addrs t m as) os = Ok m'"
    by (auto simp: bindO_Ok_iff)
  note w = txIDsByAddress_addrs_ids [OF 3(3), of t as a]
  have "addrs_of lib o1 = as" using as(1) by (simp add: addrs_of_def)
  then show ?case using 3(1) [of as] as w by auto
qed simp_all

lemma refs_of_ids:
  assumes "txIDsByAddress lib t [] (Outputs e) = Ok m"
  shows "ids_of (refs_of lib t e) a = (if entry_pays lib e a then {t} else {})"
  using txIDsByAddress_ids [OF assms, of a] assms by (simp add: refs_of_def entry_pays_def)

text \<open>The key space holds the transactions of a map, and nothing else in its index.\<close>

definition holds_txs :: "('key, 'addr) btc_lib \<Rightarrow> string \<Rightarrow> (string \<rightharpoonup> tx_outputs) \<Rightarrow> kstate \<Rightarrow> bool" where
  "holds_txs lib v S m \<longleftrightarrow> (\<forall>t. m (tx_key v t) = map_option (\<lambda>e. Val (VOutputs e)) (S t)) \<and>
     (\<forall>a. holds_set m (addr_key v a) \<and> members m (addr_key v a) = {t. \<exists>e. S t = Some e \<and> entry_pays lib e a})"

lemma holds_txs_cong:
  "holds_txs lib v S m \<Longrightarrow> (\<And>t. n (tx_key v t) = m (tx_key v t)) \<Longrightarrow> (\<And>a. n (addr_key v a) = m (addr_key v a)) \<Longrightarrow> holds_txs lib v S n"
  by (simp add: holds_txs_def holds_set_def members_def)

lemma entry_cmds_run:
  assumes "holds_txs lib v S m" and "txIDsByAddress lib t [] (Outputs e) = Ok x" and "S t = None \<or> S t = Some e"
  shows "holds_txs lib v (S(t \<mapsto> e)) (run (entry_cmds lib v (t, e)) m)"
proof -
  let ?m = "m(tx_key v t \<mapsto> Val (VOutputs e))"
  let ?n = "run (List.map (\<lambda>(a, ids). KAdd (addr_key v a) ids) (refs_of lib t e)) ?m"
  have h: "holds_set ?m (addr_key v a)" and mem: "members ?m (addr_key v a) = {t. \<exists>e. S t = Some e \<and> entry_pays lib e a}" for a
    using assms(1) by (simp_all add: holds_txs_def holds_set_other)
  have n: "holds_set ?n (addr_key v a)" "members ?n (addr_key v a) = members ?m (addr_key v a) \<union> ids_of (refs_of lib t e) a" for a
    using run_adds [OF h, of "refs_of lib t e" a] by simp_all
  have tx: "?n (tx_key v u) = ?m (tx_key v u)" for u by (rule run_addr_other) simp
  have "members ?n (addr_key v a) = {u. \<exists>f. (S(t \<mapsto> e)) u = Some f \<and> entry_pays lib f a}" for a
    using assms(3) by (auto simp: n(2) mem refs_of_ids [OF assms(2)])
  then show ?thesis using n(1) tx assms(1) by (auto simp: entry_cmds_def holds_txs_def)
qed

text \<open>A batch of transactions whose addresses can be extracted.\<close>

definition extractable :: "('key, 'addr) btc_lib \<Rightarrow> string \<times> tx_outputs \<Rightarrow> bool" where
  "extractable lib p \<longleftrightarrow> (\<exists>x. txIDsByAddress lib (fst p) [] (Outputs (snd p)) = Ok x)"

lemma batch_run:
  assumes "holds_txs lib v S m" and "\<And>p. p \<in> set ps \<Longrightarrow> extractable lib p"
    and "\<And>t e. (t, e) \<in> set ps \<Longrightarrow> S t = None \<or> S t = Some e" and "distinct (List.map fst ps)"
  shows "holds_txs lib v (S ++ map_of ps) (run (concat (List.map (entry_cmds lib v) ps)) m)"
  using assms
proof (induction ps arbitrary: S m)
  case (Cons p ps)
  obtain t e where p: "p = (t, e)" by fastforce
  obtain x where x: "txIDsByAddress lib t [] (Outputs e) = Ok x" using Cons.prems(2) [of p] p by (auto simp: extractable_def)
  have 1: "holds_txs lib v (S(t \<mapsto> e)) (run (entry_cmds lib v (t, e)) m)"
    using entry_cmds_run [OF Cons.prems(1) x] Cons.prems(3) [of t e] p by simp
  have t: "t \<notin> fst ` set ps" using Cons.prems(4) p by simp
  have "holds_txs lib v (S(t \<mapsto> e) ++ map_of ps) (run (concat (List.map (entry_cmds lib v) ps)) (run (entry_cmds lib v (t, e)) m))"
  proof (rule Cons.IH [OF 1])
    fix u f assume u: "(u, f) \<in> set ps"
    then have "u \<noteq> t" using t by (metis fst_conv image_eqI)
    with u show "(S(t \<mapsto> e)) u = None \<or> (S(t \<mapsto> e)) u = Some f" using Cons.prems(3) by auto
  qed (use Cons.prems in auto)
  moreover have "S(t \<mapsto> e) ++ map_of ps = S ++ map_of (p # ps)"
  proof (rule ext)
    fix u
    have "map_of ps t = None" using t by (simp add: map_of_eq_None_iff)
    then show "(S(t \<mapsto> e) ++ map_of ps) u = (S ++ map_of (p # ps)) u"
      by (cases "u = t") (auto simp: p map_add_def split: option.splits)
  qed
  moreover have "run (concat (List.map (entry_cmds lib v) (p # ps))) m =
      run (concat (List.map (entry_cmds lib v) ps)) (run (entry_cmds lib v (t, e)) m)" by (simp add: p)
  ultimately show ?case by (simp only:)
qed simp

context utxo_backend
begin

lemma addTransactionOutputs_maybe:
  assumes "kv_WithTx (us_s U) tx = Ok s" and "sets_WithTx (us_sets U) tx = Ok z"
  shows "maybe_queues ks ck pend tx (addTransactionOutputs lib \<lparr>b_s = s, b_sets = z, b_dbVer = v\<rparr> t e) (extractable lib (t, e)) (entry_cmds lib v (t, e))"
proof -
  note q = kvT_Set [OF assms(1)] setsT_Add [OF assms(2)]
  have "maybe_queues ks ck pend tx (setNewTxOutputs \<lparr>b_s = s, b_sets = z, b_dbVer = v\<rparr> t e) True [KSet (tx_key v t) (VOutputs e)]"
    unfolding setNewTxOutputs_def by (intro maybe_of_queues queues_wrap) (simp add: q)
  moreover have "maybe_queues ks ck pend tx (createAddressUTXOTxIdIndex lib \<lparr>b_s = s, b_sets = z, b_dbVer = v\<rparr> t (Outputs e))
      ((\<exists>m. txIDsByAddress lib t [] (Outputs e) = Ok m) \<and> True) (List.map (\<lambda>(a, ids). KAdd (addr_key v a) ids) (refs_of lib t e))"
    unfolding createAddressUTXOTxIdIndex_def
  proof (rule maybe_lift)
    fix m assume m: "txIDsByAddress lib t [] (Outputs e) = Ok m"
    show "maybe_queues ks ck pend tx
        (forS (\<lambda>(address, txIDs). addAddressUTXOTransactionIds \<lparr>b_s = s, b_sets = z, b_dbVer = v\<rparr> address txIDs) m)
        True (List.map (\<lambda>(a, ids). KAdd (addr_key v a) ids) (refs_of lib t e))"
      unfolding addAddressUTXOTransactionIds_def using m
      by (intro maybe_of_queues, simp only: refs_of_def outcome.case, intro queues_map) (clarsimp simp: q queues_wrap)
  qed
  ultimately show ?thesis unfolding addTransactionOutputs_def
    by (auto dest: maybe_then simp: entry_cmds_def extractable_def)
qed

lemma addTransactionOutputsBatch_effect:
  assumes "addTransactionOutputsBatch lib U ps w = (r, w')"
  defines "C \<equiv> \<forall>p \<in> set ps. extractable lib p"
  shows "ck w' = ck w \<and> (ks w' = ks w \<or> C \<and> ks w' = run (concat (List.map (entry_cmds lib (us_dbVer U)) ps)) (ks w)) \<and>
    (r = Ok () \<longrightarrow> C \<and> ks w' = run (concat (List.map (entry_cmds lib (us_dbVer U)) ps)) (ks w))"
proof -
  have "maybe_queues ks ck pend tx (bindS (wrapS ''failed to begin transaction'' (liftO (WithTx U tx))) (\<lambda>selfWithTx.
       forS (\<lambda>(txID, txOutputsEntry). addTransactionOutputs lib selfWithTx txID txOutputsEntry) ps))
     C (concat (List.map (entry_cmds lib (us_dbVer U)) ps))" for tx
  proof -
    obtain s z where b: "WithTx U tx = Ok \<lparr>b_s = s, b_sets = z, b_dbVer = us_dbVer U\<rparr>"
      "kv_WithTx (us_s U) tx = Ok s" "sets_WithTx (us_sets U) tx = Ok z" by (rule WithTx_obtain)
    have "maybe_queues ks ck pend tx (forS (\<lambda>(txID, txOutputsEntry).
        addTransactionOutputs lib \<lparr>b_s = s, b_sets = z, b_dbVer = us_dbVer U\<rparr> txID txOutputsEntry) ps)
        C (concat (List.map (entry_cmds lib (us_dbVer U)) ps))"
      unfolding C_def using addTransactionOutputs_maybe [OF b(2,3)] by (intro maybe_for) auto
    then show ?thesis by (simp add: b(1) go_simps)
  qed
  then show ?thesis using Do_maybe assms(1) unfolding addTransactionOutputsBatch_def txManager by blast
qed

end

section \<open>Prefixes of the transactions\<close>

lemma update_fresh: "k \<notin> fst ` set al \<Longrightarrow> AList.update k x al = al @ [(k, x)]"
  by (induction al) auto

lemma new_batch:
  "distinct (List.map fst ps) \<Longrightarrow>
   foldl (\<lambda>m e. AList.update (te_txID e) \<lparr>BlockHeight = te_blockHeight e, Outputs = te_outputs e\<rparr> m) [] (List.map entry_rec ps) = ps"
  by (induction ps rule: rev_induct) (auto simp: entry_rec_def update_fresh)

lemma map_of_part:
  assumes "distinct (List.map fst C)" and "set xs \<subseteq> set C"
  shows "map_of xs t = (if t \<in> fst ` set xs then map_of C t else None)"
proof (cases "map_of xs t")
  case None
  then show ?thesis by (simp add: map_of_eq_None_iff)
next
  case (Some e)
  then have "(t, e) \<in> set xs" by (rule map_of_SomeD)
  with assms show ?thesis using Some by (force simp: map_of_is_SomeI)
qed

lemma prefix_step:
  assumes "distinct (List.map fst C)" and "p \<le> n"
  shows "map_of (take n C) ++ map_of (drop p (take j C)) = map_of (take (max n j) C)"
    and "(t, e) \<in> set (drop p (take j C)) \<Longrightarrow> map_of (take n C) t = None \<or> map_of (take n C) t = Some e"
proof -
  have sub: "set (take i C) \<subseteq> set C" "set (drop p (take j C)) \<subseteq> set C" for i
    by (meson set_take_subset, meson set_drop_subset set_take_subset subset_trans)
  have s: "set (drop p (take j C)) \<union> set (take n C) = set (take (max n j) C)"
  proof (cases "j \<le> n")
    case True
    then have "set (drop p (take j C)) \<subseteq> set (take n C)"
      by (meson set_drop_subset set_take_subset_set_take subset_trans)
    with True show ?thesis by (auto simp: max_def)
  next
    case False
    have "take j C = take p C @ drop p (take j C)" using False assms(2) by (metis append_take_drop_id min.absorb1 nat_le_linear order_trans take_take)
    then have "set (take j C) = set (take p C) \<union> set (drop p (take j C))" by (metis set_append)
    moreover have "set (take p C) \<subseteq> set (take n C)" "set (take n C) \<subseteq> set (take j C)"
      using assms(2) False by (simp_all add: set_take_subset_set_take)
    ultimately show ?thesis using False by (auto simp: max_def)
  qed
  have "map_of (take n C) ++ map_of (drop p (take j C)) = map_of (drop p (take j C) @ take n C)" by simp
  also have "\<dots> = map_of (take (max n j) C)"
  proof (rule ext)
    fix t
    have "set (drop p (take j C) @ take n C) = set (take (max n j) C)" using s by simp
    then show "map_of (drop p (take j C) @ take n C) t = map_of (take (max n j) C) t"
      using map_of_part [OF assms(1), of "drop p (take j C) @ take n C" t] map_of_part [OF assms(1) sub(1), of "max n j" t] sub
      by (metis s set_append sub(1))
  qed
  finally show "map_of (take n C) ++ map_of (drop p (take j C)) = map_of (take (max n j) C)" .
  assume "(t, e) \<in> set (drop p (take j C))"
  then have "map_of C t = Some e" using sub assms(1) by (auto simp: map_of_is_SomeI)
  then show "map_of (take n C) t = None \<or> map_of (take n C) t = Some e"
    using map_of_part [OF assms(1) sub(1), of n t] by auto
qed

lemma prefix_member:
  assumes "distinct (List.map fst C)" and "j < length C"
  shows "map_of (take n C) (fst (C ! j)) \<noteq> None \<longleftrightarrow> j < n"
proof
  assume "map_of (take n C) (fst (C ! j)) \<noteq> None"
  then obtain e where "(fst (C ! j), e) \<in> set (take n C)" by (auto dest: map_of_SomeD)
  then obtain i where i: "i < n" "i < length C" "fst (C ! i) = fst (C ! j)" by (auto simp: in_set_conv_nth)
  then have "i = j" using assms nth_eq_iff_index_eq [OF assms(1), of i j] by simp
  with i show "j < n" by simp
next
  assume "j < n"
  then have "C ! j \<in> set (take n C)" using assms(2) by (metis in_set_conv_nth length_take min_less_iff_conj nth_take)
  then show "map_of (take n C) (fst (C ! j)) \<noteq> None" by (simp add: map_of_eq_None_iff)
qed

context utxo_backend
begin

lemma AreExists_spec:
  assumes "AreExiststsOutputs U t s = (r, s')"
  shows "ks (world s') = ks (world s) \<and> (\<forall>f. r = Ok f \<longrightarrow> f = (ks (world s) (tx_key (us_dbVer U) t) \<noteq> None))"
proof (cases "isConsist s")
  case True
  with assms obtain w' where w: "areExistsOutputs (base U) t (world s) = (r, w')" "s' = s\<lparr>world := w'\<rparr>"
    by (auto simp: AreExiststsOutputs_def guarded_def on_world_iff)
  from w(1) have "ks w' = ks (world s) \<and> (\<forall>f. r = Ok f \<longrightarrow> f = (ks (world s) (tx_key (us_dbVer U) t) \<noteq> None))"
    unfolding areExistsOutputs_def base_sel
  proof (cases rule: bindS_cases)
    case (Ok aa w1)
    then have g: "kv_Get (kv_base (us_s U)) TAny (tx_key (us_dbVer U) t) (world s) = (Ok aa, w1)" "w1 = w'" "r = Ok (aa \<noteq> None)"
      by (auto simp: wrapS_Ok_iff retS_apply)
    have "(aa \<noteq> None) = (ks (world s) (tx_key (us_dbVer U) t) \<noteq> None)"
    proof (cases aa)
      case None
      then show ?thesis using Get_None [of TAny "tx_key (us_dbVer U) t" "world s" w1] g(1) by simp
    next
      case (Some x)
      then show ?thesis using Get_Some [of TAny "tx_key (us_dbVer U) t" "world s" x w1] g(1) by simp
    qed
    then show ?thesis using Get_frame [OF g(1)] g(2,3) by simp
  qed (auto elim!: wrapS_cases dest: Get_frame)
  with w(2) show ?thesis by simp
qed (use assms in \<open>auto simp: AreExiststsOutputs_def guarded_def\<close>)

definition migrated :: "('key, 'addr) btc_lib \<Rightarrow> (string \<times> tx_outputs) list \<Rightarrow> nat \<Rightarrow> 'w store_state migrator \<Rightarrow> bool" where
  "migrated lib C n m \<longleftrightarrow> holds_txs lib (us_dbVer U) (map_of (take n C)) (ks (world (mig_world m)))"

lemma update_batch_effect:
  assumes "on_store (updateUTXObatch (store_migration lib U) (List.map entry_rec (drop p (take j C)))) m = (r, m')"
    and "migrated lib C n m" and "p \<le> n" and "distinct (List.map fst C)"
  shows "\<exists>n' \<ge> n. migrated lib C n' m' \<and> (r = Ok () \<longrightarrow> j \<le> n')"
proof -
  let ?B = "drop p (take j C)" and ?v = "us_dbVer U"
  have "List.map fst ?B = drop p (take j (List.map fst C))" by (simp only: drop_map take_map)
  then have d: "distinct (List.map fst ?B)" using assms(4) by simp
  obtain q s' where q: "AddTransactionOutputsBatch lib U ?B (mig_world m) = (q, s')" by fastforce
  then have m': "m' = m\<lparr>mig_world := s'\<rparr>" and r: "r = wrapO ''failed to add transaction outputs'' q"
    using assms(1) by (simp_all add: on_store_def updateUTXObatch_def new_batch [OF d] store_migration_def wrapS_def)
  then have rq: "r = Ok () \<longleftrightarrow> q = Ok ()" by simp
  show ?thesis
  proof (cases "isConsist (mig_world m)")
    case False
    then have "m' = m" "q \<noteq> Ok ()" using q m' by (auto simp: AddTransactionOutputsBatch_def guarded_def)
    with assms(2) rq show ?thesis by blast
  next
    case True
    then obtain w' where w: "addTransactionOutputsBatch lib U ?B (world (mig_world m)) = (q, w')" "s' = (mig_world m)\<lparr>world := w'\<rparr>"
      using q by (auto simp: AddTransactionOutputsBatch_def guarded_def on_world_iff)
    note e = addTransactionOutputsBatch_effect [OF w(1)]
    have k: "ks (world (mig_world m')) = ks w'" by (simp add: m' w(2))
    show ?thesis
    proof (cases "ks w' = ks (world (mig_world m)) \<and> q \<noteq> Ok ()")
      case True
      then have "migrated lib C n m'" using assms(2) by (simp add: migrated_def k)
      with True rq show ?thesis by blast
    next
      case False
      with e have x: "\<forall>p \<in> set ?B. extractable lib p"
        and run: "ks w' = run (concat (List.map (entry_cmds lib ?v) ?B)) (ks (world (mig_world m)))" by blast+
      have "holds_txs lib ?v (map_of (take n C) ++ map_of ?B) (run (concat (List.map (entry_cmds lib ?v) ?B)) (ks (world (mig_world m))))"
        by (rule batch_run [OF assms(2) [unfolded migrated_def] _ prefix_step(2) [OF assms(4,3)] d]) (use x in blast)+
      then have "migrated lib C (max n j) m'" by (simp only: migrated_def k run prefix_step(1) [OF assms(4,3)])
      then show ?thesis by (intro exI [of _ "max n j"]) simp
    qed
  qed
qed

lemma store_batch_effect:
  assumes "storeUTXOBatch (store_migration lib U) (List.map entry_rec (drop p (take j C))) m = (r, m')"
    and "migrated lib C n m" and "p \<le> n" and "j \<le> length C" and "distinct (List.map fst C)"
    and "p \<le> j"
  shows "\<exists>n' \<ge> n. migrated lib C n' m' \<and> (r = Ok () \<longrightarrow> j \<le> n')"
proof (cases "p < j")
  case False
  then show ?thesis using assms by (auto simp: storeUTXOBatch_def retS_apply)
next
  case True
  let ?b = "List.map entry_rec (drop p (take j C))" and ?s = "store_migration lib U"
  have b: "?b \<noteq> []" using True assms(4) by auto
  have l: "te_txID (last ?b) = fst (C ! (j - 1))"
    using True assms(4) by (simp add: last_map last_drop last_conv_nth entry_rec_def)
  show ?thesis
  proof (cases "restoredLastSavedTxID m")
    case True
    with assms(1) b have "on_store (updateUTXObatch ?s ?b) m = (r, m')" by (simp add: storeUTXOBatch_def)
    from update_batch_effect [OF this assms(2,3,5)] show ?thesis .
  next
    case False
    obtain q s1 where a: "AreExiststsOutputs U (te_txID (last ?b)) (mig_world m) = (q, s1)" by fastforce
    let ?m1 = "m\<lparr>mig_world := s1\<rparr>"
    have e: "on_store (wrapS ''fialed to check outputs'' (ms_AreExiststsOutputs ?s (te_txID (last ?b)))) m =
        (wrapO ''fialed to check outputs'' q, ?m1)"
      using a by (simp add: on_store_def wrapS_def store_migration_def)
    from AreExists_spec [OF a] have k: "migrated lib C n ?m1"
      and f: "q = Ok found \<Longrightarrow> found = (j - 1 < n)" for found
      using assms(2) prefix_member [OF assms(5), of "j - 1" n] True assms(4) l
      by (auto simp: migrated_def holds_txs_def)
    show ?thesis
    proof (cases q)
      case (Ok found)
      show ?thesis
      proof (cases found)
        case True
        then have "r = Ok ()" "m' = ?m1" using assms(1) b e False Ok by (simp_all add: storeUTXOBatch_def bindS_def retS_def)
        moreover have "j \<le> n" using f [OF Ok] True by auto
        ultimately show ?thesis using k by blast
      next
        case nf: False
        have "on_store (updateUTXObatch ?s ?b) (?m1\<lparr>restoredLastSavedTxID := True\<rparr>) = (r, m')"
          using assms(1) b e False Ok nf by (simp add: storeUTXOBatch_def bindS_def thenS_def)
        from update_batch_effect [OF this _ assms(3,5)] k show ?thesis by (simp add: migrated_def)
      qed
    next
      case (Err x)
      then have "r \<noteq> Ok ()" "m' = ?m1" using assms(1) b e False by (auto simp: storeUTXOBatch_def bindS_def)
      with k show ?thesis by auto
    next
      case Panic
      then have "r \<noteq> Ok ()" "m' = ?m1" using assms(1) b e False by (auto simp: storeUTXOBatch_def bindS_def)
      with k show ?thesis by auto
    qed
  qed
qed

lemma migrate_loop_keeps:
  assumes "ec_laws (btc_ec lib)" and "distinct (List.map fst C)"
    and "holds_coins (btc_ec lib) key es ts" and "foldO (take_utxo lib) (us, cur, b) ts = Ok (us', cur', b')"
    and "b' = List.map entry_rec (take (length b') C)" and "migrated lib C n m" and "p \<le> n" and "p \<le> length b"
    and "migrate_loop lib key (store_migration lib U) bs es (us, cur, drop p b) m = Some (r, m')"
  shows "\<exists>n' \<ge> n. migrated lib C n' m' \<and>
    (\<forall>q. r = Ok q \<longrightarrow> (\<exists>p' \<le> n'. p' \<le> length b' \<and> q = (us', cur', drop p' b')))"
  using assms(3,4,6-9)
proof (induction ts arbitrary: es us cur b n m p rule: list.induct)
  case Nil
  have "UTXOIterator_Next (btc_ec lib) key es = (Err ErrNoKeysMore, [])"
    using holds_coins_Next [OF assms(1) Nil.prems(1)] by simp
  then have "r = Ok (us, cur, drop p b)" "m' = m" using Nil.prems(6) by (simp_all add: migrate_loop.simps)
  with Nil.prems show ?case by auto
next
  case (Cons u ts)
  obtain es' where n: "UTXOIterator_Next (btc_ec lib) key es = (Ok u, es')" and h: "holds_coins (btc_ec lib) key es' ts"
    using holds_coins_Next [OF assms(1) Cons.prems(1)] by auto
  from Cons.prems(2) obtain us1 cur1 b1 where t: "take_utxo lib (us, cur, b) u = Ok (us1, cur1, b1)"
    and f: "foldO (take_utxo lib) (us1, cur1, b1) ts = Ok (us', cur', b')" by (auto simp: bindO_Ok_iff)
  note td = take_utxo_drop [OF t Cons.prems(5)]
  then have pl: "p \<le> length b1" using Cons.prems(5) by auto
  obtain rest where rest: "b' = b1 @ rest" using foldO_take_prefix [OF f] by blast
  then have b1: "b1 = List.map entry_rec (take (length b1) C)"
    using assms(5) by (metis append_eq_append_conv append_take_drop_id length_append length_map min.absorb1 take_map length_take
        nat_le_iff_add take_all_iff take_append take_take le_add1 append_Nil2 diff_self_eq_0 take0)
  have lc: "length b1 \<le> length C" using arg_cong [OF b1, of length] by simp
  show ?case
  proof (cases "int (length (drop p b1)) = bs")
    case False
    then have "migrate_loop lib key (store_migration lib U) bs es' (us1, cur1, drop p b1) m = Some (r, m')"
      using Cons.prems(6) n td by (simp add: migrate_loop.simps [of lib key _ bs es])
    from Cons.IH [OF h f Cons.prems(3,4) pl this] show ?thesis .
  next
    case True
    have batch: "drop p b1 = List.map entry_rec (drop p (take (length b1) C))"
      by (subst b1) (simp add: drop_map)
    let ?f = "storeUTXOBatch (store_migration lib U) (drop p b1)"
    obtain x m1 where x: "retry_batch ?f m = Some (x, m1)"
      using Cons.prems(6) n td True by (auto simp: migrate_loop.simps [of lib key _ bs es] split: option.splits)
    let ?I = "\<lambda>m. \<exists>k \<ge> n. migrated lib C k m" and ?Q = "\<lambda>m. \<exists>k \<ge> n. migrated lib C k m \<and> length b1 \<le> k"
    have "?I m1 \<and> (\<forall>u. x = Ok u \<longrightarrow> ?Q m1) \<and> (\<forall>e. x \<noteq> Err e)"
    proof (rule retry_invariant [OF x])
      fix w and y :: "unit outcome" and w'
      assume "?I w" and y: "?f w = (y, w')"
      then obtain k where k: "n \<le> k" "migrated lib C k w" by blast
      have "p \<le> k" using k(1) Cons.prems(4) by simp
      from store_batch_effect [OF y [unfolded batch] k(2) this lc assms(2) pl] obtain k' where
        "k \<le> k'" "migrated lib C k' w'" "y = Ok () \<longrightarrow> length b1 \<le> k'" by blast
      with k(1) show "?I w' \<and> (\<forall>u. y = Ok u \<longrightarrow> ?Q w')" by (auto intro: exI [of _ k'])
    qed (use Cons.prems(3) in blast)
    note st = this
    show ?thesis
    proof (cases x)
      case (Ok v)
      with st obtain k where k: "n \<le> k" "migrated lib C k m1" "length b1 \<le> k" by blast
      have "migrate_loop lib key (store_migration lib U) bs es' (us1, cur1, drop (length b1) b1) m1 = Some (r, m')"
        using Cons.prems(6) n td True x Ok by (simp add: migrate_loop.simps [of lib key _ bs es])
      from Cons.IH [OF h f k(2,3) order_refl this] k(1) show ?thesis by (meson order_trans)
    next
      case (Err e)
      with st show ?thesis by blast
    next
      case Panic
      then have "r = Panic" "m' = m1" using Cons.prems(6) n td True x by (simp_all add: migrate_loop.simps [of lib key _ bs es])
      with st show ?thesis by auto
    qed
  qed
qed

lemma set_value_spec:
  assumes "guarded (on_world (wrapS x (kv_Set (kv_base (us_s U)) k u))) s = (r, s')"
  shows "(ks (world s') = ks (world s) \<or> ks (world s') = (ks (world s))(k \<mapsto> Val u)) \<and>
    (r = Ok () \<longrightarrow> ks (world s') = (ks (world s))(k \<mapsto> Val u))"
proof (cases "isConsist s")
  case True
  with assms obtain w' where w: "wrapS x (kv_Set (kv_base (us_s U)) k u) (world s) = (r, w')" "s' = s\<lparr>world := w'\<rparr>"
    by (auto simp: guarded_def on_world_iff)
  from appliesD(3,4) [OF applies_wrap [OF Set] w(1)] w(2) show ?thesis by simp
qed (use assms in \<open>auto simp: guarded_def\<close>)

lemma finish_keeps:
  assumes "finish_migration lib key cdb (store_migration lib U) h (us, cur, drop p b) m = (r, m')"
    and "flush_entry lib (us, cur, b) = Ok (List.map entry_rec C)" and "p \<le> length b" and "p \<le> n"
    and "migrated lib C n m" and "distinct (List.map fst C)"
  shows "\<exists>n' \<ge> n. migrated lib C n' m' \<and> (r = Ok () \<longrightarrow> length C \<le> n' \<and>
    (\<exists>bh. Chainstate_GetBlockHash key cdb = Ok bh \<and>
      ks (world (mig_world m')) (hash_key (us_dbVer U)) = Some (Val (VString (hex_EncodeToString bh)))) \<and>
    ks (world (mig_world m')) (height_key (us_dbVer U)) = Some (Val (VInt64 h)))"
proof -
  have fl: "flush_entry lib (us, cur, drop p b) = Ok (List.map entry_rec (drop p (take (length C) C)))" and pc: "p \<le> length C"
  proof -
    have "\<exists>e. List.map entry_rec C = b @ e \<and> flush_entry lib (us, cur, drop p b) = Ok (drop p b @ e)"
    proof (cases "us = []")
      case False
      then obtain a where "close_entry lib cur us = Ok a" "List.map entry_rec C = b @ [a]"
        using assms(2) by (auto simp: flush_entry_def bindO_Ok_iff)
      with False show ?thesis by (simp add: flush_entry_def)
    qed (use assms(2) in \<open>simp add: flush_entry_def\<close>)
    then obtain e where "List.map entry_rec C = b @ e" "flush_entry lib (us, cur, drop p b) = Ok (drop p b @ e)" by blast
    moreover from this(1) have "length C = length b + length e" by (metis length_append length_map)
    ultimately show "flush_entry lib (us, cur, drop p b) = Ok (List.map entry_rec (drop p (take (length C) C)))" "p \<le> length C"
      using assms(3) by (simp_all flip: drop_map)
  qed
  let ?b = "List.map entry_rec (drop p (take (length C) C))" and ?s = "store_migration lib U"
  have "(thenS (if ?b \<noteq> [] then wrapS ''failed to store utxo batch'' (storeUTXOBatch ?s ?b) else retS ())
     (bindS (wrapS ''failed to get block hash'' (liftO (Chainstate_GetBlockHash key cdb))) (\<lambda>blockHash.
     thenS (on_store (wrapS ''failed to set block hash'' (ms_SetBlockHash ?s (hex_EncodeToString blockHash))))
       (on_store (wrapS ''failed to set block height'' (ms_SetBlockHeight ?s h)))))) m = (r, m')" (is "thenS ?first ?rest m = _")
    using assms(1) by (simp only: finish_migration_def fl go_simps)
  then show ?thesis
  proof (cases rule: thenS_cases)
    case (Ok u m1)
    have "\<exists>k \<ge> n. migrated lib C k m1 \<and> length C \<le> k"
    proof (cases "?b = []")
      case True
      then have "m1 = m" "length C \<le> n" using Ok(1) assms(4) by (simp_all add: retS_apply)
      with assms(5) show ?thesis by blast
    next
      case False
      then have "storeUTXOBatch ?s ?b m = (Ok (), m1)" using Ok(1) by (simp add: wrapS_Ok_iff)
      from store_batch_effect [OF this assms(5,4) order_refl assms(6) pc] show ?thesis by blast
    qed
    then obtain k where k: "n \<le> k" "migrated lib C k m1" "length C \<le> k" by blast
    from Ok(2) show ?thesis
    proof (cases rule: bindS_cases)
      case hash: (Ok bh m2)
      then have bh: "Chainstate_GetBlockHash key cdb = Ok bh" "m2 = m1" by (simp_all add: wrapS_Ok_iff liftO_Ok_iff)
      have frame: "migrated lib C k m'" if "ks (world (mig_world m')) = ks (world (mig_world m2)) \<or>
          ks (world (mig_world m')) = (ks (world (mig_world m2)))(x \<mapsto> y)" "x = hash_key (us_dbVer U) \<or> x = height_key (us_dbVer U)"
          "migrated lib C k m2" for m' m2 x y
        using that unfolding migrated_def by (elim disjE; auto intro: holds_txs_cong)
      have set1: "(ks (world s') = ks (world s) \<or> ks (world s') = (ks (world s))(hash_key (us_dbVer U) \<mapsto> Val (VString z))) \<and>
          (q = Ok () \<longrightarrow> ks (world s') = (ks (world s))(hash_key (us_dbVer U) \<mapsto> Val (VString z)))"
        if "ms_SetBlockHash ?s z s = (q, s')" for z s q s'
        using set_value_spec that by (simp add: store_migration_def SetBlockHash_def setBlockHash_def)
      have set2: "(ks (world s') = ks (world s) \<or> ks (world s') = (ks (world s))(height_key (us_dbVer U) \<mapsto> Val (VInt64 z))) \<and>
          (q = Ok () \<longrightarrow> ks (world s') = (ks (world s))(height_key (us_dbVer U) \<mapsto> Val (VInt64 z)))"
        if "ms_SetBlockHeight ?s z s = (q, s')" for z s q s'
        using set_value_spec that by (simp add: store_migration_def SetBlockHeight_def setBlockHeight_def)
      have on: "\<exists>q s'. f (mig_world m) = (q, s') \<and> m' = m\<lparr>mig_world := s'\<rparr> \<and> (r = Ok () \<longleftrightarrow> q = Ok ())"
        if "on_store (wrapS x f) m = (r, m')" for f :: "('w store_state, unit) st" and x m r m'
        using that by (auto simp: on_store_def wrapS_def split: prod.splits)
      from hash(2) show ?thesis
      proof (cases rule: thenS_cases)
        case set: (Ok u m3)
        from on [OF set(1)] set1 have 3: "ks (world (mig_world m3)) = (ks (world (mig_world m2)))(hash_key (us_dbVer U) \<mapsto> Val (VString (hex_EncodeToString bh)))"
          by fastforce
        with frame k bh(2) have m3: "migrated lib C k m3" by blast
        from on [OF set(2)] set2 have 4: "ks (world (mig_world m')) = ks (world (mig_world m3)) \<or>
            ks (world (mig_world m')) = (ks (world (mig_world m3)))(height_key (us_dbVer U) \<mapsto> Val (VInt64 h))"
          "r = Ok () \<longrightarrow> ks (world (mig_world m')) = (ks (world (mig_world m3)))(height_key (us_dbVer U) \<mapsto> Val (VInt64 h))"
          by fastforce+
        from frame [OF 4(1) _ m3] 3 4(2) k bh(1) show ?thesis by auto
      next
        case (Err e)
        from on [OF Err(1)] set1 have "ks (world (mig_world m')) = ks (world (mig_world m2)) \<or>
            ks (world (mig_world m')) = (ks (world (mig_world m2)))(hash_key (us_dbVer U) \<mapsto> Val (VString (hex_EncodeToString bh)))"
          by fastforce
        from frame [OF this] k bh(2) Err(2) show ?thesis by blast
      next
        case Panic
        from on [OF Panic(1)] set1 have "ks (world (mig_world m')) = ks (world (mig_world m2)) \<or>
            ks (world (mig_world m')) = (ks (world (mig_world m2)))(hash_key (us_dbVer U) \<mapsto> Val (VString (hex_EncodeToString bh)))"
          by fastforce
        from frame [OF this] k bh(2) Panic(2) show ?thesis by blast
      qed
    qed (use k in \<open>auto simp: wrapS_def liftO_def\<close>)
  next
    case (Err e)
    show ?thesis
    proof (cases "?b = []")
      case False
      with Err obtain q where "storeUTXOBatch ?s ?b m = (q, m')" by (auto elim: wrapS_cases)
      from store_batch_effect [OF this assms(5,4) order_refl assms(6) pc] Err(2) show ?thesis by blast
    qed (use Err in \<open>simp add: retS_apply\<close>)
  next
    case Panic
    show ?thesis
    proof (cases "?b = []")
      case False
      with Panic obtain q where "storeUTXOBatch ?s ?b m = (q, m')" by (auto elim: wrapS_cases)
      from store_batch_effect [OF this assms(5,4) order_refl assms(6) pc] Panic(2) show ?thesis by blast
    qed (use Panic in \<open>simp add: retS_apply\<close>)
  qed
qed

end

section \<open>The order of the keys groups the coins\<close>

definition chain_heights :: "txout list \<Rightarrow> bool" where
  "chain_heights ts \<longleftrightarrow> (\<forall>u \<in> set ts. idx u < 2 ^ 32 \<and> (\<forall>w \<in> set ts. GetTxID w = GetTxID u \<longrightarrow> height_of w = height_of u))"

lemma bytes_le_zeros: "bytes_le (replicate (length x) 0) x"
proof (induction x)
  case (Cons b x)
  then show ?case by (cases "b = 0") (auto simp: word_neq_0_conv)
qed simp

lemma sorted_groups:
  assumes "sorted_wrt (\<lambda>t u. bytes_le (rev (to_txID t)) (rev (to_txID u))) ts"
  shows "distinct (remdups_adj (List.map GetTxID ts))"
  using assms
proof (induction ts rule: rev_induct)
  case (snoc x ts)
  then have d: "distinct (remdups_adj (List.map GetTxID ts))" by (simp add: sorted_wrt_append)
  show ?case
  proof (cases "ts \<noteq> [] \<and> GetTxID (last ts) = GetTxID x")
    case True
    with d show ?thesis by (auto simp: remdups_adj_snoc last_map)
  next
    case False
    have "GetTxID x \<notin> GetTxID ` set ts"
    proof
      assume "GetTxID x \<in> GetTxID ` set ts"
      then obtain u where u: "u \<in> set ts" "to_txID u = to_txID x" by (auto simp: GetTxID_def hex_EncodeToString_inj)
      then obtain us l where ts: "ts = us @ [l]" by (cases ts rule: rev_cases) auto
      have lx: "bytes_le (rev (to_txID l)) (rev (to_txID x))" using snoc.prems by (simp add: ts sorted_wrt_append)
      have "u = l \<or> bytes_le (rev (to_txID u)) (rev (to_txID l))" using snoc.prems u(1) by (auto simp: ts sorted_wrt_append)
      then have "to_txID l = to_txID x" using lx u(2) bytes_le_antisym [of "rev (to_txID l)" "rev (to_txID x)"] by auto
      with False show False by (simp add: ts GetTxID_def)
    qed
    with d False show ?thesis by (auto simp: remdups_adj_snoc last_map)
  qed
qed simp

lemma database_chain_ok:
  assumes "holds_coins ec key es ts" and "keys_sorted es" and "chain_heights ts"
  shows "chain_ok ts"
proof -
  have l: "length (to_txID u) = 32" if "u \<in> set ts" for u using holds_coins_valid [OF assms(1) that] by (simp add: valid_coin_def)
  then have "filter (\<lambda>t. bytes_le (replicate 32 0) (rev (to_txID t))) ts = ts"
    by (intro filter_True ballI) (metis bytes_le_zeros length_rev)
  with holds_coins_from [OF assms(1,2), of "replicate 32 0"]
  have "sorted_wrt (\<lambda>t u. bytes_le (rev (to_txID t)) (rev (to_txID u))) ts" by simp
  then have "distinct (remdups_adj (List.map GetTxID ts))" by (rule sorted_groups)
  moreover have "GetTxID u \<noteq> ''''" if "u \<in> set ts" for u
  proof
    assume "GetTxID u = ''''"
    then have "hex_EncodeToString (to_txID u) = hex_EncodeToString []" by (simp add: GetTxID_def hex_EncodeToString_def)
    then show False using l [OF that] by (simp add: hex_EncodeToString_inj)
  qed
  ultimately show ?thesis using assms(3) unfolding chain_ok_def chain_heights_def by blast
qed

section \<open>The migrated store\<close>

lemma map_of_chain: "map_of (chain_txs lib ts) t = (if t \<in> GetTxID ` set ts then Some (tx_of lib (coins_of t ts)) else None)"
  by (auto simp: chain_txs_def map_of_map_restrict restrict_map_def)

lemma distinct_chain: "chain_ok ts \<Longrightarrow> distinct (List.map fst (chain_txs lib ts))"
  by (simp add: chain_ok_def chain_txs_def comp_def)

lemma entries_chain:
  assumes "chain_ok ts"
  shows "entries_utxo (map_of (chain_txs lib ts)) = chain_utxo lib ts"
proof (rule ext, clarify)
  fix t i
  show "entries_utxo (map_of (chain_txs lib ts)) (t, i) = chain_utxo lib ts (t, i)"
  proof (cases "t \<in> GetTxID ` set ts")
    case False
    then have "coins_of t ts = []" by (force simp: coins_of_def filter_empty_conv)
    with False show ?thesis by (simp add: entries_utxo_def map_of_chain chain_utxo_def)
  next
    case True
    let ?cs = "coins_of t ts"
    have "?cs \<noteq> []" using True by (force simp: coins_of_def filter_empty_conv)
    then obtain l where l: "last (placed ?cs) = Some l" "l \<in> set ?cs" using last_placed by blast
    have h: "height_of u = height_of l" if "u \<in> set ?cs" for u
    proof -
      have "u \<in> set ts" "l \<in> set ts" "GetTxID u = GetTxID l" using that l(2) by (simp_all add: coins_of_def)
      then show ?thesis using assms unfolding chain_ok_def by blast
    qed
    show ?thesis
    proof (cases "i < width ?cs")
      case i: True
      then have "(Outputs (tx_of lib ?cs)) ! i = map_option (converted lib) (coins_at ?cs i)" by (simp add: tx_of_def placed_def)
      then show ?thesis using True i l(1) h coins_at_Some [of ?cs i]
        by (cases "coins_at ?cs i") (auto simp: entries_utxo_def map_of_chain chain_utxo_def tx_of_def)
    next
      case False
      then show ?thesis using True coins_at_width [of ?cs i] by (simp add: entries_utxo_def map_of_chain chain_utxo_def tx_of_def)
    qed
  qed
qed

lemma holds_txs_utxo:
  assumes "holds_txs lib v S m"
  shows "utxo v m = entries_utxo S" and "outputs_typed v m" and "index_complete lib v m"
proof -
  have s: "stored_entry v m = S"
  proof (rule ext)
    fix t show "stored_entry v m t = S t" using assms by (cases "S t") (simp_all add: stored_entry_def holds_txs_def)
  qed
  then show "utxo v m = entries_utxo S" by (simp add: utxo_def)
  have "m (tx_key v t) = None \<or> (\<exists>e. m (tx_key v t) = Some (Val (VOutputs e)))" for t
    using assms by (cases "S t") (simp_all add: holds_txs_def)
  then show "outputs_typed v m" by (simp add: outputs_typed_def)
  have "t \<in> members m (addr_key v a)" if p: "pays lib (utxo v m) a t" for a t
  proof -
    obtain i h o1 where "entries_utxo S (t, i) = Some (h, o1)" "a \<in> set (addrs_of lib o1)"
      using p by (auto simp: pays_def utxo_def s)
    then obtain e where "S t = Some e" "i < length (Outputs e)" "Outputs e ! i = Some o1"
      by (auto simp: entries_utxo_def split: option.splits if_splits)
    then have "S t = Some e" "entry_pays lib e a" using \<open>a \<in> set (addrs_of lib o1)\<close> unfolding entry_pays_def
      by (auto simp: in_set_conv_nth)
    with assms show ?thesis by (auto simp: holds_txs_def)
  qed
  with assms show "index_complete lib v m" by (simp add: index_complete_def holds_txs_def)
qed

context utxo_backend
begin

lemma Migrate_keeps:
  assumes "ec_laws (btc_ec lib)" and "chain_ok ts" and "holds_coins (btc_ec lib) key (ldb_entries cdb) ts"
    and "migrated lib (chain_txs lib ts) n m" and "Migrate lib key cdb (store_migration lib U) bs h m = Some (r, m')"
  shows "\<exists>n' \<ge> n. migrated lib (chain_txs lib ts) n' m' \<and> (r = Ok () \<longrightarrow> length (chain_txs lib ts) \<le> n' \<and>
    (\<exists>bh. Chainstate_GetBlockHash key cdb = Ok bh \<and>
      ks (world (mig_world m')) (hash_key (us_dbVer U)) = Some (Val (VString (hex_EncodeToString bh)))) \<and>
    ks (world (mig_world m')) (height_key (us_dbVer U)) = Some (Val (VInt64 h)))"
proof -
  let ?C = "chain_txs lib ts"
  obtain us cur b where p: "progress_of lib ts = (us, cur, b)" by (cases "progress_of lib ts")
  have t: "foldO (take_utxo lib) ([], '''', []) ts = Ok (us, cur, b)" using take_all [OF assms(2), of lib] p by simp
  have "b = List.map entry_rec (butlast ?C)" using p by (cases "ts = []") (auto simp: progress_of_def chain_txs_def)
  then have b: "b = List.map entry_rec (take (length b) ?C)" by (simp add: butlast_conv_take)
  have f: "flush_entry lib (us, cur, b) = Ok (List.map entry_rec ?C)" using flush_progress [of lib ts] p by simp
  note d = distinct_chain [OF assms(2), of lib]
  show ?thesis
  proof (cases "ApproximateSize cdb")
    case (Ok count)
    show ?thesis
    proof (cases "bs < 0")
      case False
      then obtain x m1 where l: "migrate_loop lib key (store_migration lib U) bs (ldb_entries cdb) ([], '''', []) m = Some (x, m1)"
        using assms(5) Ok by (auto simp: Migrate_def split: option.splits)
      have "migrate_loop lib key (store_migration lib U) bs (ldb_entries cdb) ([], '''', drop 0 []) m = Some (x, m1)" using l by simp
      from migrate_loop_keeps [OF assms(1) d assms(3) t b assms(4) _ _ this]
      obtain k where k: "n \<le> k" "migrated lib ?C k m1"
        "\<forall>q. x = Ok q \<longrightarrow> (\<exists>p' \<le> k. p' \<le> length b \<and> q = (us, cur, drop p' b))" by auto
      show ?thesis
      proof (cases x)
        case (Ok q)
        with k(3) obtain p' where p': "p' \<le> k" "p' \<le> length b" "q = (us, cur, drop p' b)" by blast
        have "finish_migration lib key cdb (store_migration lib U) h (us, cur, drop p' b) m1 = (r, m')"
          using assms(5) l \<open>ApproximateSize cdb = Ok count\<close> False Ok p'(3) by (simp add: Migrate_def)
        from finish_keeps [OF this f p'(2,1) k(2) d] k(1) show ?thesis by (meson order_trans)
      next
        case (Err e)
        then have "r = Err e" "m' = m1" using assms(5) l Ok False by (simp_all add: Migrate_def)
        with k show ?thesis by blast
      next
        case Panic
        then have "r = Panic" "m' = m1" using assms(5) l Ok False by (simp_all add: Migrate_def)
        with k show ?thesis by blast
      qed
    next
      case True
      then have "r = Panic" "m' = m" using assms(5) Ok by (simp_all add: Migrate_def)
      with assms(4) show ?thesis by blast
    qed
  next
    case (Err e)
    then have "r = Err (Wrap ''failed to get chainstate approximate size'' e)" "m' = m" using assms(5) by (simp_all add: Migrate_def)
    with assms(4) show ?thesis by blast
  next
    case Panic
    then have "r = Panic" "m' = m" using assms(5) by (simp_all add: Migrate_def)
    with assms(4) show ?thesis by blast
  qed
qed

end

lemma migration_complete:
  assumes "utxo_backend U D ks ck pend" and "ec_laws (btc_ec lib)"
    and "holds_coins (btc_ec lib) key (ldb_entries cdb) ts" and "keys_sorted (ldb_entries cdb)" and "chain_heights ts"
    and "holds_txs lib (us_dbVer U) (map_of (take n (chain_txs lib ts))) (ks (world s))"
    and "Migrate lib key cdb (store_migration lib U) batchSize h \<lparr>restoredLastSavedTxID = False, mig_world = s\<rparr> = Some (r, m)"
  defines "v \<equiv> us_dbVer U" and "new \<equiv> ks (world (mig_world m))"
  shows "(\<exists>k \<ge> n. holds_txs lib v (map_of (take k (chain_txs lib ts))) new) \<and>
    (r = Ok () \<longrightarrow> utxo v new = chain_utxo lib ts \<and> store_ok lib v new \<and>
      (\<exists>bh. Chainstate_GetBlockHash key cdb = Ok bh \<and> new (hash_key v) = Some (Val (VString (hex_EncodeToString bh)))) \<and>
      new (height_key v) = Some (Val (VInt64 h)))"
proof -
  let ?m = "\<lparr>restoredLastSavedTxID = False, mig_world = s\<rparr>"
  have ok: "chain_ok ts" using assms(3-5) by (rule database_chain_ok)
  have "utxo_backend.migrated U ks lib (chain_txs lib ts) n ?m"
    using assms(6) by (simp add: utxo_backend.migrated_def [OF assms(1)])
  from utxo_backend.Migrate_keeps [OF assms(1,2) ok assms(3) this assms(7)]
  obtain k where k: "n \<le> k" "holds_txs lib v (map_of (take k (chain_txs lib ts))) new"
    and r: "r = Ok () \<longrightarrow> length (chain_txs lib ts) \<le> k \<and>
      (\<exists>bh. Chainstate_GetBlockHash key cdb = Ok bh \<and> new (hash_key v) = Some (Val (VString (hex_EncodeToString bh)))) \<and>
      new (height_key v) = Some (Val (VInt64 h))"
    by (auto simp: utxo_backend.migrated_def [OF assms(1)] v_def new_def)
  have "utxo v new = chain_utxo lib ts \<and> store_ok lib v new" if "r = Ok ()"
  proof -
    have "take k (chain_txs lib ts) = chain_txs lib ts" using r that by simp
    with k(2) have "holds_txs lib v (map_of (chain_txs lib ts)) new" by simp
    note h = holds_txs_utxo [OF this]
    with r that show ?thesis by (auto simp: entries_chain [OF ok] store_ok_def block_stored_def)
  qed
  with k r show ?thesis by blast
qed

section \<open>Properties\<close>

text \<open>
  C8: the migration is complete and can be resumed. Started on a store that holds the first \<open>n\<close>
  transactions of the chainstate (none for a new store, some after an interrupted run with any batch
  size), it never loses one: whatever fails, the store holds the first \<open>k\<close> transactions for some
  \<open>k \<ge> n\<close>. When it succeeds the UTXO set of the store is that of the chainstate, the address index is
  complete, and block hash and height are stored.
\<close>

theorem migration_resumes:
  assumes "utxo_backend U D ks ck pend" and "ec_laws (btc_ec lib)"
    and "holds_coins (btc_ec lib) key (ldb_entries cdb) ts" and "keys_sorted (ldb_entries cdb)" and "chain_heights ts"
    and "holds_txs lib (us_dbVer U) (map_of (take n (chain_txs lib ts))) (ks (world s))"
    and "Migrate lib key cdb (store_migration lib U) batchSize h \<lparr>restoredLastSavedTxID = False, mig_world = s\<rparr> = Some (r, m)"
  defines "v \<equiv> us_dbVer U" and "new \<equiv> ks (world (mig_world m))"
  shows "(\<exists>k \<ge> n. holds_txs lib v (map_of (take k (chain_txs lib ts))) new) \<and>
    (r = Ok () \<longrightarrow> utxo v new = chain_utxo lib ts \<and> store_ok lib v new \<and>
      (\<exists>bh. Chainstate_GetBlockHash key cdb = Ok bh \<and> new (hash_key v) = Some (Val (VString (hex_EncodeToString bh)))) \<and>
      new (height_key v) = Some (Val (VInt64 h)))"
  unfolding v_def new_def using assms(1-7) by (rule migration_complete)

section \<open>Example\<close>

text \<open>Two coins, batches of one transaction, and a server that fails once while a batch is stored.\<close>

definition sample_chain :: chainstate_db where
  "sample_chain = \<lparr>ldb_Get = (\<lambda>k. if k = [0x42] then Ok [0x40, 0xd2] else Err LevelDBNotFound),
     ldb_entries = sample_entries, ldb_iterator_Error = None\<rparr>"

definition empty_store :: "bool list \<Rightarrow> sim store_state" where
  "empty_store faults = \<lparr>world = \<lparr>sim_keys = [], sim_queue = [], sim_file = None, sim_faults = faults\<rparr>, isConsist = True\<rparr>"

lemma sample_migration:
  "\<exists>m. Migrate sample_lib sample_key sample_chain (store_migration sample_lib (sim_store ''1'')) 1 100
     \<lparr>restoredLastSavedTxID = False, mig_world = empty_store [False, True]\<rparr> = Some (Ok (), m) \<and>
     sim_file (world (mig_world m)) = None"
proof -
  have "map_option (\<lambda>(r, m). (r, sim_file (world (mig_world m)))) (Migrate sample_lib sample_key sample_chain
      (store_migration sample_lib (sim_store ''1'')) 1 100
      \<lparr>restoredLastSavedTxID = False, mig_world = empty_store [False, True]\<rparr>) = Some (Ok (), None)"
    by code_simp
  then show ?thesis by auto
qed

lemma sample_migration_ok:
  "ec_laws (btc_ec sample_lib)"
  "holds_coins (btc_ec sample_lib) sample_key (ldb_entries sample_chain) [sample_coin 7 [0x51], sample_coin 8 [0x52]]"
  "keys_sorted (ldb_entries sample_chain)"
  "chain_heights [sample_coin 7 [0x51], sample_coin 8 [0x52]]"
  "holds_txs sample_lib (us_dbVer (sim_store ''1'')) Map.empty (sim_ks (world (empty_store [False, True])))"
proof -
  have e: "btc_ec sample_lib = sample_ec" by (simp add: sample_lib_def)
  show "ec_laws (btc_ec sample_lib)" using sample_ec_laws by (simp add: e)
  show "holds_coins (btc_ec sample_lib) sample_key (ldb_entries sample_chain) [sample_coin 7 [0x51], sample_coin 8 [0x52]]"
    "keys_sorted (ldb_entries sample_chain)" using sample_entries_ok by (simp_all add: e sample_chain_def)
  show "chain_heights [sample_coin 7 [0x51], sample_coin 8 [0x52]]" by (auto simp: chain_heights_def idx_def sample_coin_def height_of_def)
  show "holds_txs sample_lib (us_dbVer (sim_store ''1'')) Map.empty (sim_ks (world (empty_store [False, True])))"
    by (simp add: holds_txs_def empty_store_def view_def sim_space_def holds_set_def members_def)
qed

theorem migration_resumes_witness:
  "\<exists>m. Migrate sample_lib sample_key sample_chain (store_migration sample_lib (sim_store ''1'')) 1 100
      \<lparr>restoredLastSavedTxID = False, mig_world = empty_store [False, True]\<rparr> = Some (Ok (), m) \<and>
    utxo ''1'' (sim_ks (world (mig_world m))) = chain_utxo sample_lib [sample_coin 7 [0x51], sample_coin 8 [0x52]] \<and>
    store_ok sample_lib ''1'' (sim_ks (world (mig_world m)))"
proof -
  let ?ts = "[sample_coin 7 [0x51], sample_coin 8 [0x52]]"
  obtain m where m: "Migrate sample_lib sample_key sample_chain (store_migration sample_lib (sim_store ''1'')) 1 100
      \<lparr>restoredLastSavedTxID = False, mig_world = empty_store [False, True]\<rparr> = Some (Ok (), m)"
    using sample_migration by blast
  have "holds_txs sample_lib (us_dbVer (sim_store ''1'')) (map_of (take 0 (chain_txs sample_lib ?ts))) (sim_ks (world (empty_store [False, True])))"
    using sample_migration_ok(5) by simp
  from migration_resumes [OF sim_backend sample_migration_ok(1-4) this m] m show ?thesis by simp
qed

end
