(* ===== verification/Database_Versions.thy ===== *)
theory Database_Versions
  imports Chainstate_Migration
begin

text \<open>
  The versions of the database: the manager that keeps them in a set
  (\<^verbatim>\<open>migrationmanager/manager_withstore.go\<close>), and what the program does with them before it starts the
  indexer (\<^verbatim>\<open>cmd/utxo-indexer/main.go\<close>, \<^verbatim>\<open>di/di.go\<close>): migrate the chainstate into a new version when it
  is ahead of the store, then delete the old versions. Opening the LevelDB of the node and the
  request for a block header are parameters.
\<close>

section \<open>The manager\<close>

record 'w manager =
  man_c :: "'w sets_store"
  versionCounterName :: string
  migrationID :: int

definition NewManager :: "string \<Rightarrow> 'w sets_store \<Rightarrow> 'w manager" where
  "NewManager name counters =
     \<lparr>man_c = counters, versionCounterName = ''migration_versions:'' @ name, migrationID = 0\<rparr>"

definition SetMigrationID :: "int \<Rightarrow> 'w manager \<Rightarrow> 'w manager outcome" where
  "SetMigrationID ident m = (if migrationID m > 0 then Err ErrMigrationIDAlreadySet else Ok (m\<lparr>migrationID := ident\<rparr>))"

definition castVersionsFromStrings :: "string list \<Rightarrow> int list outcome" where
  "castVersionsFromStrings versions = mapO (\<lambda>v. wrapO ''failed to parse version'' (ParseInt v)) versions"

definition GetVersions :: "'w manager \<Rightarrow> ('w, int list) st" where
  "GetVersions m =
     bindS (wrapS ''failed to get versions'' (set_GetSet (man_c m) (versionCounterName m))) (\<lambda>currentVersions.
     if currentVersions = [] then retS []
     else wrapS ''failed to cast versions'' (liftO (castVersionsFromStrings currentVersions)))"

definition getOldestVersion :: "'w manager \<Rightarrow> ('w, int) st" where
  "getOldestVersion m =
     bindS (GetVersions m) (\<lambda>currentVersions.
     case currentVersions of [] \<Rightarrow> failS ErrMigrationNotInited | v # _ \<Rightarrow> retS v)"

definition GetVersion :: "'w manager \<Rightarrow> ('w, int) st" where
  "GetVersion m = bindS (getOldestVersion m) (\<lambda>oldestVersion. retS (wrap64 (oldestVersion + migrationID m)))"

definition DeleteVersion :: "'w manager \<Rightarrow> int \<Rightarrow> ('w, unit) st" where
  "DeleteVersion m ver =
     wrapS ''failed to delete versions'' (set_RemoveFromSet (man_c m) (versionCounterName m) [FormatInt ver])"

definition DefaultVersion :: int where
  "DefaultVersion = 1"

definition Initialize :: "'w manager \<Rightarrow> ('w, unit) st" where
  "Initialize m =
     bindS (GetVersions m) (\<lambda>versions.
     if length versions > 0 then retS ()
     else wrapS ''failed to increment version'' (set_AddToSet (man_c m) (versionCounterName m) [FormatInt DefaultVersion]))"

definition UpdateVersion :: "'w manager \<Rightarrow> ('w, int) st" where
  "UpdateVersion m =
     (if migrationID m \<le> 0 then failS ErrMigrationIDNotSet
      else bindS (getOldestVersion m) (\<lambda>v.
        let newVal = wrap64 (v + migrationID m) in
        thenS (wrapS ''failed to increment version'' (set_AddToSet (man_c m) (versionCounterName m) [FormatInt newVal]))
          (retS newVal)))"

section \<open>Stores of a version\<close>

text \<open>The manager of the program, and \<open>GetUTXOStoreConstructor\<close>: the store of the version it gives.\<close>

definition NewUTXOStoreMigrationManager :: "'w sets_store \<Rightarrow> ('w, 'w manager) st" where
  "NewUTXOStoreMigrationManager redisSets =
     (let manager = NewManager ''utxo_store'' redisSets in
      thenS (maskS (Msg ''failed to initialize migration amanger'') (Initialize manager)) (retS manager))"

definition New_store :: "('w, 'tx) utxo_store \<Rightarrow> ('w, bool) st" where
  "New_store U = (\<lambda>w. case New U w of
       (Ok _, s) \<Rightarrow> (Ok (isConsist s), world s) | (Err e, s) \<Rightarrow> (Err e, world s) | (Panic, s) \<Rightarrow> (Panic, world s))"

definition open_store :: "'w manager \<Rightarrow> (string \<Rightarrow> ('w, 'tx) utxo_store) \<Rightarrow> ('w, ('w, 'tx) utxo_store \<times> bool) st" where
  "open_store m stores =
     bindS (wrapS ''failed to get database version'' (GetVersion m)) (\<lambda>databaseVersion.
     let U = stores (FormatInt databaseVersion) in
     bindS (wrapS ''failed to create UTXO store'' (New_store U)) (\<lambda>c. retS (U, c)))"

section \<open>Deleting old versions\<close>

text \<open>One round of the loop; true when it breaks.\<close>

definition delete_round :: "'w manager \<Rightarrow> (string \<Rightarrow> ('w, 'tx) utxo_store) \<Rightarrow> ('w, bool) st" where
  "delete_round migrationManager stores =
     bindS (wrapS ''failed to get versions'' (GetVersions migrationManager)) (\<lambda>currentVersions.
     if length currentVersions \<le> 1 then retS True
     else
       bindS (wrapS ''failed to invoke UTXO store'' (open_store migrationManager stores)) (\<lambda>(utxoStore, _).
       thenS (wrapS ''failed to flush UTXO store'' (Flush (base utxoStore)))
       (thenS (wrapS ''failed to delete version'' (DeleteVersion migrationManager (hd currentVersions))) (retS False))))"

partial_function (option) delete_loop :: "('w, bool) st \<Rightarrow> 'w \<Rightarrow> (unit outcome \<times> 'w) option" where
  "delete_loop round w =
     (case round w of
        (Ok stop, w') \<Rightarrow> if stop then Some (Ok (), w') else delete_loop round w'
      | (Err e, w') \<Rightarrow> Some (Err e, w')
      | (Panic, w') \<Rightarrow> Some (Panic, w'))"

declare delete_loop.simps [code]

definition deleteOldVersionsData :: "'w sets_store \<Rightarrow> (string \<Rightarrow> ('w, 'tx) utxo_store) \<Rightarrow> 'w \<Rightarrow> (unit outcome \<times> 'w) option" where
  "deleteOldVersionsData redisSets stores w =
     (case wrapS ''failed to invoke migration manager'' (NewUTXOStoreMigrationManager redisSets) w of
        (Ok migrationManager, w') \<Rightarrow> delete_loop (delete_round migrationManager stores) w'
      | (Err e, w') \<Rightarrow> Some (Err e, w')
      | (Panic, w') \<Rightarrow> Some (Panic, w'))"

section \<open>Migrating into a new version\<close>

text \<open>
  What is done before the migration: \<open>None\<close> when the store is not behind the chainstate, otherwise the
  manager, the store of the new version with its flag, and the height.
\<close>

definition prepare_migration :: "'w sets_store \<Rightarrow> (string \<Rightarrow> ('w, 'tx) utxo_store) \<Rightarrow> bytes option \<Rightarrow> chainstate_db \<Rightarrow>
    (bytes \<Rightarrow> ('w, int) st) \<Rightarrow> ('w, ('w manager \<times> ('w, 'tx) utxo_store \<times> bool \<times> int) option) st" where
  "prepare_migration redisSets stores key cdb header_height =
     bindS (wrapS ''failed to invoke UTXO store''
       (wrapS ''failed to invoke migration manager'' (NewUTXOStoreMigrationManager redisSets))) (\<lambda>manager.
     bindS (wrapS ''failed to invoke UTXO store'' (open_store manager stores)) (\<lambda>(oldUtxoStore, consist).
     bindS (wrapS ''failed to set migration id'' (liftO (SetMigrationID 1 manager))) (\<lambda>manager.
     bindS (wrapS ''failed to get chainstate block hash'' (liftO (Chainstate_GetBlockHash key cdb))) (\<lambda>chainstateBlockHash.
     bindS (wrapS ''failed to get block info'' (header_height chainstateBlockHash)) (\<lambda>height.
     bindS (wrapS ''failed to get current utxo store block height''
       (\<lambda>w. case GetBlockHeight oldUtxoStore \<lparr>world = w, isConsist = consist\<rparr> of (r, s) \<Rightarrow> (r, world s)))
       (\<lambda>currentHeightFromUTXOStore.
     if height \<le> currentHeightFromUTXOStore then retS None
     else
       bindS (wrapS ''failed to invoke UTXO store'' (open_store manager stores)) (\<lambda>(utxoStore, consist).
       retS (Some (manager, utxoStore, consist, height)))))))))"

definition runChainstateMigration :: "('key, 'addr) btc_lib \<Rightarrow> 'w sets_store \<Rightarrow> (string \<Rightarrow> ('w, 'tx) utxo_store) \<Rightarrow> bytes option \<Rightarrow>
    chainstate_db \<Rightarrow> (bytes \<Rightarrow> ('w, int) st) \<Rightarrow> int \<Rightarrow> 'w \<Rightarrow> (unit outcome \<times> 'w) option" where
  "runChainstateMigration lib redisSets stores key cdb header_height batchSize w =
     (case prepare_migration redisSets stores key cdb header_height w of
        (Ok None, w') \<Rightarrow> Some (Ok (), w')
      | (Ok (Some (migrationManager, utxoStore, consist, height)), w') \<Rightarrow>
          (case Migrate lib key cdb (store_migration lib utxoStore) batchSize height
                  \<lparr>restoredLastSavedTxID = False, mig_world = \<lparr>world = w', isConsist = consist\<rparr>\<rparr> of
             None \<Rightarrow> None
           | Some (r, m) \<Rightarrow>
               Some (thenS (wrapS ''migrate error'' (liftO r))
                 (bindS (wrapS ''update database version error'' (UpdateVersion migrationManager)) (\<lambda>_. retS ()))
                 (world (mig_world m))))
      | (Err e, w') \<Rightarrow> Some (Err e, w')
      | (Panic, w') \<Rightarrow> Some (Panic, w'))"

definition migrateFromChainstate :: "('key, 'addr) btc_lib \<Rightarrow> 'w sets_store \<Rightarrow> (string \<Rightarrow> ('w, 'tx) utxo_store) \<Rightarrow> bytes option \<Rightarrow>
    chainstate_db \<Rightarrow> (bytes \<Rightarrow> ('w, int) st) \<Rightarrow> int \<Rightarrow> 'w \<Rightarrow> (unit outcome \<times> 'w) option" where
  "migrateFromChainstate lib redisSets stores key cdb header_height batchSize w =
     (case runChainstateMigration lib redisSets stores key cdb header_height batchSize w of
        None \<Rightarrow> None
      | Some (Ok _, w') \<Rightarrow>
          map_option (\<lambda>(r, w''). (wrapO ''failed to delete old versions data'' r, w'')) (deleteOldVersionsData redisSets stores w')
      | Some (Err e, w') \<Rightarrow> Some (Err (Wrap ''failed to run migration'' e), w')
      | Some (Panic, w') \<Rightarrow> Some (Panic, w'))"

end
