(* ===== verification/Version_Cleanup.thy ===== *)
theory Version_Cleanup
  imports Database_Versions Spending_Properties
begin

text \<open>
  Properties of the versions of the database: the cleanup of old versions always ends and leaves one
  version, and when the versions are answered in ascending order it is the newest one, with its data.
  The laws of a deletion by pattern are proved for the Redis provider from what \<open>SCAN\<close> promises.
\<close>

section \<open>Deletion by pattern\<close>

text \<open>
  What the store relies on: every key with the prefix is gone after a successful deletion, one that fails
  may have deleted some of them, and no other key is touched. Glob characters in the prefix are excluded.
\<close>

definition glob_free :: "string \<Rightarrow> bool" where
  "glob_free p \<longleftrightarrow> set p \<inter> set ''*?[]'' = {} \<and> CHR 0x5c \<notin> set p"

locale pattern_laws = kv_laws S ks ck
  for S :: "'w kv_store" and ks :: "'w \<Rightarrow> kstate" and ck :: "'w \<Rightarrow> 'r" +
  assumes DeleteByPattern_frame: "glob_free p \<Longrightarrow> kv_DeleteByPattern S (p @ ''*'') w = (r, w') \<Longrightarrow>
      ck w' = ck w \<and> r \<noteq> Panic \<and> (\<forall>k. ks w' k = ks w k \<or> HasPrefix k p \<and> ks w' k = None)"
    and DeleteByPattern_Ok: "glob_free p \<Longrightarrow> kv_DeleteByPattern S (p @ ''*'') w = (Ok (), w') \<Longrightarrow>
      HasPrefix k p \<Longrightarrow> ks w' k = None"

text \<open>
  \<open>SCAN\<close> returns every key that is there from the start to the end of the iteration and matches; a key
  may come several times. \<open>SMEMBERS\<close> lists every member once.
\<close>

locale redis_scan = redis_client cdc cl rk ck
  for cdc :: "'raw codec" and cl :: "('w, 'raw) cmdable" and rk :: "'w \<Rightarrow> 'raw kspace" and ck :: "'w \<Rightarrow> 'r" +
  assumes SCAN_frame: "r_Scan cl match w = (r, w') \<Longrightarrow> rk w' = rk w \<and> ck w' = ck w \<and> r \<noteq> Panic"
    and SCAN_only: "glob_free p \<Longrightarrow> r_Scan cl (p @ ''*'') w = (Ok (keys, err), w') \<Longrightarrow> k \<in> set keys \<Longrightarrow> HasPrefix k p"
    and SCAN_all: "glob_free p \<Longrightarrow> r_Scan cl (p @ ''*'') w = (Ok (keys, None), w') \<Longrightarrow> HasPrefix k p \<Longrightarrow> rk w k \<noteq> None \<Longrightarrow> k \<in> set keys"
    and SMEMBERS_distinct: "r_SMembers cl k w = (Ok xs, w') \<Longrightarrow> distinct xs"
begin

lemma delete_keys:
  assumes "listkeys_loop (\<lambda>key. thenS (RedisStore_Delete cl key) (retS False)) keys w = (r, w')"
  shows "ck w' = ck w \<and> r \<noteq> Panic \<and> (\<forall>k. rk w' k = rk w k \<or> k \<in> set keys \<and> rk w' k = None) \<and>
    (r = Ok () \<longrightarrow> (\<forall>k \<in> set keys. rk w' k = None))"
  using assms
proof (induction keys arbitrary: w)
  case Nil
  then show ?case by (auto simp: retS_apply)
next
  case (Cons key keys)
  obtain q v where q: "RedisStore_Delete cl key w = (q, v)" by fastforce
  have d: "ck v = ck w \<and> q \<noteq> Panic \<and> (q = Ok () \<longrightarrow> rk v = (rk w)(key := None)) \<and>
      (rk v = rk w \<or> rk v = (rk w)(key := None))"
  proof -
    obtain x where x: "r_Del cl key w = (x, v)" "q = wrapO ''delete error'' x"
      using q by (auto simp: RedisStore_Delete_def wrapS_def split: prod.splits)
    with DEL [of key] show ?thesis unfolding rapplies_def by (cases x) fastforce+
  qed
  show ?case
  proof (cases q)
    case (Ok u)
    then have "listkeys_loop (\<lambda>key. thenS (RedisStore_Delete cl key) (retS False)) keys v = (r, w')"
      using Cons.prems q by (simp add: bindS_def thenS_def retS_def)
    note ih = Cons.IH [OF this]
    have v: "rk v k = (if k = key then None else rk w k)" for k using d Ok by simp
    have i: "rk w' k = rk v k \<or> k \<in> set keys \<and> rk w' k = None" for k using ih by blast
    have "rk w' k = rk w k \<or> k \<in> set (key # keys) \<and> rk w' k = None" for k using i [of k] v [of k] by (auto split: if_splits)
    moreover have "r = Ok () \<longrightarrow> (\<forall>k \<in> set (key # keys). rk w' k = None)" using ih v by (metis set_ConsD)
    ultimately show ?thesis using ih d by simp
  next
    case (Err e)
    then have "r = Err e" "w' = v" using Cons.prems q by (auto simp: bindS_def thenS_def)
    with d Err show ?thesis by (auto split: if_splits)
  qed (use d in simp)
qed

end

sublocale redis_scan \<subseteq> pattern: pattern_laws "RedisStore cl cdc" "\<lambda>w. view cdc (rk w)" ck
proof (unfold_locales, goal_cases)
  case (1 p w r w')
  then have "p @ ''*'' \<noteq> ''''" by simp
  with 1 obtain q v where q: "r_Scan cl (p @ ''*'') w = (q, v)" and
    r: "case q of Ok (keys, e) \<Rightarrow> thenS (listkeys_loop (\<lambda>key. thenS (RedisStore_Delete cl key) (retS False)) keys)
          (case e of None \<Rightarrow> retS () | Some err \<Rightarrow> failS (Wrap ''iterate error'' err)) v = (r, w')
        | Err e \<Rightarrow> r = Err e \<and> w' = v | Panic \<Rightarrow> r = Panic \<and> w' = v"
    by (auto simp: RedisStore_def RedisStore_DeleteByPattern_def RedisStore_ListKeys_def elim!: bindS_cases)
  note f = SCAN_frame [OF q]
  show ?case
  proof (cases q)
    case (Ok ke)
    then obtain keys e where ke: "q = Ok (keys, e)" by (cases ke) auto
    with r obtain x v' where x: "listkeys_loop (\<lambda>key. thenS (RedisStore_Delete cl key) (retS False)) keys v = (x, v')"
      and r': "w' = v'" "r \<noteq> Panic \<or> x = Panic"
      by (cases e) (auto elim!: thenS_cases simp: retS_apply failS_apply)
    have "k \<notin> set keys" if "\<not> HasPrefix k p" for k using SCAN_only 1(1) q ke that by blast
    then have "view cdc (rk v') k = view cdc (rk w) k \<or> HasPrefix k p \<and> view cdc (rk v') k = None" for k
      using delete_keys [OF x] f by (cases "rk v' k = rk w k") (auto simp: view_def)
    then show ?thesis using delete_keys [OF x] r' f by auto
  qed (use r f in auto)
next
  case (2 p w w' k)
  then have "p @ ''*'' \<noteq> ''''" by simp
  with 2 obtain keys e v where q: "r_Scan cl (p @ ''*'') w = (Ok (keys, e), v)" and
    r: "thenS (listkeys_loop (\<lambda>key. thenS (RedisStore_Delete cl key) (retS False)) keys)
          (case e of None \<Rightarrow> retS () | Some err \<Rightarrow> failS (Wrap ''iterate error'' err)) v = (Ok (), w')"
    by (auto simp: RedisStore_def RedisStore_DeleteByPattern_def RedisStore_ListKeys_def elim!: bindS_cases)
  from r have e: "e = None" and l: "listkeys_loop (\<lambda>key. thenS (RedisStore_Delete cl key) (retS False)) keys v = (Ok (), w')"
    by (cases e; auto elim!: thenS_cases simp: retS_apply failS_apply)+
  have f: "rk v = rk w" using SCAN_frame [OF q] by simp
  show ?case
  proof (cases "k \<in> set keys")
    case True
    with delete_keys [OF l] show ?thesis by (simp add: view_def)
  next
    case False
    then have "rk w k = None" using SCAN_all [OF 2(1) q [unfolded e] 2(3)] by blast
    moreover have "rk w' k = rk v k" using delete_keys [OF l] False by blast
    ultimately show ?thesis using f by (simp add: view_def)
  qed
qed

lemma mem_fst: "(a, b) \<in> A \<Longrightarrow> a \<in> fst ` A"
  by force

lemma sim_space_mem: "sim_space m k = Some x \<Longrightarrow> k \<in> fst ` set m"
  by (auto simp: sim_space_def dest!: map_of_SomeD intro: rev_image_eqI)

interpretation sim_scan: redis_scan sim_codec sim_client "\<lambda>w. sim_space (sim_keys w)" "\<lambda>w. file_view sim_mp (sim_file w)"
  by unfold_locales (auto simp: sim_client_def elim!: sim_op_cases dest!: sim_space_mem split: option.splits sum.splits
      intro: mem_fst)

section \<open>The set of versions\<close>

definition version_key :: string where
  "version_key = ''migration_versions:utxo_store''"

locale versions = sets_laws C ks ck
  for C :: "'w sets_store" and ks :: "'w \<Rightarrow> kstate" and ck :: "'w \<Rightarrow> ckpt_file" +
  fixes stores :: "string \<Rightarrow> ('w, 'tx) utxo_store" and D :: "('w, 'tx) tx_driver"
    and pend :: "'w \<Rightarrow> 'tx \<Rightarrow> kcmd list"
  assumes backend: "utxo_backend (stores v) D ks ck pend"
    and pattern: "pattern_laws (kv_base (us_s (stores v))) ks ck"
    and dbVer: "us_dbVer (stores v) = v"
    and GetSet_distinct: "set_GetSet C k w = (Ok xs, w') \<Longrightarrow> distinct xs"

interpretation sim_versions: versions "RedisSets sim_client" "\<lambda>w. view sim_codec (sim_space (sim_keys w))"
  "\<lambda>w. file_view sim_mp (sim_file w)" sim_store sim_driver "\<lambda>w tx. List.map (view_cmd sim_codec) (sim_queue w)"
proof (intro versions.intro versions_axioms.intro, goal_cases)
  case 1
  show ?case by (rule sim.sets.sets_laws_axioms)
next
  case (2 v)
  show ?case by (rule sim_backend)
next
  case (3 v)
  show ?case using sim_scan.pattern.pattern_laws_axioms by (simp add: sim_store_def redis_utxo_store_def)
next
  case (4 v)
  show ?case by simp
next
  case (5 k w xs w')
  then show ?case using sim_scan.SMEMBERS_distinct
    by (fastforce simp: RedisSets_def RedisSets_GetSet_def wrapS_Ok_iff)
qed

lemma FormatInt_inj: "int64_range m \<Longrightarrow> int64_range n \<Longrightarrow> FormatInt m = FormatInt n \<longleftrightarrow> m = n"
  by (metis ParseInt_FormatInt outcome.inject(1))

lemma cast_formatted:
  assumes "set xs \<subseteq> FormatInt ` N" and "\<forall>n \<in> N. int64_range n"
  shows "\<exists>vs. castVersionsFromStrings xs = Ok vs \<and> xs = List.map FormatInt vs \<and> set vs \<subseteq> N"
  using assms(1)
proof (induction xs)
  case (Cons x xs)
  then obtain n where n: "n \<in> N" "x = FormatInt n" by auto
  obtain vs where "castVersionsFromStrings xs = Ok vs" "xs = List.map FormatInt vs" "set vs \<subseteq> N"
    using Cons by auto
  with n assms(2) show ?case
    by (intro exI [of _ "n # vs"]) (simp add: castVersionsFromStrings_def ParseInt_FormatInt)
qed (simp add: castVersionsFromStrings_def)

definition vprefix :: "int \<Rightarrow> string" where
  "vprefix n = FormatInt n @ '':''"

lemma FormatInt_chars: "c \<in> set (FormatInt n) \<Longrightarrow> from_digit c \<noteq> None \<or> c = CHR ''-''"
  by (auto simp: FormatInt_def dest: nat_digits_chars split: if_splits)

lemma vprefix_glob_free: "glob_free (vprefix n)"
proof -
  have "c \<notin> set ''*?[]'' \<and> c \<noteq> CHR 0x5c" if "c \<in> set (vprefix n)" for c
    using that FormatInt_chars [of c n] by (auto simp: vprefix_def from_digit_def split: if_splits)
  then show ?thesis by (auto simp: glob_free_def)
qed

lemma vprefix_inj:
  assumes "int64_range m" and "int64_range n" and "HasPrefix k (vprefix m)" and "HasPrefix k (vprefix n)"
  shows "m = n"
proof -
  obtain a where "k = FormatInt m @ CHR '':'' # a" using assms(3) by (auto simp: HasPrefix_iff vprefix_def)
  moreover obtain b where "k = FormatInt n @ CHR '':'' # b" using assms(4) by (auto simp: HasPrefix_iff vprefix_def)
  ultimately have "FormatInt m @ CHR '':'' # a = FormatInt n @ CHR '':'' # b" by simp
  with append_sep_inject [OF FormatInt_no_colon FormatInt_no_colon] FormatInt_inj [OF assms(1,2)] show ?thesis by blast
qed

lemma version_key_prefix: "\<not> HasPrefix version_key (vprefix n)"
proof
  assume "HasPrefix version_key (vprefix n)"
  then obtain r where "version_key = FormatInt n @ '':'' @ r" by (auto simp: HasPrefix_iff vprefix_def)
  moreover have "FormatInt n \<noteq> []" by (simp add: FormatInt_def)
  ultimately have "CHR ''m'' \<in> set (FormatInt n)" unfolding version_key_def
    by (cases "FormatInt n") auto
  then show False using FormatInt_chars by (fastforce simp: from_digit_def)
qed

text \<open>The versions of a world, as numbers.\<close>

definition version_set :: "int set \<Rightarrow> kstate \<Rightarrow> bool" where
  "version_set N m \<longleftrightarrow> holds_set m version_key \<and> members m version_key = FormatInt ` N \<and> finite N \<and> (\<forall>n \<in> N. int64_range n)"

definition ascending :: "'w sets_store \<Rightarrow> bool" where
  "ascending C \<longleftrightarrow> (\<forall>w xs w' vs. set_GetSet C version_key w = (Ok xs, w') \<longrightarrow> castVersionsFromStrings xs = Ok vs \<longrightarrow> sorted vs)"

lemma version_set_rem:
  assumes "version_set N m" and "n \<in> N"
  shows "version_set (N - {n}) (exec (KRem version_key [FormatInt n]) m)"
proof -
  have "FormatInt ` N - {FormatInt n} = FormatInt ` (N - {n})"
    using assms FormatInt_inj by (auto simp: version_set_def)
  with assms show ?thesis by (auto simp: version_set_def)
qed

lemma version_set_add:
  assumes "version_set N m" and "int64_range n"
  shows "version_set (insert n N) (exec (KAdd version_key [FormatInt n]) m)"
  using assms by (auto simp: version_set_def)

text \<open>
  What the cleanup leaves: versions among those there were, the other data untouched, and, when the
  versions come in ascending order, the newest version with its data, and no data of the deleted ones.
\<close>

definition cleaned :: "bool \<Rightarrow> int set \<Rightarrow> int set \<Rightarrow> kstate \<Rightarrow> kstate \<Rightarrow> bool" where
  "cleaned asc N M m m' \<longleftrightarrow> M \<subseteq> N \<and> version_set M m' \<and>
     (\<forall>k. k \<noteq> version_key \<longrightarrow> m' k = m k \<or> m' k = None) \<and>
     (\<forall>n k. int64_range n \<and> (n \<notin> N \<or> asc \<and> n = Max N) \<and> HasPrefix k (vprefix n) \<longrightarrow> m' k = m k) \<and>
     (asc \<longrightarrow> (N \<noteq> {} \<longrightarrow> Max N \<in> M) \<and> (\<forall>n \<in> N - M. \<forall>k. HasPrefix k (vprefix n) \<longrightarrow> m' k = None))"

lemma cleaned_refl: "version_set N m \<Longrightarrow> cleaned asc N N m m"
  by (auto simp: cleaned_def version_set_def)

lemma cleaned_trans:
  assumes a: "cleaned asc N M m m'" and b: "cleaned asc M L m' m''" and N: "finite N" "\<forall>n \<in> N. int64_range n"
  shows "cleaned asc N L m m''"
proof -
  have max: "Max M = Max N" if "asc" "N \<noteq> {}"
  proof (rule Max_eqI)
    show "finite M" using a N(1) by (auto simp: cleaned_def dest: finite_subset)
    show "Max N \<in> M" using a that by (simp add: cleaned_def)
    show "y \<le> Max N" if "y \<in> M" for y using that a N(1) by (auto simp: cleaned_def)
  qed
  have "L \<subseteq> N" "version_set L m''" using a b by (auto simp: cleaned_def)
  moreover have "\<forall>k. k \<noteq> version_key \<longrightarrow> m'' k = m k \<or> m'' k = None" using a b unfolding cleaned_def by metis
  moreover have "m'' k = m k" if k: "int64_range n" "n \<notin> N \<or> asc \<and> n = Max N" "HasPrefix k (vprefix n)" for n k
  proof -
    have "n \<notin> M \<or> asc \<and> n = Max M"
    proof (cases "N = {}")
      case False
      with k(2) a max show ?thesis by (auto simp: cleaned_def)
    qed (use a in \<open>auto simp: cleaned_def\<close>)
    with b k have "m'' k = m' k" unfolding cleaned_def by blast
    also have "\<dots> = m k" using a k unfolding cleaned_def by blast
    finally show ?thesis .
  qed
  moreover have "Max N \<in> L" if "asc" "N \<noteq> {}"
  proof -
    have "M \<noteq> {}" using a that by (auto simp: cleaned_def)
    with b that max show ?thesis by (simp add: cleaned_def)
  qed
  moreover have "m'' k = None" if k: "asc" "n \<in> N - L" "HasPrefix k (vprefix n)" for n k
  proof (cases "n \<in> M")
    case True
    with b k show ?thesis unfolding cleaned_def by blast
  next
    case False
    with b k N(2) have "m'' k = m' k" unfolding cleaned_def by blast
    with a k False show ?thesis unfolding cleaned_def by auto
  qed
  ultimately show ?thesis unfolding cleaned_def by blast
qed

lemma cleaned_flush:
  assumes N: "version_set N m" and v: "v \<in> N" "asc \<longrightarrow> v \<noteq> Max N"
    and k: "\<forall>k. m' k = m k \<or> HasPrefix k (vprefix v) \<and> m' k = None"
  shows "cleaned asc N N m m'"
proof -
  have "m' version_key = m version_key" using k version_key_prefix by blast
  then have "version_set N m'" using N by (simp add: version_set_def holds_set_def members_def)
  moreover have "m' x = m x" if "int64_range n" "n \<noteq> v" "HasPrefix x (vprefix n)" for n x
    using k vprefix_inj [of n v x] that v(1) N by (auto simp: version_set_def)
  ultimately show ?thesis using v k unfolding cleaned_def by (auto simp: version_set_def)
qed

lemma cleaned_remove:
  assumes N: "version_set N m" and v: "n \<in> N" "asc \<longrightarrow> n \<noteq> Max N"
    and gone: "asc \<longrightarrow> (\<forall>k. HasPrefix k (vprefix n) \<longrightarrow> m k = None)"
  shows "cleaned asc N (N - {n}) m (exec (KRem version_key [FormatInt n]) m)"
  using version_set_rem [OF N v(1)] v gone N version_key_prefix
  by (auto simp: cleaned_def version_set_def)

text \<open>A start without a checkpoint file keeps the data, whatever its result.\<close>

context utxo_backend
begin

lemma New_frame_no_file:
  assumes "ck w = NoFile" and "New U w = (r, s')"
  shows "ks (world s') = ks w \<and> ck (world s') = NoFile \<and> r \<noteq> Panic"
proof -
  obtain q where q: "checkConsistencyAndTryToFix U \<lparr>world = w, isConsist = False\<rparr> = (q, s')"
    and r: "r = wrapO ''failed to check consistency'' q"
    using assms(2) by (auto simp: New_def wrapS_def split: prod.splits)
  have "ks (world s') = ks w \<and> ck (world s') = NoFile \<and> q \<noteq> Panic"
    using q unfolding checkConsistencyAndTryToFix_def store_state.simps if_False
  proof (cases rule: bindS_cases)
    case (Ok latest s1)
    then obtain w1 where l: "cs_LastCheckpoint (us_checkpointsStore U) w = (Ok latest, w1)"
      and s1: "s1 = \<lparr>world = w1, isConsist = False\<rparr>" by (auto simp: on_world_iff wrapS_Ok_iff)
    have "latest = None" using Last_Some l assms(1) by (cases latest) fastforce+
    with Ok(2) s1 Last_frame [OF l] assms(1) show ?thesis by (auto simp: set_consist_def)
  qed (use Last_frame assms(1) in \<open>fastforce elim!: on_world_wrap\<close>)+
  with r show ?thesis by (cases q) auto
qed

end

context versions
begin

definition man :: "int \<Rightarrow> 'w manager" where
  "man i = \<lparr>man_c = C, versionCounterName = version_key, migrationID = i\<rparr>"

lemma GetVersions_spec:
  assumes "GetVersions (man i) w = (r, w')" and "version_set N (ks w)"
  shows "ks w' = ks w \<and> ck w' = ck w \<and> r \<noteq> Panic \<and>
    (\<forall>vs. r = Ok vs \<longrightarrow> set vs = N \<and> distinct vs \<and> (ascending C \<longrightarrow> sorted vs))"
proof -
  have c: "man_c (man i) = C" "versionCounterName (man i) = version_key" by (simp_all add: man_def)
  from assms(1) show ?thesis unfolding GetVersions_def c
  proof (cases rule: bindS_cases)
    case (Ok xs w1)
    then have g: "set_GetSet C version_key w = (Ok xs, w1)" by (simp add: wrapS_Ok_iff)
    have s: "set xs = FormatInt ` N" using GetSet_members [OF g] assms(2) by (simp add: version_set_def)
    then obtain vs where vs: "castVersionsFromStrings xs = Ok vs" "xs = List.map FormatInt vs" "set vs \<subseteq> N"
      using cast_formatted [of xs N] assms(2) by (auto simp: version_set_def)
    have "N \<subseteq> set vs"
    proof
      fix n assume n: "n \<in> N"
      then have "FormatInt n \<in> FormatInt ` set vs" using s vs(2) by auto
      then obtain m where "m \<in> set vs" "FormatInt n = FormatInt m" by auto
      moreover have "int64_range n" "int64_range m" using n vs(3) assms(2) calculation(1) by (auto simp: version_set_def)
      ultimately show "n \<in> set vs" using FormatInt_inj by auto
    qed
    moreover have "distinct vs" using GetSet_distinct [OF g] vs(2) by (simp add: distinct_map)
    moreover have "ascending C \<longrightarrow> sorted vs" using g vs(1) unfolding ascending_def by blast
    moreover have "r = Ok vs" "w' = w1" using Ok(2) vs(1,2) by (auto simp: retS_apply wrapS_def liftO_def split: if_splits)
    ultimately show ?thesis using vs(3) GetSet_frame [OF g] by auto
  qed (auto elim!: wrapS_cases dest: GetSet_frame)
qed

lemma getOldestVersion_spec:
  assumes "getOldestVersion (man i) w = (r, w')" and "version_set N (ks w)"
  shows "ks w' = ks w \<and> ck w' = ck w \<and> r \<noteq> Panic \<and> (\<forall>v. r = Ok v \<longrightarrow> v \<in> N \<and> (ascending C \<longrightarrow> v = Min N))"
  using assms(1) unfolding getOldestVersion_def
proof (cases rule: bindS_cases)
  case (Ok vs w2)
  note g = GetVersions_spec [OF Ok(1) assms(2)]
  show ?thesis
  proof (cases vs)
    case (Cons v us)
    then have "r = Ok v" "w' = w2" using Ok(2) by (simp_all add: retS_apply)
    moreover have "ascending C \<longrightarrow> v = Min N"
    proof
      assume "ascending C"
      then have s: "sorted vs" "set vs = N" using g by auto
      then have "Min N = Min (set (v # us))" by (simp add: Cons)
      also have "\<dots> = v" using s(1) Cons by (intro Min_eqI) auto
      finally show "v = Min N" by simp
    qed
    ultimately show ?thesis using g Cons by auto
  qed (use Ok g in \<open>auto simp: failS_apply\<close>)
qed (auto dest: GetVersions_spec [OF _ assms(2)])

lemma GetVersion_spec:
  assumes "GetVersion (man i) w = (r, w')" and "version_set N (ks w)"
  shows "ks w' = ks w \<and> ck w' = ck w \<and> r \<noteq> Panic \<and>
    (\<forall>x. r = Ok x \<longrightarrow> (\<exists>v \<in> N. x = wrap64 (v + i) \<and> (ascending C \<longrightarrow> v = Min N)))"
proof -
  obtain q w1 where q: "getOldestVersion (man i) w = (q, w1)" by fastforce
  note o = getOldestVersion_spec [OF q assms(2)]
  show ?thesis
  proof (cases q)
    case (Ok v)
    then have "r = Ok (wrap64 (v + i))" "w' = w1" using assms(1) q by (auto simp: GetVersion_def bindS_def retS_def man_def)
    then show ?thesis using o Ok by auto
  qed (use assms(1) q o in \<open>auto simp: GetVersion_def bindS_def\<close>)
qed

lemma store_New_frame:
  assumes "New_store (stores v) w = (r, w')" and "ck w = NoFile"
  shows "ks w' = ks w \<and> ck w' = NoFile \<and> r \<noteq> Panic"
proof -
  obtain q s where q: "New (stores v) w = (q, s)" by fastforce
  from utxo_backend.New_frame_no_file [OF backend assms(2) q] assms(1) q
  show ?thesis by (cases q) (auto simp: New_store_def)
qed

lemma open_store_next:
  assumes "open_store (man i) stores w = (r, w')" and "version_set N (ks w)" and "ck w = NoFile"
  shows "ks w' = ks w \<and> ck w' = NoFile \<and> r \<noteq> Panic \<and>
    (\<forall>U c. r = Ok (U, c) \<longrightarrow> (\<exists>v \<in> N. U = stores (FormatInt (wrap64 (v + i))) \<and> (ascending C \<longrightarrow> v = Min N)))"
  using assms(1) unfolding open_store_def
proof (cases rule: bindS_cases)
  case (Ok v w1)
  then have v: "GetVersion (man i) w = (Ok v, w1)" by (simp add: wrapS_Ok_iff)
  note g = GetVersion_spec [OF v assms(2)]
  from Ok(2) show ?thesis unfolding Let_def
  proof (cases rule: bindS_cases)
    case (Ok c w2)
    then have n: "New_store (stores (FormatInt v)) w1 = (Ok c, w2)" by (simp add: wrapS_Ok_iff)
    have "r = Ok (stores (FormatInt v), c)" "w' = w2" using Ok(2) by (simp_all add: retS_apply)
    with store_New_frame [OF n] g assms(3) show ?thesis by auto
  qed (use g assms(3) in \<open>auto elim!: wrapS_cases dest!: store_New_frame\<close>)
qed (use assms in \<open>auto elim!: wrapS_cases dest!: GetVersion_spec\<close>)

lemma open_store_spec:
  assumes "open_store (man 0) stores w = (r, w')" and "version_set N (ks w)" and "ck w = NoFile"
  shows "ks w' = ks w \<and> ck w' = NoFile \<and> r \<noteq> Panic \<and>
    (\<forall>U c. r = Ok (U, c) \<longrightarrow> (\<exists>v \<in> N. U = stores (FormatInt v) \<and> (ascending C \<longrightarrow> v = Min N)))"
  using open_store_next [OF assms] assms(2) by (auto simp: version_set_def)

lemma Flush_spec:
  assumes "Flush (base (stores (FormatInt v))) w = (r, w')"
  shows "ck w' = ck w \<and> r \<noteq> Panic \<and> (\<forall>k. ks w' k = ks w k \<or> HasPrefix k (vprefix v) \<and> ks w' k = None) \<and>
    (r = Ok () \<longrightarrow> (\<forall>k. HasPrefix k (vprefix v) \<longrightarrow> ks w' k = None))"
proof -
  obtain q where q: "kv_DeleteByPattern (kv_base (us_s (stores (FormatInt v)))) (vprefix v @ ''*'') w = (q, w')"
    and r: "r = wrapO ''flush error'' q"
    using assms by (auto simp: Flush_def base_def dbVer vprefix_def wrapS_def split: prod.splits)
  from r pattern_laws.DeleteByPattern_frame [OF pattern vprefix_glob_free q]
    pattern_laws.DeleteByPattern_Ok [OF pattern vprefix_glob_free] q
  show ?thesis by (cases q) auto
qed

lemma DeleteVersion_spec:
  assumes "DeleteVersion (man 0) n w = (r, w')"
  shows "ck w' = ck w \<and> r \<noteq> Panic \<and> (ks w' = ks w \<or> ks w' = exec (KRem version_key [FormatInt n]) (ks w)) \<and>
    (r = Ok () \<longrightarrow> ks w' = exec (KRem version_key [FormatInt n]) (ks w))"
proof -
  have "applies ks ck (DeleteVersion (man 0) n) (KRem version_key [FormatInt n])"
    unfolding DeleteVersion_def man_def manager.simps by (intro applies_wrap RemoveFromSet)
  from appliesD [OF this assms] show ?thesis by blast
qed

lemma flush_delete_spec:
  assumes q: "thenS (wrapS ''failed to flush UTXO store'' (Flush (base (stores (FormatInt v)))))
       (thenS (wrapS ''failed to delete version'' (DeleteVersion (man 0) n)) (retS False)) w = (r, w')"
    and N: "version_set N (ks w)" and v: "v \<in> N" and n: "n \<in> N"
    and asc: "ascending C \<longrightarrow> v = n" "ascending C \<longrightarrow> n \<noteq> Max N"
  shows "ck w' = ck w \<and> r \<noteq> Panic \<and> r \<noteq> Ok True \<and>
    (\<exists>M. cleaned (ascending C) N M (ks w) (ks w') \<and> (r = Ok False \<longrightarrow> M = N - {n}))"
proof -
  obtain q3 w3 where f: "Flush (base (stores (FormatInt v))) w = (q3, w3)" by fastforce
  note fl = Flush_spec [OF f]
  have c3: "cleaned (ascending C) N N (ks w) (ks w3)"
    using cleaned_flush [OF N v, of "ascending C" "ks w3"] fl asc by blast
  then have N3: "version_set N (ks w3)" by (simp add: cleaned_def)
  show ?thesis
  proof (cases q3)
    case (Ok u)
    obtain q4 w4 where d: "DeleteVersion (man 0) n w3 = (q4, w4)" by fastforce
    note de = DeleteVersion_spec [OF d]
    let ?m = "exec (KRem version_key [FormatInt n]) (ks w3)"
    have "cleaned (ascending C) N (N - {n}) (ks w3) ?m"
      by (rule cleaned_remove [OF N3 n]) (use asc fl Ok in auto)
    from cleaned_trans [OF c3 this] N have c4: "cleaned (ascending C) N (N - {n}) (ks w) ?m"
      by (simp add: version_set_def)
    have w': "w' = w4" using q f Ok d by (cases q4) (simp_all add: bindS_def thenS_def retS_def wrapS_def)
    show ?thesis
    proof (cases q4)
      case (Ok u')
      have "r = Ok False" using q f \<open>q3 = Ok u\<close> d Ok by (simp add: bindS_def thenS_def retS_def wrapS_def)
      then show ?thesis using c4 de fl Ok w' by auto
    next
      case (Err e)
      have "r = Err (Wrap ''failed to delete version'' e)"
        using q f Ok d Err by (simp add: bindS_def thenS_def retS_def wrapS_def)
      then show ?thesis using c4 c3 de fl w' by auto
    qed (use de in simp)
  next
    case (Err e)
    have "r = Err (Wrap ''failed to flush UTXO store'' e)" "w' = w3"
      using q f Err by (simp_all add: bindS_def thenS_def retS_def wrapS_def)
    then show ?thesis using c3 fl by auto
  qed (use fl in simp)
qed

lemma oldest_first:
  assumes "sorted (a # b # us)" and "distinct (a # b # us)" and "set (a # b # us) = N"
  shows "a = Min N" and "a \<noteq> Max (N :: int set)"
proof -
  have fin: "finite N" using assms(3) by auto
  have "Min N = a" by (rule Min_eqI) (use assms in auto)
  then show "a = Min N" by simp
  have "b \<le> Max N" using fin assms(3) by (intro Max_ge) auto
  moreover have "a < b" using assms(1,2) by auto
  ultimately show "a \<noteq> Max N" by simp
qed

lemma delete_round_spec:
  assumes q: "delete_round (man 0) stores w = (r, w')" and N: "version_set N (ks w)" and c: "ck w = NoFile"
  shows "ck w' = NoFile \<and> r \<noteq> Panic \<and> (\<exists>M. cleaned (ascending C) N M (ks w) (ks w') \<and>
    (r = Ok True \<longrightarrow> M = N \<and> card N \<le> 1) \<and> (r = Ok False \<longrightarrow> M \<noteq> {} \<and> card M < card N))"
  using q unfolding delete_round_def
proof (cases rule: bindS_cases)
  case (Ok vs w1)
  then have "GetVersions (man 0) w = (Ok vs, w1)" by (simp add: wrapS_Ok_iff)
  from GetVersions_spec [OF this N] have w1: "ks w1 = ks w" "ck w1 = NoFile" and vs: "set vs = N" "distinct vs"
    "ascending C \<longrightarrow> sorted vs" using c by simp_all
  have card: "card N = length vs" using vs(1,2) by (metis distinct_card)
  show ?thesis
  proof (cases "length vs \<le> 1")
    case True
    then have "r = Ok True" "w' = w1" using Ok(2) by (simp_all add: retS_apply)
    then show ?thesis using w1 cleaned_refl [OF N] card True by auto
  next
    case False
    obtain n b us where us: "vs = n # b # us" using False by (cases vs; cases "tl vs") auto
    then have n: "n \<in> N" using vs(1) by auto
    have oldest: "ascending C \<longrightarrow> n = Min N" "ascending C \<longrightarrow> n \<noteq> Max N"
      using oldest_first [of n b us N] vs us by blast+
    from False Ok(2) have "bindS (wrapS ''failed to invoke UTXO store'' (open_store (man 0) stores)) (\<lambda>(utxoStore, _).
       thenS (wrapS ''failed to flush UTXO store'' (Flush (base utxoStore)))
       (thenS (wrapS ''failed to delete version'' (DeleteVersion (man 0) n)) (retS False))) w1 = (r, w')"
      by (simp add: us)
    then show ?thesis
    proof (cases rule: bindS_cases)
      case (Ok Uc w2)
      obtain U c where Uc: "Uc = (U, c)" by (cases Uc)
      with Ok have o: "open_store (man 0) stores w1 = (Ok (U, c), w2)" by (simp add: wrapS_Ok_iff)
      have "version_set N (ks w1)" using N w1 by simp
      from open_store_spec [OF o this w1(2)] obtain v where w2: "ks w2 = ks w" "ck w2 = NoFile" and
        v: "v \<in> N" "U = stores (FormatInt v)" "ascending C \<longrightarrow> v = n" using oldest(1) w1(1) by auto
      have "card (N - {n}) = card N - 1" using n N by (simp add: version_set_def)
      then have m: "N - {n} \<noteq> {}" "card (N - {n}) < card N" using card False by (metis card.empty diff_is_0_eq One_nat_def, linarith)
      have "version_set N (ks w2)" using N w2 by simp
      from flush_delete_spec [OF _ this v(1) n v(3) oldest(2), of r w'] Ok(2) Uc v(2) w2 m
      show ?thesis by auto
    next
      case (Err e)
      then show ?thesis using open_store_spec [of w1 _ w' N] N w1 cleaned_refl [OF N, of "ascending C"] by (auto elim!: wrapS_cases)
    next
      case Panic
      then show ?thesis using open_store_spec [of w1 _ w' N] N w1 by (auto elim!: wrapS_cases)
    qed
  qed
next
  case (Err e)
  then show ?thesis using GetVersions_spec [where w' = w', OF _ N] c cleaned_refl [OF N, of "ascending C"] by (auto elim!: wrapS_cases)
next
  case Panic
  then show ?thesis using GetVersions_spec [where w' = w', OF _ N] by (auto elim!: wrapS_cases)
qed

lemma delete_loop_spec:
  assumes "version_set N (ks w)" and "ck w = NoFile" and "N \<noteq> {}"
  shows "\<exists>r w' M. delete_loop (delete_round (man 0) stores) w = Some (r, w') \<and> r \<noteq> Panic \<and> ck w' = NoFile \<and>
    cleaned (ascending C) N M (ks w) (ks w') \<and> (r = Ok () \<longrightarrow> card M = 1)"
  using assms
proof (induction "card N" arbitrary: N w rule: less_induct)
  case less
  obtain q w1 where q: "delete_round (man 0) stores w = (q, w1)" by fastforce
  from delete_round_spec [OF q less.prems(1,2)] obtain M where w1: "ck w1 = NoFile" "q \<noteq> Panic"
    and M: "cleaned (ascending C) N M (ks w) (ks w1)" and t: "q = Ok True \<Longrightarrow> M = N \<and> card N \<le> 1"
    and f: "q = Ok False \<Longrightarrow> M \<noteq> {} \<and> card M < card N" by blast
  have N: "finite N" "\<forall>n \<in> N. int64_range n" using less.prems(1) by (simp_all add: version_set_def)
  show ?case
  proof (cases q)
    case (Ok b)
    show ?thesis
    proof (cases b)
      case True
      have "card N = 1" using t Ok True less.prems(3) N(1) by (metis card_0_eq le_Suc_eq One_nat_def le_zero_eq)
      then show ?thesis using M t Ok True w1(1) by (subst delete_loop.simps) (auto simp: q)
    next
      case False
      from less.hyps [OF _ _ w1(1), of M] M f Ok False
      obtain r w' L where l: "delete_loop (delete_round (man 0) stores) w1 = Some (r, w')" "r \<noteq> Panic" "ck w' = NoFile"
        "cleaned (ascending C) M L (ks w1) (ks w')" "r = Ok () \<longrightarrow> card L = 1" by (auto simp: cleaned_def)
      have "delete_loop (delete_round (man 0) stores) w = Some (r, w')"
        using l(1) Ok False by (subst delete_loop.simps) (simp add: q)
      with l cleaned_trans [OF M l(4) N] show ?thesis by blast
    qed
  next
    case (Err e)
    then show ?thesis using M w1(1) by (subst delete_loop.simps) (auto simp: q)
  qed (use w1 in simp)
qed

lemma Initialize_spec:
  assumes "NewUTXOStoreMigrationManager C w = (r, w')" and "version_set N (ks w)"
  shows "ck w' = ck w \<and> r \<noteq> Panic \<and> (N \<noteq> {} \<longrightarrow> ks w' = ks w) \<and>
    (\<forall>m. r = Ok m \<longrightarrow> m = man 0 \<and> version_set (if N = {} then {DefaultVersion} else N) (ks w'))"
proof -
  have m: "NewManager ''utxo_store'' C = man 0" by (simp add: NewManager_def man_def version_key_def)
  obtain q where q: "Initialize (man 0) w = (q, w')"
    and r: "r = (case q of Ok _ \<Rightarrow> Ok (man 0) | Err _ \<Rightarrow> Err (Msg ''failed to initialize migration amanger'') | Panic \<Rightarrow> Panic)"
    using assms(1) unfolding NewUTXOStoreMigrationManager_def m Let_def
    by (auto simp: maskS_def thenS_def bindS_def retS_def split: prod.splits outcome.splits)
  have "ck w' = ck w \<and> q \<noteq> Panic \<and> (N \<noteq> {} \<longrightarrow> ks w' = ks w) \<and>
    (q = Ok () \<longrightarrow> version_set (if N = {} then {DefaultVersion} else N) (ks w'))"
    using q unfolding Initialize_def
  proof (cases rule: bindS_cases)
    case (Ok vs w1)
    note g = GetVersions_spec [OF Ok(1) assms(2)]
    show ?thesis
    proof (cases "length vs > 0")
      case True
      then have "q = Ok ()" "w' = w1" using Ok(2) by (simp_all add: retS_apply)
      then show ?thesis using g True assms(2) by auto
    next
      case False
      then have N: "N = {}" using g by auto
      have w1: "version_set {} (ks w1)" using g assms(2) N by simp
      have a: "applies ks ck (wrapS ''failed to increment version'' (set_AddToSet C version_key [FormatInt DefaultVersion]))
          (KAdd version_key [FormatInt DefaultVersion])" by (intro applies_wrap AddToSet)
      have "wrapS ''failed to increment version'' (set_AddToSet C version_key [FormatInt DefaultVersion]) w1 = (q, w')"
        using Ok(2) False by (simp add: man_def)
      from appliesD [OF a this] g N version_set_add [OF w1, of DefaultVersion] show ?thesis
        by (auto simp: DefaultVersion_def int64_range_def)
    qed
  next
    case (Err e)
    then show ?thesis using GetVersions_spec [OF Err(1) assms(2)] by simp
  next
    case Panic
    then show ?thesis using GetVersions_spec [OF Panic(1) assms(2)] by simp
  qed
  with r show ?thesis by (cases q) auto
qed

lemma deleteOldVersionsData_spec:
  assumes "version_set N (ks w)" and "ck w = NoFile"
  shows "\<exists>r w'. deleteOldVersionsData C stores w = Some (r, w') \<and> r \<noteq> Panic \<and> ck w' = NoFile \<and>
    (r = Ok () \<longrightarrow> (\<exists>n. version_set {n} (ks w') \<and> n \<in> (if N = {} then {DefaultVersion} else N))) \<and>
    (N \<noteq> {} \<longrightarrow> (\<exists>M. cleaned (ascending C) N M (ks w) (ks w') \<and> (r = Ok () \<longrightarrow> card M = 1)))"
proof -
  obtain q w1 where q: "NewUTXOStoreMigrationManager C w = (q, w1)" by fastforce
  note i = Initialize_spec [OF q assms(1)]
  show ?thesis
  proof (cases q)
    case (Ok m)
    let ?N = "if N = {} then {DefaultVersion} else N"
    have m: "m = man 0" "version_set ?N (ks w1)" using i Ok by auto
    have "\<exists>r w' M. delete_loop (delete_round (man 0) stores) w1 = Some (r, w') \<and> r \<noteq> Panic \<and> ck w' = NoFile \<and>
      cleaned (ascending C) ?N M (ks w1) (ks w') \<and> (r = Ok () \<longrightarrow> card M = 1)"
      by (rule delete_loop_spec [OF m(2)]) (use i assms(2) in auto)
    then obtain r w' M where l: "delete_loop (delete_round (man 0) stores) w1 = Some (r, w')" "r \<noteq> Panic"
      "cleaned (ascending C) ?N M (ks w1) (ks w')" "r = Ok () \<longrightarrow> card M = 1" "ck w' = NoFile" by blast
    have d: "deleteOldVersionsData C stores w = Some (r, w')"
      using l(1) q Ok m(1) by (simp add: deleteOldVersionsData_def wrapS_def)
    have one: "\<exists>n. version_set {n} (ks w') \<and> n \<in> ?N" if ok: "r = Ok ()"
    proof -
      obtain n where n: "M = {n}" using l(4) ok card_1_singletonE by blast
      have "M \<subseteq> ?N" "version_set M (ks w')" using l(3) unfolding cleaned_def by blast+
      then show ?thesis unfolding n by blast
    qed
    have "cleaned (ascending C) N M (ks w) (ks w') \<and> (r = Ok () \<longrightarrow> card M = 1)" if "N \<noteq> {}"
      using l(3,4) that i by simp
    with d l(2,5) one show ?thesis by blast
  next
    case (Err e)
    then have "deleteOldVersionsData C stores w = Some (Err (Wrap ''failed to invoke migration manager'' e), w1)"
      using q by (simp add: deleteOldVersionsData_def wrapS_def)
    moreover have "cleaned (ascending C) N N (ks w) (ks w1)" if "N \<noteq> {}" using that i cleaned_refl [OF assms(1)] by simp
    moreover have "ck w1 = NoFile" using i assms(2) by simp
    ultimately show ?thesis by blast
  qed (use i in simp)
qed

end

section \<open>The cleanup\<close>

text \<open>Redis keeps a small set of integers as a sorted array, and answers it in that order.\<close>

definition intset :: "string list \<Rightarrow> string list" where
  "intset xs = sort_key (\<lambda>x. case ParseInt x of Ok n \<Rightarrow> n | _ \<Rightarrow> 0) xs"

definition intset_sets :: "sim sets_store" where
  "intset_sets = (RedisSets sim_client)\<lparr>set_GetSet := \<lambda>k w. case RedisSets_GetSet sim_client k w of
     (Ok xs, w') \<Rightarrow> (Ok (intset xs), w') | r \<Rightarrow> r\<rparr>"

lemma cast_sorted: "castVersionsFromStrings xs = Ok vs \<Longrightarrow> vs = List.map (\<lambda>x. case ParseInt x of Ok n \<Rightarrow> n | _ \<Rightarrow> 0) xs"
  unfolding castVersionsFromStrings_def
proof (induction xs arbitrary: vs)
  case (Cons x xs)
  then show ?case by (cases "ParseInt x"; cases "mapO (\<lambda>v. wrapO ''failed to parse version'' (ParseInt v)) xs") auto
qed simp

lemma intset_ascending: "ascending intset_sets"
  by (auto simp: ascending_def intset_sets_def intset_def dest!: cast_sorted split: prod.splits outcome.splits)

lemma intset_GetSet:
  assumes "set_GetSet intset_sets k w = (r, w')"
  obtains q where "set_GetSet (RedisSets sim_client) k w = (q, w')" and "q = Panic \<longleftrightarrow> r = Panic"
    and "\<And>xs. r = Ok xs \<Longrightarrow> \<exists>ys. q = Ok ys \<and> xs = intset ys"
  using assms by (auto simp: intset_sets_def RedisSets_def split: prod.splits outcome.splits)

lemma intset_laws: "sets_laws intset_sets sim_ks sim_ck"
proof (unfold_locales, goal_cases)
  case (1 k w r w')
  then show ?case by (rule intset_GetSet) (auto dest: sim.sets.GetSet_frame)
next
  case (2 k w xs w')
  then show ?case by (rule intset_GetSet) (use sim.sets.GetSet_members in \<open>fastforce simp: intset_def\<close>)
next
  case (3 k xs)
  show ?case using sim.sets.AddToSet by (simp add: intset_sets_def)
next
  case (4 k xs)
  show ?case using sim.sets.RemoveFromSet by (simp add: intset_sets_def)
qed

lemma intset_versions: "versions intset_sets sim_ks sim_ck sim_store sim_driver (\<lambda>w tx. List.map (view_cmd sim_codec) (sim_queue w))"
proof (intro versions.intro versions_axioms.intro, goal_cases)
  case 1
  show ?case by (rule intset_laws)
next
  case (5 k w xs w')
  then show ?case by (rule intset_GetSet) (use sim_versions.GetSet_distinct in \<open>fastforce simp: intset_def\<close>)
qed (use sim_versions.backend sim_versions.pattern sim_versions.dbVer in auto)

text \<open>
  C9: the cleanup of old versions always ends. When it succeeds one version is left, one of those
  there were or the first; when versions come in ascending order the newest one survives any failure
  with all its data, and nothing is left of the data of the versions it removed.
\<close>

theorem versions_cleanup:
  assumes "versions C ks ck stores D pend" and "version_set N (ks w)" and "ck w = NoFile"
  shows "\<exists>r w'. deleteOldVersionsData C stores w = Some (r, w') \<and> r \<noteq> Panic \<and>
    (r = Ok () \<longrightarrow> (\<exists>n. version_set {n} (ks w') \<and> n \<in> (if N = {} then {DefaultVersion} else N))) \<and>
    (ascending C \<and> N \<noteq> {} \<longrightarrow> (\<exists>M \<subseteq> N. version_set M (ks w') \<and> Max N \<in> M \<and> (r = Ok () \<longrightarrow> M = {Max N}) \<and>
      (\<forall>k. HasPrefix k (vprefix (Max N)) \<longrightarrow> ks w' k = ks w k) \<and>
      (\<forall>n \<in> N - M. \<forall>k. HasPrefix k (vprefix n) \<longrightarrow> ks w' k = None)))"
proof -
  obtain r w' where d: "deleteOldVersionsData C stores w = Some (r, w')" "r \<noteq> Panic"
    "r = Ok () \<longrightarrow> (\<exists>n. version_set {n} (ks w') \<and> n \<in> (if N = {} then {DefaultVersion} else N))"
    "N \<noteq> {} \<longrightarrow> (\<exists>M. cleaned (ascending C) N M (ks w) (ks w') \<and> (r = Ok () \<longrightarrow> card M = 1))"
    using versions.deleteOldVersionsData_spec [OF assms] by blast
  have "\<exists>M \<subseteq> N. version_set M (ks w') \<and> Max N \<in> M \<and> (r = Ok () \<longrightarrow> M = {Max N}) \<and>
      (\<forall>k. HasPrefix k (vprefix (Max N)) \<longrightarrow> ks w' k = ks w k) \<and>
      (\<forall>n \<in> N - M. \<forall>k. HasPrefix k (vprefix n) \<longrightarrow> ks w' k = None)" if a: "ascending C" "N \<noteq> {}"
  proof -
    obtain M where M: "cleaned (ascending C) N M (ks w) (ks w')" "r = Ok () \<longrightarrow> card M = 1" using d(4) a by blast
    have "Max N \<in> N" using assms(2) a(2) by (simp add: version_set_def)
    then have "int64_range (Max N)" using assms(2) by (simp add: version_set_def)
    moreover have "M = {Max N}" if "r = Ok ()"
      using M a that by (auto simp: cleaned_def card_1_singleton_iff)
    ultimately show ?thesis using M(1) a unfolding cleaned_def by blast
  qed
  with d(1-3) show ?thesis by blast
qed

text \<open>Versions 1 and 2, each with its data; the cleanup keeps version 2.\<close>

definition two_versions :: "string list \<Rightarrow> sim" where
  "two_versions vs = \<lparr>sim_keys = [(version_key, Inr vs), (''1:x'', Inl (VInt64 1)), (''2:x'', Inl (VInt64 2))],
     sim_queue = [], sim_file = None, sim_faults = []\<rparr>"

theorem versions_cleanup_witness:
  "\<exists>w'. deleteOldVersionsData intset_sets sim_store (two_versions [''2'', ''1'']) = Some (Ok (), w') \<and>
     version_set {2} (sim_ks w') \<and> sim_ks w' ''1:x'' = None \<and> sim_ks w' ''2:x'' = Some (Val (VInt64 2))"
proof -
  let ?w = "two_versions [''2'', ''1'']"
  have F: "FormatInt 1 = ''1''" "FormatInt 2 = ''2''" by code_simp+
  have n: "version_set {1, 2} (sim_ks ?w)"
    by (auto simp: version_set_def two_versions_def view_def sim_space_def holds_set_def members_def F int64_range_def)
  have ok: "map_option fst (deleteOldVersionsData intset_sets sim_store ?w) = Some (Ok ())" by code_simp
  have c: "sim_ck ?w = NoFile" by (simp add: two_versions_def file_view_def)
  from versions_cleanup [OF intset_versions n c] ok intset_ascending obtain w' where
    "deleteOldVersionsData intset_sets sim_store ?w = Some (Ok (), w')" "version_set {2} (sim_ks w')"
    "\<forall>k. HasPrefix k (vprefix 2) \<longrightarrow> sim_ks w' k = sim_ks ?w k"
    and gone: "\<forall>n \<in> {1, 2} - {2}. \<forall>k. HasPrefix k (vprefix n) \<longrightarrow> sim_ks w' k = None"
    by auto
  moreover have "\<forall>k. HasPrefix k (vprefix 1) \<longrightarrow> sim_ks w' k = None" by (rule bspec [OF gone]) simp
  moreover have "HasPrefix ''1:x'' (vprefix 1)" "HasPrefix ''2:x'' (vprefix 2)" by (simp_all add: HasPrefix_def vprefix_def F)
  moreover have "sim_ks ?w ''2:x'' = Some (Val (VInt64 2))"
    using sim_codec.decoded_Marshal [of "VInt64 2" "VInt64 2"]
    by (simp add: two_versions_def view_def sim_space_def version_key_def sim_codec_def)
  ultimately show ?thesis by auto
qed

text \<open>
  Redis promises no order for the members of a set. When the newest version is answered first, the
  cleanup flushes and deletes it, and the old version stays.
\<close>

lemma newest_version_deleted:
  "map_option (\<lambda>(r, w). (r, sim_keys w)) (deleteOldVersionsData (RedisSets sim_client) sim_store (two_versions [''2'', ''1''])) =
     Some (Ok (), [(version_key, Inr [''1'']), (''1:x'', Inl (VInt64 1))])"
  by code_simp

end
