(* ===== verification/Blocks_Iterator.thy ===== *)
theory Blocks_Iterator
  imports Blockchain
begin

text \<open>
  The iterator over the blocks of the node (\<^verbatim>\<open>bitcoinblocksiterator/iterator.go\<close>, \<^verbatim>\<open>options.go\<close>,
  \<^verbatim>\<open>semaphore/semaphore.go\<close>): a goroutine asks for the hashes of the following heights, another one
  starts a bounded number of workers that download the blocks in parallel, and the workers put them
  in order before they send them. Every goroutine is a little machine; a step of the whole is a step
  of one of them, of the consumer, or the cancellation of the context, in any order.
\<close>

section \<open>Options\<close>

record iter_options =
  concurrentBlocksDownloadLimit :: int
  blockHeadersBufferSize :: int

definition WithConcurrentBlocksDownloadLimit :: "int \<Rightarrow> iter_options \<Rightarrow> iter_options outcome" where
  "WithConcurrentBlocksDownloadLimit limit s =
     (if limit \<le> 0 then Err ErrInvalidConcurrentBlocksDownloadLimit
      else Ok (s\<lparr>concurrentBlocksDownloadLimit := limit\<rparr>))"

definition WithBlockHeadersBufferSize :: "int \<Rightarrow> iter_options \<Rightarrow> iter_options outcome" where
  "WithBlockHeadersBufferSize n s =
     (if n \<le> 0 then Err ErrInvalidBlockHeadersBufferSize
      else Ok (s\<lparr>blockHeadersBufferSize := n\<rparr>))"

definition buildOptions :: "(iter_options \<Rightarrow> iter_options outcome) list \<Rightarrow> iter_options outcome" where
  "buildOptions opts =
     foldO (\<lambda>options opt. opt options) \<lparr>concurrentBlocksDownloadLimit = 1, blockHeadersBufferSize = 1\<rparr> opts"

section \<open>State\<close>

text \<open>What the node answers: the hashes it may give for a height, and the block of a hash.\<close>

record node =
  node_hash :: "int \<Rightarrow> bytes \<Rightarrow> bool"
  node_block :: "bytes \<Rightarrow> block"

text \<open>
  The places of the goroutines. Headers: at the \<open>select\<close>, waiting for \<open>GetBlockHash\<close>, sending the
  hash, returned. Dispatcher: receiving from the channel, acquiring a place, returned (the channel of
  blocks is closed). Worker: at the \<open>select\<close>, waiting for \<open>GetBlock\<close>, waiting for the mutex, in the
  sending loop with the mutex.
\<close>

datatype header_phase = HSelect | HFetch | HSend bytes | HDone

datatype dispatch_phase = DRecv | DAcquire bytes | DDone

datatype worker_phase = WSelect bytes | WFetch bytes | WLock block | WSend

record iter =
  headers :: header_phase
  currentBlockHeight :: int
  blockHashes :: "bytes list"
  dispatcher :: dispatch_phase
  semaphore_c :: nat
  workers :: "worker_phase list"
  mx_locked :: bool
  orderingBlocks :: "int \<rightharpoonup> block"
  expectedNextBlockHeightToSend :: int
  downloadedBlocks :: "block list"
  consumed :: "block list"
  cancelled :: bool
  send_on_closed :: bool

definition iter_init :: "int \<Rightarrow> iter" where
  "iter_init startHeight =
     \<lparr>headers = HSelect, currentBlockHeight = startHeight, blockHashes = [], dispatcher = DRecv,
      semaphore_c = 0, workers = [], mx_locked = False, orderingBlocks = Map.empty,
      expectedNextBlockHeightToSend = startHeight, downloadedBlocks = [], consumed = [],
      cancelled = False, send_on_closed = False\<rparr>"

text \<open>\<open>Iterate\<close>: the state it starts the goroutines in.\<close>

definition Iterate :: "(bytes \<Rightarrow> int outcome) \<Rightarrow> string \<Rightarrow> iter outcome" where
  "Iterate GetBlockHeader startFromBlockHash =
     bindO (wrapO ''failed to parse start from block hash'' (NewHashFromHEX startFromBlockHash)) (\<lambda>startFromBlockHashBytes.
     bindO (wrapO ''failed to get start from block header'' (GetBlockHeader startFromBlockHashBytes)) (\<lambda>height.
     Ok (iter_init height)))"

section \<open>Steps\<close>

text \<open>\<open>None\<close> is a goroutine that cannot move: it has returned, or its channel or lock blocks it.\<close>

definition Acquire :: "iter_options \<Rightarrow> iter \<Rightarrow> iter option" where
  "Acquire opts s =
     (if int (semaphore_c s) < concurrentBlocksDownloadLimit opts
      then Some (s\<lparr>semaphore_c := Suc (semaphore_c s)\<rparr>) else None)"

definition Release :: "iter \<Rightarrow> iter" where
  "Release s = s\<lparr>semaphore_c := semaphore_c s - 1\<rparr>"

text \<open>\<open>downloadBlockHeaders\<close>; the argument is the node's answer, \<open>None\<close> an error.\<close>

definition downloadBlockHeaders :: "iter_options \<Rightarrow> node \<Rightarrow> bytes option \<Rightarrow> iter \<Rightarrow> iter option" where
  "downloadBlockHeaders opts N answer s =
     (case headers s of
        HSelect \<Rightarrow> Some (s\<lparr>headers := (if cancelled s then HDone else HFetch)\<rparr>)
      | HFetch \<Rightarrow>
          (case answer of
             None \<Rightarrow> Some (s\<lparr>headers := HSelect\<rparr>)
           | Some hash \<Rightarrow>
               if node_hash N (currentBlockHeight s) hash
               then Some (s\<lparr>headers := HSend hash, currentBlockHeight := wrap64 (currentBlockHeight s + 1)\<rparr>)
               else None)
      | HSend hash \<Rightarrow>
          if int (length (blockHashes s)) < blockHeadersBufferSize opts
          then Some (s\<lparr>blockHashes := blockHashes s @ [hash], headers := HSelect\<rparr>) else None
      | HDone \<Rightarrow> None)"

text \<open>The loop over the hashes; it ends, and closes the channel of blocks, when theirs is closed and empty.\<close>

definition dispatch :: "iter_options \<Rightarrow> iter \<Rightarrow> iter option" where
  "dispatch opts s =
     (case dispatcher s of
        DRecv \<Rightarrow>
          (case blockHashes s of
             hash # rest \<Rightarrow> Some (s\<lparr>blockHashes := rest, dispatcher := DAcquire hash\<rparr>)
           | [] \<Rightarrow> if headers s = HDone then Some (s\<lparr>dispatcher := DDone\<rparr>) else None)
      | DAcquire hash \<Rightarrow>
          map_option (\<lambda>s. s\<lparr>workers := workers s @ [WSelect hash], dispatcher := DRecv\<rparr>) (Acquire opts s)
      | DDone \<Rightarrow> None)"

definition remove_worker :: "nat \<Rightarrow> iter \<Rightarrow> iter" where
  "remove_worker i s = s\<lparr>workers := take i (workers s) @ drop (Suc i) (workers s)\<rparr>"

text \<open>
  One round of the sending loop of a worker that has the mutex. Sending on the closed channel panics,
  also when the channel is full.
\<close>

definition send_round :: "iter_options \<Rightarrow> nat \<Rightarrow> iter \<Rightarrow> iter option" where
  "send_round opts i s =
     (case orderingBlocks s (expectedNextBlockHeightToSend s) of
        None \<Rightarrow> Some (Release (remove_worker i (s\<lparr>mx_locked := False\<rparr>)))
      | Some nextBlock \<Rightarrow>
          if dispatcher s = DDone then Some (s\<lparr>send_on_closed := True\<rparr>)
          else if int (length (downloadedBlocks s)) < concurrentBlocksDownloadLimit opts
          then Some (s\<lparr>downloadedBlocks := downloadedBlocks s @ [nextBlock],
                 orderingBlocks := (orderingBlocks s)(expectedNextBlockHeightToSend s := None),
                 expectedNextBlockHeightToSend := wrap64 (bh_Height nextBlock + 1)\<rparr>)
          else None)"

text \<open>A step of worker \<open>i\<close>; the flag is whether \<open>GetBlock\<close> succeeds.\<close>

definition worker_step :: "iter_options \<Rightarrow> node \<Rightarrow> nat \<Rightarrow> bool \<Rightarrow> iter \<Rightarrow> iter option" where
  "worker_step opts N i ok s =
     (if i < length (workers s) then
        (case workers s ! i of
           WSelect hash \<Rightarrow>
             Some (if cancelled s then Release (remove_worker i s) else s\<lparr>workers := (workers s)[i := WFetch hash]\<rparr>)
         | WFetch hash \<Rightarrow>
             Some (s\<lparr>workers := (workers s)[i := (if ok then WLock (node_block N hash) else WSelect hash)]\<rparr>)
         | WLock block \<Rightarrow>
             if mx_locked s then None
             else Some (s\<lparr>mx_locked := True, orderingBlocks := (orderingBlocks s)(bh_Height block \<mapsto> block),
                    workers := (workers s)[i := WSend]\<rparr>)
         | WSend \<Rightarrow> send_round opts i s)
      else None)"

datatype action = Header "bytes option" | Dispatch | Worker nat bool | Consume | Cancel

fun iter_step :: "iter_options \<Rightarrow> node \<Rightarrow> action \<Rightarrow> iter \<Rightarrow> iter option" where
  "iter_step opts N (Header answer) s = (if send_on_closed s then None else downloadBlockHeaders opts N answer s)"
| "iter_step opts N Dispatch s = (if send_on_closed s then None else dispatch opts s)"
| "iter_step opts N (Worker i ok) s = (if send_on_closed s then None else worker_step opts N i ok s)"
| "iter_step opts N Consume s = (if send_on_closed s then None else
     (case downloadedBlocks s of
        b # bs \<Rightarrow> Some (s\<lparr>downloadedBlocks := bs, consumed := consumed s @ [b]\<rparr>)
      | [] \<Rightarrow> None))"
| "iter_step opts N Cancel s = (if send_on_closed s then None else Some (s\<lparr>cancelled := True\<rparr>))"

fun iter_run :: "iter_options \<Rightarrow> node \<Rightarrow> action list \<Rightarrow> iter \<Rightarrow> iter option" where
  "iter_run opts N [] s = Some s"
| "iter_run opts N (a # as) s = Option.bind (iter_step opts N a s) (iter_run opts N as)"

lemma iter_run_append: "iter_run opts N (as @ bs) s = Option.bind (iter_run opts N as s) (iter_run opts N bs)"
  by (induction as arbitrary: s) (simp_all split: bind_split)

lemma iter_run_induct:
  assumes "iter_run opts N as s = Some s'" and "P s"
    and "\<And>a s s'. P s \<Longrightarrow> iter_step opts N a s = Some s' \<Longrightarrow> P s'"
  shows "P s'"
  using assms(1,2)
proof (induction as arbitrary: s)
  case (Cons a as)
  then obtain s1 where "iter_step opts N a s = Some s1" "iter_run opts N as s1 = Some s'"
    by (auto simp: bind_eq_Some_conv)
  with Cons assms(3) show ?case by blast
qed simp

end
