(* ===== verification/Iterator_Correct.thy ===== *)
theory Iterator_Correct
  imports Blocks_Iterator
begin

text \<open>
  Properties of the iterator over the blocks, over every interleaving of its goroutines: it delivers
  the chain in order, without gaps or repetitions; as long as its context lives it never blocks for good
  and delivers every block the node has; what a cancellation can break; how much it can buffer.
\<close>

section \<open>Kinds of steps\<close>

lemma split_nth:
  assumes "i < length xs"
  obtains us vs where "xs = us @ xs ! i # vs" and "length us = i"
    and "take i xs @ drop (Suc i) xs = us @ vs" and "\<And>x. xs[i := x] = us @ x # vs"
  using assms id_take_nth_drop [OF assms] upd_conv_take_nth_drop [OF assms] by (metis length_take min.absorb4)

lemma worker_step_cases:
  assumes "worker_step opts N i ok s = Some s'"
  obtains
    (quit) us hash vs where "workers s = us @ WSelect hash # vs" "cancelled s"
      "s' = s\<lparr>workers := us @ vs, semaphore_c := semaphore_c s - 1\<rparr>"
  | (fetch) us hash vs where "workers s = us @ WSelect hash # vs" "\<not> cancelled s"
      "s' = s\<lparr>workers := us @ WFetch hash # vs\<rparr>"
  | (again) us hash vs where "workers s = us @ WFetch hash # vs" "\<not> ok" "s' = s\<lparr>workers := us @ WSelect hash # vs\<rparr>"
  | (got) us hash vs where "workers s = us @ WFetch hash # vs" "ok" "s' = s\<lparr>workers := us @ WLock (node_block N hash) # vs\<rparr>"
  | (store) us block vs where "workers s = us @ WLock block # vs" "\<not> mx_locked s"
      "s' = s\<lparr>mx_locked := True, orderingBlocks := (orderingBlocks s)(bh_Height block \<mapsto> block), workers := us @ WSend # vs\<rparr>"
  | (unlock) us vs where "workers s = us @ WSend # vs" "orderingBlocks s (expectedNextBlockHeightToSend s) = None"
      "s' = s\<lparr>mx_locked := False, workers := us @ vs, semaphore_c := semaphore_c s - 1\<rparr>"
  | (closed) us b vs where "workers s = us @ WSend # vs" "orderingBlocks s (expectedNextBlockHeightToSend s) = Some b"
      "dispatcher s = DDone" "s' = s\<lparr>send_on_closed := True\<rparr>"
  | (send) us b vs where "workers s = us @ WSend # vs" "orderingBlocks s (expectedNextBlockHeightToSend s) = Some b"
      "dispatcher s \<noteq> DDone" "int (length (downloadedBlocks s)) < concurrentBlocksDownloadLimit opts"
      "s' = s\<lparr>downloadedBlocks := downloadedBlocks s @ [b],
         orderingBlocks := (orderingBlocks s)(expectedNextBlockHeightToSend s := None),
         expectedNextBlockHeightToSend := wrap64 (bh_Height b + 1)\<rparr>"
proof -
  have i: "i < length (workers s)" using assms by (simp add: worker_step_def split: if_splits)
  then obtain us vs where w: "workers s = us @ workers s ! i # vs" "length us = i"
    "take i (workers s) @ drop (Suc i) (workers s) = us @ vs" "\<And>x. (workers s)[i := x] = us @ x # vs"
    using split_nth by metis
  show thesis
  proof (cases "workers s ! i")
    case (WSelect hash)
    with assms w i quit fetch show thesis
      by (cases "cancelled s") (auto simp: worker_step_def Release_def remove_worker_def)
  next
    case (WFetch hash)
    with assms w i again got show thesis by (cases ok) (auto simp: worker_step_def)
  next
    case (WLock block)
    with assms w i store show thesis by (auto simp: worker_step_def split: if_splits)
  next
    case WSend
    with assms w i unlock closed send show thesis
      by (auto simp: worker_step_def send_round_def Release_def remove_worker_def split: option.splits if_splits)
  qed
qed

lemma dispatch_cases:
  assumes "dispatch opts s = Some s'"
  obtains
    (take) hash rest where "dispatcher s = DRecv" "blockHashes s = hash # rest"
      "s' = s\<lparr>blockHashes := rest, dispatcher := DAcquire hash\<rparr>"
  | (close) "dispatcher s = DRecv" "blockHashes s = []" "headers s = HDone" "s' = s\<lparr>dispatcher := DDone\<rparr>"
  | (start) hash where "dispatcher s = DAcquire hash" "int (semaphore_c s) < concurrentBlocksDownloadLimit opts"
      "s' = s\<lparr>semaphore_c := Suc (semaphore_c s), workers := workers s @ [WSelect hash], dispatcher := DRecv\<rparr>"
  using assms by (auto simp: dispatch_def Acquire_def split: dispatch_phase.splits list.splits if_splits)

lemma header_cases:
  assumes "downloadBlockHeaders opts N answer s = Some s'"
  obtains
    (stop) "headers s = HSelect" "cancelled s" "s' = s\<lparr>headers := HDone\<rparr>"
  | (ask) "headers s = HSelect" "\<not> cancelled s" "s' = s\<lparr>headers := HFetch\<rparr>"
  | (again) "headers s = HFetch" "answer = None" "s' = s\<lparr>headers := HSelect\<rparr>"
  | (got) hash where "headers s = HFetch" "answer = Some hash" "node_hash N (currentBlockHeight s) hash"
      "s' = s\<lparr>headers := HSend hash, currentBlockHeight := wrap64 (currentBlockHeight s + 1)\<rparr>"
  | (push) hash where "headers s = HSend hash" "int (length (blockHashes s)) < blockHeadersBufferSize opts"
      "s' = s\<lparr>blockHashes := blockHashes s @ [hash], headers := HSelect\<rparr>"
  using assms by (auto simp: downloadBlockHeaders_def split: header_phase.splits option.splits if_splits)

text \<open>A step by the goroutine that makes it.\<close>

lemma iter_step_cases:
  assumes "iter_step opts N a s = Some s'"
  obtains
    (header) answer where "a = Header answer" "downloadBlockHeaders opts N answer s = Some s'"
  | (dispatch) "a = Dispatch" "dispatch opts s = Some s'"
  | (worker) i ok where "a = Worker i ok" "worker_step opts N i ok s = Some s'"
  | (consume) b bs where "a = Consume" "downloadedBlocks s = b # bs"
      "s' = s\<lparr>downloadedBlocks := bs, consumed := consumed s @ [b]\<rparr>"
  | (cancel) "a = Cancel" "s' = s\<lparr>cancelled := True\<rparr>"
proof (cases a)
  case (Header answer)
  with assms header show thesis by (simp split: if_splits)
next
  case Dispatch
  with assms dispatch show thesis by (simp split: if_splits)
next
  case (Worker i ok)
  with assms worker show thesis by (simp split: if_splits)
next
  case Consume
  with assms consume show thesis by (auto split: if_splits list.splits)
next
  case Cancel
  with assms cancel show thesis by (simp split: if_splits)
qed

section \<open>Options\<close>

lemma foldO_invariant:
  assumes "foldO (\<lambda>s opt. opt s) s opts = Ok s'" and "P s" and "\<forall>opt \<in> set opts. \<forall>s s'. P s \<longrightarrow> opt s = Ok s' \<longrightarrow> P s'"
  shows "P s'"
  using assms
proof (induction opts arbitrary: s)
  case (Cons opt opts)
  obtain s1 where s1: "opt s = Ok s1" "foldO (\<lambda>s opt. opt s) s1 opts = Ok s'"
    using Cons.prems(1) by (auto simp: bindO_Ok_iff)
  have "\<forall>s s'. P s \<longrightarrow> opt s = Ok s' \<longrightarrow> P s'" using Cons.prems(3) by simp
  then have "P s1" using Cons.prems(2) s1(1) by blast
  from Cons.IH [OF s1(2) this] Cons.prems(3) show ?case by (meson list.set_intros(2))
qed simp

definition sound_options :: "iter_options \<Rightarrow> bool" where
  "sound_options opts \<longleftrightarrow> 0 < concurrentBlocksDownloadLimit opts \<and> 0 < blockHeadersBufferSize opts"

lemma option_sound:
  assumes "opt \<in> range WithConcurrentBlocksDownloadLimit \<union> range WithBlockHeadersBufferSize"
    and "sound_options s" and "opt s = Ok s'"
  shows "sound_options s'"
  using assms(1)
proof
  assume "opt \<in> range WithConcurrentBlocksDownloadLimit"
  then obtain n where "opt = WithConcurrentBlocksDownloadLimit n" by (rule rangeE)
  with assms(2,3) show ?thesis by (auto simp: sound_options_def WithConcurrentBlocksDownloadLimit_def split: if_splits)
next
  assume "opt \<in> range WithBlockHeadersBufferSize"
  then obtain n where "opt = WithBlockHeadersBufferSize n" by (rule rangeE)
  with assms(2,3) show ?thesis by (auto simp: sound_options_def WithBlockHeadersBufferSize_def split: if_splits)
qed

lemma buildOptions_sound:
  assumes "buildOptions opts = Ok s"
    and "set opts \<subseteq> range WithConcurrentBlocksDownloadLimit \<union> range WithBlockHeadersBufferSize"
  shows "sound_options s"
proof -
  have d: "foldO (\<lambda>options opt. opt options) \<lparr>concurrentBlocksDownloadLimit = 1, blockHeadersBufferSize = 1\<rparr> opts = Ok s"
    using assms(1) by (simp add: buildOptions_def)
  show ?thesis
  proof (rule foldO_invariant [where P = sound_options, OF d])
    show "\<forall>opt \<in> set opts. \<forall>s s'. sound_options s \<longrightarrow> opt s = Ok s' \<longrightarrow> sound_options s'"
    proof (intro ballI allI impI)
      fix opt s s' assume "opt \<in> set opts" and s: "sound_options s" "opt s = Ok s'"
      from subsetD [OF assms(2) this(1)] s show "sound_options s'" by (rule option_sound)
    qed
  qed (simp add: sound_options_def)
qed

section \<open>Order\<close>

text \<open>
  What the node promises: a hash it gives for a height is the hash of a block of that height, and
  heights stay far from the end of their type.
\<close>

definition honest :: "node \<Rightarrow> bool" where
  "honest N \<longleftrightarrow> (\<forall>h hash. node_hash N h hash \<longrightarrow> bh_Height (node_block N hash) = h \<and> 0 \<le> h \<and> h < 2 ^ 62)"

definition known :: "node \<Rightarrow> bytes \<Rightarrow> bool" where
  "known N hash \<longleftrightarrow> node_hash N (bh_Height (node_block N hash)) hash"

text \<open>A block the node has given for a height.\<close>

definition block_at :: "node \<Rightarrow> int \<Rightarrow> block \<Rightarrow> bool" where
  "block_at N h b \<longleftrightarrow> (\<exists>hash. node_hash N h hash \<and> b = node_block N hash)"

fun worker_ok :: "node \<Rightarrow> worker_phase \<Rightarrow> bool" where
  "worker_ok N (WSelect hash) \<longleftrightarrow> known N hash"
| "worker_ok N (WFetch hash) \<longleftrightarrow> known N hash"
| "worker_ok N (WLock b) \<longleftrightarrow> block_at N (bh_Height b) b"
| "worker_ok N WSend \<longleftrightarrow> True"

definition sent :: "iter \<Rightarrow> block list" where
  "sent s = consumed s @ downloadedBlocks s"

definition order_inv :: "node \<Rightarrow> int \<Rightarrow> iter \<Rightarrow> bool" where
  "order_inv N h0 s \<longleftrightarrow>
     (\<forall>hash. headers s = HSend hash \<longrightarrow> known N hash) \<and> (\<forall>hash \<in> set (blockHashes s). known N hash) \<and>
     (\<forall>hash. dispatcher s = DAcquire hash \<longrightarrow> known N hash) \<and> (\<forall>w \<in> set (workers s). worker_ok N w) \<and>
     (\<forall>h b. orderingBlocks s h = Some b \<longrightarrow> block_at N h b) \<and>
     expectedNextBlockHeightToSend s = h0 + int (length (sent s)) \<and>
     (\<forall>i < length (sent s). block_at N (h0 + int i) (sent s ! i))"

lemma known_answer: "honest N \<Longrightarrow> node_hash N h hash \<Longrightarrow> known N hash"
  by (auto simp: honest_def known_def)

lemma known_block: "known N hash \<Longrightarrow> block_at N (bh_Height (node_block N hash)) (node_block N hash)"
  by (auto simp: known_def block_at_def)

lemma block_at_height: "honest N \<Longrightarrow> block_at N h b \<Longrightarrow> bh_Height b = h \<and> 0 \<le> h \<and> h < 2 ^ 62"
  by (auto simp: block_at_def honest_def)

lemma order_inv_step:
  assumes "honest N" and "order_inv N h0 s" and "iter_step opts N a s = Some s'"
  shows "order_inv N h0 s'"
  using assms(3)
proof (cases rule: iter_step_cases)
  case (header answer)
  from header(2) assms(1,2) show ?thesis
    by (cases rule: header_cases) (auto simp: order_inv_def sent_def known_answer)
next
  case dispatch
  from dispatch(2) assms(2) show ?thesis by (cases rule: dispatch_cases) (auto simp: order_inv_def sent_def)
next
  case (worker i ok)
  from worker(2) show ?thesis
  proof (cases rule: worker_step_cases)
    case (store us b vs)
    with assms(2) show ?thesis by (auto simp: order_inv_def sent_def)
  next
    case (send us b vs)
    let ?e = "expectedNextBlockHeightToSend s"
    have b: "block_at N ?e b" and e: "?e = h0 + int (length (sent s))" using assms(2) send(2) by (auto simp: order_inv_def)
    have h: "bh_Height b = ?e" "int64_range (?e + 1)" using block_at_height [OF assms(1) b] by (auto simp: int64_range_def)
    have "sent s' = sent s @ [b]" by (simp add: send sent_def)
    moreover have "expectedNextBlockHeightToSend s' = h0 + int (length (sent s @ [b]))" using h e by (simp add: send)
    moreover have "block_at N (h0 + int i) ((sent s @ [b]) ! i)" if "i < length (sent s @ [b])" for i
      using that assms(2) b e by (auto simp: order_inv_def nth_append less_Suc_eq)
    ultimately show ?thesis using assms(2) by (simp add: order_inv_def send)
  qed (use assms(2) known_block in \<open>auto simp: order_inv_def sent_def\<close>)
next
  case (consume b bs)
  then have "sent s' = sent s" by (simp add: sent_def)
  with assms(2) consume show ?thesis by (simp add: order_inv_def)
qed (use assms(2) in \<open>simp add: order_inv_def sent_def\<close>)

lemma order_inv_run:
  assumes "honest N" and "iter_run opts N as (iter_init h0) = Some s"
  shows "order_inv N h0 s"
proof (rule iter_run_induct [OF assms(2)])
  show "order_inv N h0 (iter_init h0)" by (simp add: order_inv_def iter_init_def sent_def)
qed (rule order_inv_step [OF assms(1)])

section \<open>Nothing is lost\<close>

definition hash_height :: "node \<Rightarrow> bytes \<Rightarrow> int" where
  "hash_height N hash = bh_Height (node_block N hash)"

fun worker_heights :: "node \<Rightarrow> worker_phase \<Rightarrow> int set" where
  "worker_heights N (WSelect hash) = {hash_height N hash}"
| "worker_heights N (WFetch hash) = {hash_height N hash}"
| "worker_heights N (WLock b) = {bh_Height b}"
| "worker_heights N WSend = {}"

text \<open>The heights on their way: in a channel, or held by a goroutine.\<close>

definition in_flight :: "node \<Rightarrow> iter \<Rightarrow> int set" where
  "in_flight N s =
     (case headers s of HSend hash \<Rightarrow> {hash_height N hash} | _ \<Rightarrow> {}) \<union> hash_height N ` set (blockHashes s) \<union>
     (case dispatcher s of DAcquire hash \<Rightarrow> {hash_height N hash} | _ \<Rightarrow> {}) \<union> \<Union> (worker_heights N ` set (workers s))"

text \<open>The invariant of the goroutines while the context lives.\<close>

definition live_inv :: "iter_options \<Rightarrow> node \<Rightarrow> int \<Rightarrow> iter \<Rightarrow> bool" where
  "live_inv opts N h0 s \<longleftrightarrow>
     \<not> send_on_closed s \<and> headers s \<noteq> HDone \<and> dispatcher s \<noteq> DDone \<and>
     semaphore_c s = length (workers s) \<and> count_list (workers s) WSend = (if mx_locked s then 1 else 0) \<and>
     (\<not> mx_locked s \<longrightarrow> orderingBlocks s (expectedNextBlockHeightToSend s) = None) \<and>
     finite (dom (orderingBlocks s)) \<and> h0 \<le> currentBlockHeight s \<and>
     (currentBlockHeight s = h0 \<or> currentBlockHeight s \<le> 2 ^ 62) \<and>
     (\<forall>h. h0 \<le> h \<and> h < currentBlockHeight s \<longrightarrow>
        h \<in> in_flight N s \<or> h \<in> dom (orderingBlocks s) \<or> h < expectedNextBlockHeightToSend s)"

lemma live_inv_init: "live_inv opts N h0 (iter_init h0)"
  by (simp add: live_inv_def iter_init_def in_flight_def)

lemma live_inv_step:
  assumes h: "honest N" and o: "order_inv N h0 s" and l: "live_inv opts N h0 s"
    and st: "iter_step opts N a s = Some s'" and c: "\<not> cancelled s'"
  shows "live_inv opts N h0 s'"
  using st
proof (cases rule: iter_step_cases)
  case (header answer)
  from header(2) show ?thesis
  proof (cases rule: header_cases)
    case (got hash)
    let ?h = "currentBlockHeight s"
    have g: "hash_height N hash = ?h" "0 \<le> ?h" "?h < 2 ^ 62"
      using h got(3) by (auto simp: honest_def hash_height_def)
    then have w: "currentBlockHeight s' = ?h + 1" by (simp add: got int64_range_def)
    have "in_flight N s' = insert ?h (in_flight N s)" using got(1) by (auto simp: got(4) in_flight_def g(1))
    then show ?thesis using l w g(2,3) by (auto simp: live_inv_def got(4))
  next
    case (push hash)
    then have "in_flight N s' = in_flight N s" by (auto simp: in_flight_def)
    then show ?thesis using l push by (simp add: live_inv_def)
  qed (use l c in \<open>auto simp: live_inv_def in_flight_def\<close>)
next
  case dispatch
  from dispatch(2) show ?thesis
  proof (cases rule: dispatch_cases)
    case (take hash rest)
    then have "in_flight N s' = in_flight N s" by (auto simp: in_flight_def)
    then show ?thesis using l take by (simp add: live_inv_def)
  next
    case (start hash)
    then have "in_flight N s' = in_flight N s" by (auto simp: in_flight_def)
    then show ?thesis using l start by (simp add: live_inv_def)
  qed (use l in \<open>simp add: live_inv_def\<close>)
next
  case (worker i ok)
  from worker(2) show ?thesis
  proof (cases rule: worker_step_cases)
    case (fetch us hash vs)
    then have "in_flight N s' = in_flight N s" by (auto simp: in_flight_def)
    then show ?thesis using l fetch by (simp add: live_inv_def)
  next
    case (again us hash vs)
    then have "in_flight N s' = in_flight N s" by (auto simp: in_flight_def)
    then show ?thesis using l again by (simp add: live_inv_def)
  next
    case (got us hash vs)
    then have "in_flight N s' = in_flight N s" by (auto simp: in_flight_def hash_height_def)
    then show ?thesis using l got by (simp add: live_inv_def)
  next
    case (store us b vs)
    then have "in_flight N s = insert (bh_Height b) (in_flight N s')" by (auto simp: in_flight_def)
    then show ?thesis using l store by (auto simp: live_inv_def)
  next
    case (unlock us vs)
    then have "in_flight N s' = in_flight N s" by (auto simp: in_flight_def)
    then show ?thesis using l unlock by (auto simp: live_inv_def split: if_splits)
  next
    case (send us b vs)
    let ?e = "expectedNextBlockHeightToSend s"
    have b: "block_at N ?e b" using o send(2) by (auto simp: order_inv_def)
    from block_at_height [OF h b] have e: "expectedNextBlockHeightToSend s' = ?e + 1" by (auto simp: send(5) int64_range_def)
    have k: "mx_locked s" using l send(1) by (auto simp: live_inv_def split: if_splits)
    have "in_flight N s' = in_flight N s" by (simp add: send(5) in_flight_def)
    then show ?thesis using l e k by (auto simp: live_inv_def send(5))
  qed (use l c in \<open>auto simp: live_inv_def\<close>)
next
  case (consume b bs)
  then have "in_flight N s' = in_flight N s" by (simp add: in_flight_def)
  then show ?thesis using l consume by (simp add: live_inv_def)
qed (use c in simp)

lemma step_cancelled:
  assumes "iter_step opts N a s = Some s'" and "a \<noteq> Cancel"
  shows "cancelled s' = cancelled s"
  using assms(1)
proof (cases rule: iter_step_cases)
  case (header answer)
  from header(2) show ?thesis by (cases rule: header_cases) simp_all
next
  case dispatch
  from dispatch(2) show ?thesis by (cases rule: dispatch_cases) simp_all
next
  case (worker i ok)
  from worker(2) show ?thesis by (cases rule: worker_step_cases) simp_all
qed (use assms(2) in simp_all)

section \<open>Progress\<close>

text \<open>
  What is left to do for the blocks below a target height: the stages each one still has to pass. Every
  step without a failure of the node makes it smaller.
\<close>

fun worker_weight :: "worker_phase \<Rightarrow> nat" where
  "worker_weight (WSelect hash) = 7"
| "worker_weight (WFetch hash) = 6"
| "worker_weight (WLock b) = 5"
| "worker_weight WSend = 1"

definition work_left :: "int \<Rightarrow> iter \<Rightarrow> nat" where
  "work_left target s =
     12 * nat (target - currentBlockHeight s) +
     (case headers s of HSelect \<Rightarrow> 1 | HSend _ \<Rightarrow> 11 | _ \<Rightarrow> 0) + 9 * length (blockHashes s) +
     (case dispatcher s of DAcquire _ \<Rightarrow> 8 | _ \<Rightarrow> 0) + sum_list (List.map worker_weight (workers s)) +
     3 * card (dom (orderingBlocks s)) + 2 * length (downloadedBlocks s)"

definition progress :: "iter_options \<Rightarrow> node \<Rightarrow> int \<Rightarrow> iter \<Rightarrow> bool" where
  "progress opts N target s \<longleftrightarrow>
     (\<exists>a s'. a \<noteq> Cancel \<and> iter_step opts N a s = Some s' \<and> work_left target s' < work_left target s)"

lemma progressI:
  "a \<noteq> Cancel \<Longrightarrow> (case iter_step opts N a s of None \<Rightarrow> False | Some s' \<Rightarrow> work_left target s' < work_left target s) \<Longrightarrow>
    progress opts N target s"
  by (auto simp: progress_def split: option.splits)

lemma nth_split: "(us @ x # vs) ! length us = x" "take (length us) (us @ x # vs) @ drop (Suc (length us)) (us @ x # vs) = us @ vs"
    "(us @ x # vs)[length us := y] = us @ y # vs"
  by (simp_all add: nth_append)

text \<open>A worker with the mutex can always move: it has room to send, or unlocks.\<close>

lemma sender_progress:
  assumes "live_inv opts N h0 s" and "mx_locked s" and "downloadedBlocks s = []" and "sound_options opts"
  shows "progress opts N target s"
proof -
  have "count_list (workers s) WSend = 1" using assms(1,2) by (simp add: live_inv_def)
  then have "WSend \<in> set (workers s)" using count_notin [of WSend "workers s"] by (cases "WSend \<in> set (workers s)") simp_all
  then obtain us vs where w: "workers s = us @ WSend # vs" by (meson split_list)
  note live = assms(1) [unfolded live_inv_def]
  show ?thesis
  proof (cases "orderingBlocks s (expectedNextBlockHeightToSend s)")
    case None
    then show ?thesis using live
      by (intro progressI [where a = "Worker (length us) True"])
        (simp_all add: worker_step_def w nth_split send_round_def Release_def remove_worker_def work_left_def)
  next
    case (Some b)
    let ?O = "orderingBlocks s" and ?e = "expectedNextBlockHeightToSend s"
    have "?e \<in> dom ?O" using Some by auto
    then have "card (dom ?O - {?e}) < card (dom ?O)" using live by (intro card_Diff1_less) auto
    moreover have "0 < concurrentBlocksDownloadLimit opts" using assms(4) by (simp add: sound_options_def)
    ultimately show ?thesis using live Some assms(3)
      by (intro progressI [where a = "Worker (length us) True"])
        (simp_all add: worker_step_def w nth_split send_round_def work_left_def)
  qed
qed

lemma worker_progress:
  assumes "live_inv opts N h0 s" and "\<not> cancelled s" and "\<not> mx_locked s" and "workers s \<noteq> []"
  shows "progress opts N target s"
proof -
  obtain w vs where w: "workers s = w # vs" using assms(4) by (cases "workers s") auto
  note live = assms(1) [unfolded live_inv_def]
  show ?thesis
  proof (cases w)
    case (WSelect hash)
    then show ?thesis using live assms(2)
      by (intro progressI [where a = "Worker 0 True"]) (simp_all add: worker_step_def w work_left_def)
  next
    case (WFetch hash)
    then show ?thesis using live
      by (intro progressI [where a = "Worker 0 True"]) (simp_all add: worker_step_def w work_left_def)
  next
    case (WLock b)
    have "card (insert (bh_Height b) (dom (orderingBlocks s))) \<le> Suc (card (dom (orderingBlocks s)))"
      using live by (simp add: card_insert_if)
    then show ?thesis using WLock live assms(3)
      by (intro progressI [where a = "Worker 0 True"]) (simp_all add: worker_step_def w work_left_def)
  next
    case WSend
    then show ?thesis using live assms(3) w by (simp split: if_splits)
  qed
qed

lemma idle_progress:
  assumes l: "live_inv opts N h0 s" and c: "\<not> cancelled s" and w: "workers s = []" and so: "sound_options opts"
    and n: "currentBlockHeight s < target \<longrightarrow> (\<exists>hash. node_hash N (currentBlockHeight s) hash)" and h: "honest N"
    and busy: "in_flight N s \<noteq> {} \<or> currentBlockHeight s < target"
  shows "progress opts N target s"
proof -
  note live = l [unfolded live_inv_def]
  have opts: "0 < concurrentBlocksDownloadLimit opts" "0 < blockHeadersBufferSize opts" using so by (simp_all add: sound_options_def)
  consider (acquire) hash where "dispatcher s = DAcquire hash"
    | (recv) hash rest where "dispatcher s = DRecv" "blockHashes s = hash # rest"
    | (send) hash where "dispatcher s = DRecv" "blockHashes s = []" "headers s = HSend hash"
    | (ask) "headers s = HSelect" "currentBlockHeight s < target"
    | (wait) "headers s = HFetch" "currentBlockHeight s < target"
    using live busy w by (cases "dispatcher s"; cases "blockHashes s"; cases "headers s") (auto simp: in_flight_def)
  then show ?thesis
  proof cases
    case acquire
    then show ?thesis using live w opts
      by (intro progressI [where a = Dispatch]) (simp_all add: dispatch_def Acquire_def work_left_def)
  next
    case recv
    then show ?thesis using live
      by (intro progressI [where a = Dispatch]) (simp_all add: dispatch_def work_left_def)
  next
    case send
    then show ?thesis using live opts
      by (intro progressI [where a = "Header None"]) (simp_all add: downloadBlockHeaders_def work_left_def)
  next
    case ask
    then show ?thesis using live c
      by (intro progressI [where a = "Header None"]) (simp_all add: downloadBlockHeaders_def work_left_def)
  next
    case wait
    then obtain hash where g: "node_hash N (currentBlockHeight s) hash" using n by blast
    have "wrap64 (currentBlockHeight s + 1) = currentBlockHeight s + 1"
    proof (rule wrap64_id)
      have "0 \<le> currentBlockHeight s \<and> currentBlockHeight s < 2 ^ 62" using h g unfolding honest_def by blast
      then show "int64_range (currentBlockHeight s + 1)" by (simp add: int64_range_def)
    qed
    then show ?thesis using live wait g
      by (intro progressI [where a = "Header (Some hash)"]) (auto simp: downloadBlockHeaders_def work_left_def)
  qed
qed

text \<open>Until the consumer has every block below the target, some goroutine can get on with it.\<close>

lemma live_progress:
  assumes h: "honest N" and so: "sound_options opts" and o: "order_inv N h0 s" and l: "live_inv opts N h0 s"
    and c: "\<not> cancelled s" and n: "\<forall>h. h0 \<le> h \<and> h < target \<longrightarrow> (\<exists>hash. node_hash N h hash)"
    and todo: "h0 + int (length (consumed s)) < target"
  shows "progress opts N target s"
proof (cases "downloadedBlocks s")
  case (Cons b bs)
  then show ?thesis using l unfolding live_inv_def
    by (intro progressI [where a = Consume]) (simp_all add: work_left_def)
next
  case Nil
  note live = l [unfolded live_inv_def]
  show ?thesis
  proof (cases "mx_locked s")
    case True
    then show ?thesis using sender_progress l Nil so by blast
  next
    case False
    show ?thesis
    proof (cases "workers s = []")
      case True
      have e: "expectedNextBlockHeightToSend s = h0 + int (length (consumed s))"
        using o Nil by (simp add: order_inv_def sent_def)
      have "in_flight N s \<noteq> {}" if "\<not> currentBlockHeight s < target"
      proof -
        let ?e = "expectedNextBlockHeightToSend s"
        have "h0 \<le> ?e" "?e < currentBlockHeight s" "orderingBlocks s ?e = None"
          using e todo that live False by auto
        then show ?thesis using live by fastforce
      qed
      moreover have "currentBlockHeight s < target \<longrightarrow> (\<exists>hash. node_hash N (currentBlockHeight s) hash)"
        using n live by auto
      ultimately show ?thesis using idle_progress [OF l c True so _ h] by blast
    next
      case False
      then show ?thesis using worker_progress [OF l c] \<open>\<not> mx_locked s\<close> by blast
    qed
  qed
qed

lemma delivers:
  assumes h: "honest N" and so: "sound_options opts" and o: "order_inv N h0 s" and l: "live_inv opts N h0 s"
    and c: "\<not> cancelled s" and n: "\<forall>h. h0 \<le> h \<and> h < target \<longrightarrow> (\<exists>hash. node_hash N h hash)"
  shows "\<exists>as s'. Cancel \<notin> set as \<and> iter_run opts N as s = Some s' \<and> target \<le> h0 + int (length (consumed s'))"
  using o l c
proof (induction "work_left target s" arbitrary: s rule: less_induct)
  case less
  show ?case
  proof (cases "target \<le> h0 + int (length (consumed s))")
    case True
    then show ?thesis by (intro exI [of _ "[]"] exI [of _ s]) simp
  next
    case False
    then obtain a s1 where a: "a \<noteq> Cancel" "iter_step opts N a s = Some s1" "work_left target s1 < work_left target s"
      using live_progress [OF h so less.prems n] unfolding progress_def by auto
    have c1: "\<not> cancelled s1" using step_cancelled [OF a(2,1)] less.prems(3) by simp
    from less.hyps [OF a(3) order_inv_step [OF h less.prems(1) a(2)] live_inv_step [OF h less.prems(1,2) a(2) c1] c1]
    obtain as s' where "Cancel \<notin> set as" "iter_run opts N as s1 = Some s'" "target \<le> h0 + int (length (consumed s'))" by blast
    then show ?thesis using a by (intro exI [of _ "a # as"] exI [of _ s']) simp
  qed
qed

lemma live_run:
  assumes "honest N" and "iter_run opts N as (iter_init h0) = Some s"
  shows "cancelled s \<or> live_inv opts N h0 s"
proof -
  have "order_inv N h0 s \<and> (cancelled s \<or> live_inv opts N h0 s)"
  proof (rule iter_run_induct [OF assms(2)])
    show "order_inv N h0 (iter_init h0) \<and> (cancelled (iter_init h0) \<or> live_inv opts N h0 (iter_init h0))"
      using order_inv_run [OF assms(1), of opts "[]"] live_inv_init by simp
  next
    fix a s s' assume s: "order_inv N h0 s \<and> (cancelled s \<or> live_inv opts N h0 s)" and st: "iter_step opts N a s = Some s'"
    have "cancelled s' \<or> live_inv opts N h0 s'"
    proof (cases "a = Cancel")
      case True
      then show ?thesis using st by (auto split: if_splits)
    next
      case False
      then show ?thesis using step_cancelled [OF st] s live_inv_step [OF assms(1) _ _ st] by blast
    qed
    with order_inv_step [OF assms(1) _ st] s show "order_inv N h0 s' \<and> (cancelled s' \<or> live_inv opts N h0 s')" by blast
  qed
  then show ?thesis ..
qed

section \<open>The iterator\<close>

text \<open>A node with one chain, for the examples.\<close>

definition chain_block :: "nat \<Rightarrow> bytes \<Rightarrow> block" where
  "chain_block h parent = \<lparr>bh_Hash = [of_nat h], bh_NextBlockHash = [], bh_PrevBlockHash = parent, bh_Height = int h, bk_Transactions = []\<rparr>"

definition chain_node :: "nat \<Rightarrow> node" where
  "chain_node len = \<lparr>node_hash = (\<lambda>h hash. 0 \<le> h \<and> h < int len \<and> hash = replicate (nat h) 1),
     node_block = (\<lambda>hash. chain_block (length hash) [])\<rparr>"

lemma chain_node_honest: "len < 2 ^ 62 \<Longrightarrow> honest (chain_node len)"
  by (auto simp: honest_def chain_node_def chain_block_def)

definition two_workers :: iter_options where
  "two_workers = \<lparr>concurrentBlocksDownloadLimit = 2, blockHeadersBufferSize = 1\<rparr>"

text \<open>
  C10: whatever the order of the downloads, the consumer gets the blocks of the heights from the start,
  each height once and none left out, each a block the node has given for that height; also after a
  cancellation. The goroutines send on a closed channel only after a cancellation.
\<close>

theorem iterator_in_order:
  assumes "honest N" and "iter_run opts N as (iter_init h0) = Some s"
  shows "(\<exists>hashes. consumed s = List.map (node_block N) hashes \<and>
      (\<forall>i < length hashes. node_hash N (h0 + int i) (hashes ! i) \<and> bh_Height (consumed s ! i) = h0 + int i)) \<and>
    (send_on_closed s \<longrightarrow> cancelled s)"
proof -
  let ?c = "consumed s"
  have o: "\<forall>i < length ?c. block_at N (h0 + int i) (?c ! i)"
  proof (intro allI impI)
    fix i assume i: "i < length ?c"
    then have "i < length (sent s)" "sent s ! i = ?c ! i" by (simp_all add: sent_def nth_append)
    with order_inv_run [OF assms] show "block_at N (h0 + int i) (?c ! i)" unfolding order_inv_def by metis
  qed
  define hashes where "hashes = List.map (\<lambda>i. SOME hash. node_hash N (h0 + int i) hash \<and> ?c ! i = node_block N hash) [0..<length ?c]"
  have g: "node_hash N (h0 + int i) (hashes ! i) \<and> ?c ! i = node_block N (hashes ! i)" if i: "i < length ?c" for i
  proof -
    obtain hash where "node_hash N (h0 + int i) hash \<and> ?c ! i = node_block N hash" using o i by (auto simp: block_at_def)
    from someI [where P = "\<lambda>hash. node_hash N (h0 + int i) hash \<and> ?c ! i = node_block N hash", OF this] i
    show ?thesis by (simp add: hashes_def)
  qed
  have len: "length hashes = length ?c" by (simp add: hashes_def)
  have "?c = List.map (node_block N) hashes" by (rule nth_equalityI) (simp_all add: len g)
  moreover have "bh_Height (?c ! i) = h0 + int i" if "i < length ?c" for i
    using block_at_height [OF assms(1)] o that by blast
  ultimately have "\<exists>hashes. ?c = List.map (node_block N) hashes \<and>
      (\<forall>i < length hashes. node_hash N (h0 + int i) (hashes ! i) \<and> bh_Height (?c ! i) = h0 + int i)"
    using g len by metis
  moreover have "cancelled s" if "send_on_closed s"
    using live_run [OF assms] that by (auto simp: live_inv_def)
  ultimately show ?thesis by blast
qed

text \<open>Block 1 is downloaded before block 0, and waits for it.\<close>

definition racing :: "action list" where
  "racing =
    [Header None, Header (Some []), Header None, Dispatch, Dispatch, Header None, Header (Some [1]), Header None,
     Dispatch, Dispatch, Worker 1 True, Worker 1 True, Worker 1 True, Worker 1 True,
     Worker 0 True, Worker 0 True, Worker 0 True, Worker 0 True, Consume, Worker 0 True, Consume]"

theorem iterator_in_order_witness:
  "\<exists>s. iter_run two_workers (chain_node 2) racing (iter_init 0) = Some s \<and> length (consumed s) = 2 \<and>
     bh_Height (consumed s ! 1) = 1 \<and> \<not> send_on_closed s"
proof -
  have "map_option (\<lambda>s. (length (consumed s), cancelled s)) (iter_run two_workers (chain_node 2) racing (iter_init 0)) = Some (2, False)"
    by code_simp
  then obtain s where s: "iter_run two_workers (chain_node 2) racing (iter_init 0) = Some s" "length (consumed s) = 2" "\<not> cancelled s"
    by auto
  have h: "honest (chain_node 2)" by (rule chain_node_honest) simp
  from iterator_in_order [OF h s(1)] s show ?thesis by fastforce
qed

text \<open>
  C11: while the context lives the iterator never gets stuck: from every state it can reach, the
  goroutines can go on until the consumer has all blocks the node has from the start on.
\<close>

theorem iterator_delivers:
  assumes "honest N" and "buildOptions optl = Ok opts"
    and "set optl \<subseteq> range WithConcurrentBlocksDownloadLimit \<union> range WithBlockHeadersBufferSize"
    and "\<forall>i < n. \<exists>hash. node_hash N (h0 + int i) hash"
    and "iter_run opts N as (iter_init h0) = Some s" and "\<not> cancelled s"
  shows "\<exists>as' s'. Cancel \<notin> set as' \<and> iter_run opts N as' s = Some s' \<and> n \<le> length (consumed s')"
proof -
  have "\<forall>h. h0 \<le> h \<and> h < h0 + int n \<longrightarrow> (\<exists>hash. node_hash N h hash)"
  proof (intro allI impI)
    fix h assume "h0 \<le> h \<and> h < h0 + int n"
    then have "nat (h - h0) < n" "h = h0 + int (nat (h - h0))" by auto
    with assms(4) show "\<exists>hash. node_hash N h hash" by metis
  qed
  from delivers [OF assms(1) buildOptions_sound [OF assms(2,3)] order_inv_run [OF assms(1,5)] _ assms(6) this]
    live_run [OF assms(1,5)] assms(6)
  show ?thesis by auto
qed

theorem iterator_delivers_witness:
  "\<exists>as s. iter_run two_workers (chain_node 5) as (iter_init 0) = Some s \<and> 5 \<le> length (consumed s)"
proof -
  have o: "buildOptions [WithConcurrentBlocksDownloadLimit 2] = Ok two_workers"
    by (simp add: buildOptions_def WithConcurrentBlocksDownloadLimit_def two_workers_def)
  have "honest (chain_node 5)" by (rule chain_node_honest) simp
  from iterator_delivers [OF this o, of 5 0 "[]" "iter_init 0"] show ?thesis
    by (auto simp: chain_node_def iter_init_def)
qed

text \<open>
  C35: a cancellation can crash the program: a worker whose download succeeds after the dispatcher has
  closed the channel of blocks sends on the closed channel.
\<close>

theorem shutdown_can_panic:
  assumes "sound_options opts" and "node_hash N h0 hash" and "bh_Height (node_block N hash) = h0"
  shows "\<exists>as s. iter_run opts N as (iter_init h0) = Some s \<and> send_on_closed s"
proof -
  let ?as = "[Header None, Header (Some hash), Header None, Dispatch, Dispatch, Worker 0 True, Cancel, Header None, Dispatch,
    Worker 0 True, Worker 0 True, Worker 0 True]"
  have "\<exists>s. iter_run opts N ?as (iter_init h0) = Some s \<and> send_on_closed s"
    using assms by (simp add: iter_init_def downloadBlockHeaders_def dispatch_def Acquire_def worker_step_def send_round_def sound_options_def)
  then show ?thesis by blast
qed

theorem shutdown_can_panic_witness:
  "\<exists>as s. iter_run two_workers (chain_node 1) as (iter_init 0) = Some s \<and> send_on_closed s"
  by (rule shutdown_can_panic [where hash = "[]"]) (simp_all add: sound_options_def two_workers_def chain_node_def chain_block_def)

section \<open>Blocks that wait\<close>

definition waiting :: "bytes \<Rightarrow> int \<Rightarrow> nat \<Rightarrow> iter \<Rightarrow> bool" where
  "waiting hash h0 n s \<longleftrightarrow>
     headers s = HSelect \<and> currentBlockHeight s = h0 + 1 + int n \<and> blockHashes s = [] \<and> dispatcher s = DRecv \<and>
     semaphore_c s = 1 \<and> workers s = [WSelect hash] \<and> \<not> mx_locked s \<and> finite (dom (orderingBlocks s)) \<and>
     dom (orderingBlocks s) = {h0 + 1..h0 + int n} \<and>
     expectedNextBlockHeightToSend s = h0 \<and> consumed s = [] \<and> \<not> cancelled s \<and> \<not> send_on_closed s"

lemma waiting_start:
  assumes "honest N" and "sound_options opts" and "node_hash N h0 hash"
  shows "\<exists>s. iter_run opts N [Header None, Header (Some hash), Header None, Dispatch, Dispatch] (iter_init h0) = Some s \<and>
    waiting hash h0 0 s"
proof -
  have "0 \<le> h0 \<and> h0 < 2 ^ 62" using assms(1,3) unfolding honest_def by blast
  then have "wrap64 (h0 + 1) = h0 + 1" by (simp add: int64_range_def)
  then show ?thesis using assms(2,3)
    by (simp add: iter_init_def downloadBlockHeaders_def dispatch_def Acquire_def sound_options_def waiting_def)
qed

lemma waiting_more:
  assumes "honest N" and "sound_options opts" and "2 \<le> concurrentBlocksDownloadLimit opts"
    and "waiting hash h0 n s" and g: "node_hash N (h0 + 1 + int n) g"
  shows "\<exists>s'. iter_run opts N [Header None, Header (Some g), Header None, Dispatch, Dispatch,
      Worker 1 True, Worker 1 True, Worker 1 True, Worker 1 True] s = Some s' \<and> waiting hash h0 (Suc n) s'"
proof -
  let ?h = "h0 + 1 + int n"
  have h: "0 \<le> ?h \<and> ?h < 2 ^ 62 \<and> bh_Height (node_block N g) = ?h" using assms(1) g unfolding honest_def by blast
  then have "wrap64 (?h + 1) = ?h + 1" by (simp add: int64_range_def)
  moreover have "orderingBlocks s h0 = None"
  proof -
    have "h0 \<notin> dom (orderingBlocks s)" using assms(4) by (simp add: waiting_def)
    then show ?thesis by (simp add: domIff)
  qed
  moreover have "insert ?h {h0 + 1..h0 + int n} = {h0 + 1..h0 + int (Suc n)}" by auto
  ultimately show ?thesis using assms(2-5) h
    by (simp add: waiting_def downloadBlockHeaders_def dispatch_def Acquire_def sound_options_def worker_step_def send_round_def
      Release_def remove_worker_def)
qed

text \<open>
  The blocks that wait for a slow download are not bounded by the limit of concurrent downloads:
  with two places, the iterator can hold any number of them while the first block is not there yet.
\<close>

theorem iterator_buffer_unbounded:
  assumes "honest N" and "sound_options opts" and "2 \<le> concurrentBlocksDownloadLimit opts"
    and "\<forall>i \<le> n. \<exists>hash. node_hash N (h0 + int i) hash"
  shows "\<exists>as s. iter_run opts N as (iter_init h0) = Some s \<and> card (dom (orderingBlocks s)) = n \<and>
    consumed s = [] \<and> \<not> cancelled s \<and> length (workers s) = 1"
proof -
  obtain hash where hash: "node_hash N h0 hash" using spec [OF assms(4), of 0] by auto
  have "k \<le> n \<Longrightarrow> \<exists>as s. iter_run opts N as (iter_init h0) = Some s \<and> waiting hash h0 k s" for k
  proof (induction k)
    case 0
    show ?case using waiting_start [OF assms(1,2) hash] by blast
  next
    case (Suc k)
    then obtain as s where s: "iter_run opts N as (iter_init h0) = Some s" "waiting hash h0 k s" by auto
    obtain g where "node_hash N (h0 + int (Suc k)) g" using Suc.prems spec [OF assms(4), of "Suc k"] by blast
    moreover have "h0 + int (Suc k) = h0 + 1 + int k" by simp
    ultimately have "node_hash N (h0 + 1 + int k) g" by (simp only:)
    from waiting_more [OF assms(1-3) s(2) this] obtain bs s' where
      "iter_run opts N bs s = Some s'" "waiting hash h0 (Suc k) s'" by blast
    with s(1) show ?case by (intro exI [of _ "as @ bs"] exI [of _ s']) (simp add: iter_run_append)
  qed
  from this [of n] obtain as s where s: "iter_run opts N as (iter_init h0) = Some s" "waiting hash h0 n s" by blast
  have "card (dom (orderingBlocks s)) = n \<and> consumed s = [] \<and> \<not> cancelled s \<and> length (workers s) = 1"
    using s(2) by (simp add: waiting_def)
  with s(1) show ?thesis by blast
qed

theorem iterator_buffer_unbounded_witness:
  "\<exists>as s. iter_run two_workers (chain_node 101) as (iter_init 0) = Some s \<and> card (dom (orderingBlocks s)) = 100 \<and> consumed s = []"
proof -
  have "honest (chain_node 101)" by (rule chain_node_honest) simp
  from iterator_buffer_unbounded [OF this, of two_workers 100 0] show ?thesis
    by (auto simp: sound_options_def two_workers_def chain_node_def)
qed

text \<open>
  A reorganisation between two answers: the block of height 1 is not a child of the one of height 0
  that was delivered. Neither the iterator nor the indexer compares the parent's hash.
\<close>

definition reorg_node :: node where
  "reorg_node = \<lparr>node_hash = (\<lambda>h hash. hash = [of_int h] \<and> (h = 0 \<or> h = 1)),
     node_block = (\<lambda>hash. if hash = [0] then chain_block 0 [] else chain_block 1 [7])\<rparr>"

lemma reorg_not_linked:
  "map_option (\<lambda>s. (List.map bh_Hash (consumed s), List.map bh_PrevBlockHash (consumed s)))
     (iter_run two_workers reorg_node
       [Header None, Header (Some [0]), Header None, Dispatch, Dispatch, Header None, Header (Some [1]), Header None,
        Dispatch, Dispatch, Worker 0 True, Worker 0 True, Worker 0 True, Worker 0 True, Worker 0 True,
        Worker 0 True, Worker 0 True, Worker 0 True, Worker 0 True, Consume, Consume] (iter_init 0)) =
   Some ([[0], [1]], [[], [7]])"
  by code_simp

end
