(* ===== verification/Redis_Driver.thy ===== *)
theory Redis_Driver
  imports Store_Properties
begin

text \<open>
  The transactions over Redis (\<^verbatim>\<open>transactionmanager/drivers/redis\<close>): the driver keeps the callback of
  \<open>Watch\<close> open in a goroutine while the pipeline is filled, and lets it return when the transaction is
  committed, rolled back or its context ends. The operations of go-redis are parameters; what they
  document is the locale \<open>go_redis\<close>, and the driver over them is shown to keep the laws of the
  transactions the store was verified against.
\<close>

section \<open>Settings\<close>

record redis_settings =
  watchKeys :: "string list"

definition WithWatchKeys :: "string list \<Rightarrow> redis_settings \<Rightarrow> redis_settings" where
  "WithWatchKeys keys s = s\<lparr>watchKeys := keys\<rparr>"

definition NewSettings :: "(redis_settings \<Rightarrow> redis_settings) list \<Rightarrow> redis_settings" where
  "NewSettings opts = foldl (\<lambda>s opt. opt s) \<lparr>watchKeys = []\<rparr> opts"

section \<open>go-redis\<close>

text \<open>
  \<open>ga_Watch\<close>: the connection watches the keys and hands out the pipeline of the transaction, or \<open>Watch\<close>
  fails before its callback runs. \<open>ga_Exec\<close> and \<open>ga_Discard\<close> are those of the pipeline.
\<close>

record ('w, 'raw, 'p) go_redis_api =
  ga_Watch :: "string list \<Rightarrow> ('w, 'p) st"
  ga_Exec :: "'p \<Rightarrow> ('w, unit) st"
  ga_Discard :: "'p \<Rightarrow> 'w \<Rightarrow> 'w"
  ga_pipe :: "'p \<Rightarrow> ('w, 'raw) cmdable"

section \<open>Transactions\<close>

text \<open>
  A transaction runs until its \<open>closure\<close> is closed, with or without a cause; then the callback of
  \<open>TxPipelined\<close> returns that cause, without one the pipeline is executed, and \<open>closed\<close> gets the result.
  The goroutine that does this is taken to run at once. The transactions live in the world; one is its
  number and its pipeline.
\<close>

datatype tx_phase = Running | Ended "go_error option" "go_error option"

record 'w rworld =
  rw_server :: 'w
  rw_next :: nat
  rw_tx :: "nat \<Rightarrow> tx_phase"

type_synonym 'p rtx = "nat \<times> 'p"

definition on_server :: "('w, 'a) st \<Rightarrow> ('w rworld, 'a) st" where
  "on_server f = (\<lambda>w. case f (rw_server w) of (r, v) \<Rightarrow> (r, w\<lparr>rw_server := v\<rparr>))"

definition NewRedisTransaction :: "('w, 'raw, 'p) go_redis_api \<Rightarrow> redis_settings \<Rightarrow> ('w rworld, 'p rtx) st" where
  "NewRedisTransaction api settings =
     bindS (on_server (ga_Watch api (watchKeys settings))) (\<lambda>p w.
       (Ok (rw_next w, p), w\<lparr>rw_next := Suc (rw_next w), rw_tx := (rw_tx w)(rw_next w := Running)\<rparr>))"

definition error_of :: "'a outcome \<Rightarrow> go_error option" where
  "error_of r = (case r of Err e \<Rightarrow> Some e | _ \<Rightarrow> None)"

definition result_of :: "go_error option \<Rightarrow> unit outcome" where
  "result_of e = (case e of None \<Rightarrow> Ok () | Some e \<Rightarrow> Err e)"

text \<open>Closing \<open>closure\<close>, and what the goroutine of \<open>Watch\<close> does then; the result is that of \<open>closed\<close>.\<close>

definition close_closure :: "('w, 'raw, 'p) go_redis_api \<Rightarrow> 'p rtx \<Rightarrow> go_error option \<Rightarrow> 'w rworld \<Rightarrow> unit outcome \<times> 'w rworld" where
  "close_closure api tx cause w =
     (case cause of
        Some err \<Rightarrow> (Err err, w\<lparr>rw_tx := (rw_tx w)(fst tx := Ended (Some err) (Some err))\<rparr>)
      | None \<Rightarrow>
          (case ga_Exec api (snd tx) (rw_server w) of (r, v) \<Rightarrow>
             (result_of (error_of r), w\<lparr>rw_server := v, rw_tx := (rw_tx w)(fst tx := Ended None (error_of r))\<rparr>)))"

text \<open>\<open>awaitDone\<close> when the context ends: \<open>closure\<close> is closed without a cause.\<close>

definition awaitDone :: "('w, 'raw, 'p) go_redis_api \<Rightarrow> 'p rtx \<Rightarrow> 'w rworld \<Rightarrow> 'w rworld" where
  "awaitDone api tx w = (case rw_tx w (fst tx) of Running \<Rightarrow> snd (close_closure api tx None w) | _ \<Rightarrow> w)"

definition RedisTransaction_Commit :: "('w, 'raw, 'p) go_redis_api \<Rightarrow> 'p rtx \<Rightarrow> ('w rworld, unit) st" where
  "RedisTransaction_Commit api tx = (\<lambda>w.
     case rw_tx w (fst tx) of
       Ended _ _ \<Rightarrow> on_server (ga_Exec api (snd tx)) w
     | Running \<Rightarrow> close_closure api tx None w)"

definition RedisTransaction_Rollback :: "('w, 'raw, 'p) go_redis_api \<Rightarrow> 'p rtx \<Rightarrow> ('w rworld, unit) st" where
  "RedisTransaction_Rollback api tx = (\<lambda>w.
     case rw_tx w (fst tx) of
       Ended _ _ \<Rightarrow> (Ok (), w\<lparr>rw_server := ga_Discard api (snd tx) (rw_server w)\<rparr>)
     | Running \<Rightarrow>
         (case close_closure api tx (Some ErrRollback) w of
            (Err err, w') \<Rightarrow> (if errors_is err ErrRollback then Ok () else Err err, w')
          | r \<Rightarrow> r))"

text \<open>\<open>Transaction()\<close>: the pipeline, as a client.\<close>

definition lift_cmdable :: "('w, 'raw) cmdable \<Rightarrow> ('w rworld, 'raw) cmdable" where
  "lift_cmdable c =
     \<lparr>r_Get = (\<lambda>k. on_server (r_Get c k)), r_MGet = (\<lambda>ks. on_server (r_MGet c ks)),
      r_Set = (\<lambda>k v. on_server (r_Set c k v)), r_Del = (\<lambda>k. on_server (r_Del c k)),
      r_SAdd = (\<lambda>k xs. on_server (r_SAdd c k xs)), r_SRem = (\<lambda>k xs. on_server (r_SRem c k xs)),
      r_SMembers = (\<lambda>k. on_server (r_SMembers c k)), r_Scan = (\<lambda>m. on_server (r_Scan c m)),
      r_FlushAll = on_server (r_FlushAll c)\<rparr>"

definition RedisTransaction_Transaction :: "('w, 'raw, 'p) go_redis_api \<Rightarrow> 'p rtx \<Rightarrow> ('w rworld, 'raw) cmdable" where
  "RedisTransaction_Transaction api tx = lift_cmdable (ga_pipe api (snd tx))"

text \<open>The factory: settings of another type, or none, mean no watched keys.\<close>

definition NewRedisTransactionFactory :: "('w, 'raw, 'p) go_redis_api \<Rightarrow> redis_settings option \<Rightarrow> ('w rworld, 'p rtx) st" where
  "NewRedisTransactionFactory api settings =
     wrapS ''failed to open transaction''
       (NewRedisTransaction api (case settings of Some s \<Rightarrow> s | None \<Rightarrow> NewSettings []))"

definition redis_driver :: "('w, 'raw, 'p) go_redis_api \<Rightarrow> ('w rworld, 'p rtx) tx_driver" where
  "redis_driver api =
     \<lparr>tx_Begin = (\<lambda>keys. NewRedisTransactionFactory api (map_option (\<lambda>ks. NewSettings [WithWatchKeys ks]) keys)),
      tx_Commit = RedisTransaction_Commit api, tx_Rollback = RedisTransaction_Rollback api\<rparr>"

section \<open>What go-redis documents\<close>

text \<open>
  A pipeline queues its commands on the client; \<open>Exec\<close> empties it and runs them as one unit or not at
  all; on an empty pipeline it does nothing and succeeds.
\<close>

locale go_redis = codec_laws cdc
  for cdc :: "'raw codec" +
  fixes api :: "('w, 'raw, 'p) go_redis_api" and rk :: "'w \<Rightarrow> 'raw kspace" and ck :: "'w \<Rightarrow> 'r"
    and cmds :: "'w \<Rightarrow> 'p \<Rightarrow> 'raw rcmd list"
  assumes Watch_frame: "ga_Watch api keys w = (b, w') \<Longrightarrow> rk w' = rk w \<and> ck w' = ck w \<and> b \<noteq> Panic"
    and Watch_empty: "ga_Watch api keys w = (Ok p, w') \<Longrightarrow> cmds w' p = []"
    and Exec_frame: "ga_Exec api p w = (r, w') \<Longrightarrow> ck w' = ck w \<and> r \<noteq> Panic \<and> cmds w' p = []"
    and Exec_Ok: "ga_Exec api p w = (Ok (), w') \<Longrightarrow> rk w' = rrun (cmds w p) (rk w)"
    and Exec_unit: "ga_Exec api p w = (r, w') \<Longrightarrow> rk w' = rk w \<or> rk w' = rrun (cmds w p) (rk w)"
    and Exec_empty: "cmds w p = [] \<Longrightarrow> ga_Exec api p w = (Ok (), w)"
    and Discard_frame: "rk (ga_Discard api p w) = rk w" "ck (ga_Discard api p w) = ck w"
    and pipe_set: "rqueues rk ck cmds p (r_Set (ga_pipe api p) k raw) (RCSet k raw)"
    and pipe_del: "rqueues rk ck cmds p (r_Del (ga_pipe api p) k) (RCDel k)"
    and pipe_sadd: "rqueues rk ck cmds p (r_SAdd (ga_pipe api p) k xs) (RCAdd k xs)"
    and pipe_srem: "rqueues rk ck cmds p (r_SRem (ga_pipe api p) k xs) (RCRem k xs)"

lemma on_server_iff: "on_server f w = (r, w') \<longleftrightarrow> (\<exists>v. f (rw_server w) = (r, v) \<and> w' = w\<lparr>rw_server := v\<rparr>)"
  by (auto simp: on_server_def split: prod.splits)

lemma on_server_queues:
  assumes "rqueues rk ck cmds (snd tx) f c"
  shows "rqueues (\<lambda>w. rk (rw_server w)) (\<lambda>w. ck (rw_server w)) (\<lambda>w tx. cmds (rw_server w) (snd tx)) tx (on_server f) c"
  unfolding rqueues_def
proof
  fix w :: "'a rworld"
  obtain v where "f (rw_server w) = (Ok (), v)" "rk v = rk (rw_server w)" "ck v = ck (rw_server w)"
    "cmds v (snd tx) = cmds (rw_server w) (snd tx) @ [c]" using assms unfolding rqueues_def by blast
  then show "\<exists>w'. on_server f w = (Ok (), w') \<and> rk (rw_server w') = rk (rw_server w) \<and>
      ck (rw_server w') = ck (rw_server w) \<and> cmds (rw_server w') (snd tx) = cmds (rw_server w) (snd tx) @ [c]"
    by (simp add: on_server_def)
qed

lemma redis_driver_sel [simp]:
  "tx_Commit (redis_driver api) = RedisTransaction_Commit api" "tx_Rollback (redis_driver api) = RedisTransaction_Rollback api"
  by (simp_all add: redis_driver_def)

context go_redis
begin

lemma Begin_outcome:
  assumes "tx_Begin (redis_driver api) keys w = (b, w')"
  shows "rk (rw_server w') = rk (rw_server w) \<and> ck (rw_server w') = ck (rw_server w) \<and> b \<noteq> Panic \<and>
    (\<forall>tx. b = Ok tx \<longrightarrow> cmds (rw_server w') (snd tx) = [] \<and> rw_tx w' (fst tx) = Running)"
proof -
  obtain s q where q: "NewRedisTransaction api s w = (q, w')" "b = wrapO ''failed to open transaction'' q"
    using assms by (auto simp: redis_driver_def NewRedisTransactionFactory_def wrapS_def split: prod.splits)
  from q(1) show ?thesis unfolding NewRedisTransaction_def
    by (cases rule: bindS_cases) (use q(2) in \<open>auto simp: on_server_iff dest: Watch_frame Watch_empty\<close>)
qed

lemma Exec_outcome:
  assumes "ga_Exec api p v = (r, v')"
  shows "ck v' = ck v \<and> r \<noteq> Panic \<and> cmds v' p = [] \<and> (r = Ok () \<longrightarrow> rk v' = rrun (cmds v p) (rk v)) \<and>
    (rk v' = rk v \<or> rk v' = rrun (cmds v p) (rk v))"
  using Exec_frame [OF assms] Exec_Ok [of p v v'] Exec_unit [OF assms] assms by auto

lemma result_error [simp]: "r \<noteq> Panic \<Longrightarrow> result_of (error_of r) = r" for r :: "unit outcome"
  by (cases r) (simp_all add: result_of_def error_of_def)

lemma Commit_outcome:
  assumes "RedisTransaction_Commit api tx w = (r, w')"
  shows "ck (rw_server w') = ck (rw_server w) \<and> r \<noteq> Panic \<and>
    (r = Ok () \<longrightarrow> rk (rw_server w') = rrun (cmds (rw_server w) (snd tx)) (rk (rw_server w))) \<and>
    (rk (rw_server w') = rk (rw_server w) \<or> rk (rw_server w') = rrun (cmds (rw_server w) (snd tx)) (rk (rw_server w)))"
proof -
  obtain q v where q: "ga_Exec api (snd tx) (rw_server w) = (q, v)" by fastforce
  from Exec_outcome [OF q] have "r = q" "rw_server w' = v"
    using assms q by (auto simp: RedisTransaction_Commit_def close_closure_def on_server_iff split: tx_phase.splits)
  with Exec_outcome [OF q] show ?thesis by simp
qed

lemma Rollback_outcome:
  assumes "RedisTransaction_Rollback api tx w = (r, w')"
  shows "rk (rw_server w') = rk (rw_server w) \<and> ck (rw_server w') = ck (rw_server w) \<and> r = Ok ()"
  using assms Discard_frame by (auto simp: RedisTransaction_Rollback_def close_closure_def split: tx_phase.splits)

end

sublocale go_redis \<subseteq> driver: redis_tx cdc "redis_driver api" "RedisTransaction_Transaction api" "\<lambda>w. rk (rw_server w)"
  "\<lambda>w. ck (rw_server w)" "\<lambda>w tx. cmds (rw_server w) (snd tx)"
proof (unfold_locales, goal_cases)
  case (7 tx k raw)
  show ?case using on_server_queues [OF pipe_set] by (simp add: RedisTransaction_Transaction_def lift_cmdable_def)
next
  case (8 tx k)
  show ?case using on_server_queues [OF pipe_del] by (simp add: RedisTransaction_Transaction_def lift_cmdable_def)
next
  case (9 tx k xs)
  show ?case using on_server_queues [OF pipe_sadd] by (simp add: RedisTransaction_Transaction_def lift_cmdable_def)
next
  case (10 tx k xs)
  show ?case using on_server_queues [OF pipe_srem] by (simp add: RedisTransaction_Transaction_def lift_cmdable_def)
qed (auto dest: Begin_outcome Commit_outcome Rollback_outcome)

section \<open>The program as it is wired\<close>

text \<open>
  The client of the store, the driver and the checkpoint file over one server and file system: what
  the store was verified against holds of it.
\<close>

definition lift_files :: "('w, 'f) file_ops \<Rightarrow> ('w rworld, 'f) file_ops" where
  "lift_files os =
     \<lparr>os_ReadFile = on_server (os_ReadFile os), os_WriteFile = (\<lambda>raw. on_server (os_WriteFile os raw)),
      os_Remove = on_server (os_Remove os)\<rparr>"

definition wired_store :: "('w, 'raw) cmdable \<Rightarrow> 'raw codec \<Rightarrow> ('w, 'raw, 'p) go_redis_api \<Rightarrow> ('w, 'f) file_ops \<Rightarrow>
    'f checkpoint_codec \<Rightarrow> string \<Rightarrow> ('w rworld, 'p rtx) utxo_store" where
  "wired_store cl cdc api os mp ver =
     redis_utxo_store (lift_cmdable cl) cdc (RedisTransaction_Transaction api) (redis_driver api) (lift_files os) mp ver"

lemma on_server_rapplies:
  assumes "rapplies rk ck f c"
  shows "rapplies (\<lambda>w. rk (rw_server w)) (\<lambda>w. ck (rw_server w)) (on_server f) c"
  using assms unfolding rapplies_def on_server_iff by fastforce

locale wired =
  redis_client cdc cl rk "\<lambda>w. file_view mp (fc w)" + go_redis cdc api rk "\<lambda>w. file_view mp (fc w)" cmds +
  os_files os mp fc "\<lambda>w. view cdc (rk w)"
  for cdc :: "'raw codec" and cl :: "('w, 'raw) cmdable" and rk :: "'w \<Rightarrow> 'raw kspace"
    and api :: "('w, 'raw, 'p) go_redis_api" and cmds :: "'w \<Rightarrow> 'p \<Rightarrow> 'raw rcmd list"
    and os :: "('w, 'f) file_ops" and mp :: "'f checkpoint_codec" and fc :: "'w \<Rightarrow> 'f option"
begin

lemma lifted_client: "redis_client cdc (lift_cmdable cl) (\<lambda>w. rk (rw_server w)) (\<lambda>w. file_view mp (fc (rw_server w)))"
proof (unfold_locales, goal_cases)
  case (7 k raw)
  show ?case using on_server_rapplies [OF SET] by (simp add: lift_cmdable_def)
next
  case (8 k)
  show ?case using on_server_rapplies [OF DEL] by (simp add: lift_cmdable_def)
next
  case (9 k xs)
  show ?case using on_server_rapplies [OF SADD] by (simp add: lift_cmdable_def)
next
  case (10 k xs)
  show ?case using on_server_rapplies [OF SREM] by (simp add: lift_cmdable_def)
qed (auto simp: lift_cmdable_def on_server_iff dest: GET_frame GET_Ok GET_Nil GET_error SMEMBERS_frame SMEMBERS_Ok)

lemma lifted_files: "os_files (lift_files os) mp (\<lambda>w. fc (rw_server w)) (\<lambda>w. view cdc (rk (rw_server w)))"
proof (unfold_locales, goal_cases)
  case (9 raw w e w')
  then show ?case using Write_Err by (simp add: lift_files_def on_server_iff) fastforce
qed (auto simp: lift_files_def on_server_iff mp_Marshal_no_panic mp_Unmarshal_no_panic mp_roundtrip
  dest: Read_frame Read_Ok Read_NotExist Write_frame Write_Ok Remove_frame Remove_Ok Remove_NotExist Remove_Err)

end

sublocale wired \<subseteq> deployed: deployment cdc "lift_cmdable cl" "\<lambda>w. rk (rw_server w)" "redis_driver api"
  "RedisTransaction_Transaction api" "\<lambda>w tx. cmds (rw_server w) (snd tx)" "lift_files os" mp "\<lambda>w. fc (rw_server w)"
  by (intro deployment.intro lifted_client lifted_files driver.redis_tx_axioms)

context wired
begin

lemma store_backend: "utxo_backend (wired_store cl cdc api os mp ver) (redis_driver api) (\<lambda>w. view cdc (rk (rw_server w)))
    (\<lambda>w. file_view mp (fc (rw_server w))) (\<lambda>w tx. List.map (view_cmd cdc) (cmds (rw_server w) (snd tx)))"
  unfolding wired_store_def by (rule deployed.backend.utxo_backend_axioms)

end

section \<open>The server of the examples\<close>

definition sim_api :: "(sim, govalue, unit) go_redis_api" where
  "sim_api =
     \<lparr>ga_Watch = (\<lambda>keys. sim_op (\<lambda>w. (Ok (), w\<lparr>sim_queue := []\<rparr>))),
      ga_Exec = (\<lambda>p w. if sim_queue w = [] then (Ok (), w)
         else (case tx_Commit sim_driver p w of (r, w') \<Rightarrow> (r, w'\<lparr>sim_queue := []\<rparr>))),
      ga_Discard = (\<lambda>p w. w\<lparr>sim_queue := []\<rparr>), ga_pipe = sim_pipe\<rparr>"

interpretation sim_wired: wired sim_codec sim_client "\<lambda>w. sim_space (sim_keys w)" sim_api "\<lambda>w p. sim_queue w" sim_os sim_mp sim_file
proof (intro wired.intro go_redis.intro go_redis_axioms.intro, goal_cases)
  case 1
  show ?case by (rule sim.redis_client_axioms)
next
  case 2
  show ?case by (rule sim_codec.codec_laws_axioms)
next
  case (5 p w r w')
  then show ?case by (auto simp: sim_api_def sim_driver_def elim!: sim_op_cases split: prod.splits if_splits)
next
  case (6 p w w')
  then show ?case by (auto simp: sim_api_def sim_driver_def sim_run_space elim!: sim_op_cases split: prod.splits if_splits)
next
  case (7 p w r w')
  then show ?case by (auto simp: sim_api_def sim_driver_def sim_run_space elim!: sim_op_cases split: prod.splits if_splits)
next
  case 15
  show ?case by (rule sim.os_files_axioms)
qed (auto simp: sim_api_def sim_pipe_def sim_queue_rqueues elim!: sim_op_cases)

section \<open>Properties\<close>



text \<open>
  C36: a context that ends while a transaction is open is no rollback: the driver executes the commands
  queued so far; when that fails the transaction counts as closed, and a later commit executes an empty
  pipeline and reports success although nothing was written.
\<close>

theorem dead_context_breaks_atomicity:
  assumes "go_redis cdc api rk ck cmds" and "rw_tx w (fst tx) = Running" and "ga_Exec api (snd tx) (rw_server w) = (r, v)"
  shows "(r = Ok () \<longrightarrow> rk (rw_server (awaitDone api tx w)) = rrun (cmds (rw_server w) (snd tx)) (rk (rw_server w))) \<and>
    (\<exists>w'. RedisTransaction_Commit api tx (awaitDone api tx w) = (Ok (), w') \<and> rk (rw_server w') = rk v)"
proof -
  have a: "awaitDone api tx w = w\<lparr>rw_server := v, rw_tx := (rw_tx w)(fst tx := Ended None (error_of r))\<rparr>"
    using assms(2,3) by (simp add: awaitDone_def close_closure_def)
  have "cmds v (snd tx) = []" using go_redis.Exec_frame [OF assms(1,3)] by simp
  then have "ga_Exec api (snd tx) v = (Ok (), v)" by (rule go_redis.Exec_empty [OF assms(1)])
  then have "RedisTransaction_Commit api tx (awaitDone api tx w) = (Ok (), awaitDone api tx w)"
    by (simp add: a RedisTransaction_Commit_def on_server_def)
  moreover have "rk (rw_server (awaitDone api tx w)) = rrun (cmds (rw_server w) (snd tx)) (rk (rw_server w))" if "r = Ok ()"
    using go_redis.Exec_Ok [OF assms(1)] assms(3) that by (simp add: a)
  ultimately show ?thesis by (simp add: a)
qed

text \<open>One command is queued, and the connection is lost when the context ends.\<close>

definition dying :: "sim rworld" where
  "dying = \<lparr>rw_server = \<lparr>sim_keys = [], sim_queue = [RCSet ''k'' (VInt64 1)], sim_file = None, sim_faults = [True]\<rparr>,
     rw_next = 1, rw_tx = (\<lambda>_. Running)\<rparr>"

theorem dead_context_breaks_atomicity_witness:
  "\<exists>w'. RedisTransaction_Commit sim_api (0, ()) (awaitDone sim_api (0, ()) dying) = (Ok (), w') \<and>
     sim_space (sim_keys (rw_server w')) = Map.empty"
proof -
  have r: "rw_tx dying (fst (0, ())) = Running" by (simp add: dying_def)
  obtain q v where q: "ga_Exec sim_api (snd (0 :: nat, ())) (rw_server dying) = (q, v)" by fastforce
  then have "sim_keys v = []" by (auto simp: sim_api_def sim_driver_def dying_def sim_op_def)
  then have "sim_space (sim_keys v) = Map.empty" by (simp add: sim_space_def fun_eq_iff)
  with dead_context_breaks_atomicity [OF sim_wired.go_redis_axioms r q] show ?thesis by auto
qed

end
