(* ===== verification/Scanner_Correct.thy ===== *)
theory Scanner_Correct
  imports Service_Properties
begin

text \<open>
  The scanner over the store: blocks that come in the order of their heights are handled one after the
  other, each retried until it succeeds. Whatever fails on the way, the store holds a prefix of them.
\<close>

section \<open>New transactions\<close>

definition block_ids :: "block \<Rightarrow> string set" where
  "block_ids b = bt_ID ` set (bk_Transactions b)"

text \<open>The transactions of the blocks are new to the store and to each other.\<close>

definition chain_fresh :: "string \<Rightarrow> block list \<Rightarrow> kstate \<Rightarrow> bool" where
  "chain_fresh v bs m \<longleftrightarrow> (\<forall>b \<in> set bs. fresh_block v b m \<and> distinct_inputs b) \<and>
     sorted_wrt (\<lambda>b c. block_ids b \<inter> block_ids c = {}) bs"

lemma made_of_fresh:
  assumes m: "made_of lib d v m b pb cp" and h: "\<And>a. holds_set m (addr_key v a)"
    and fr: "fresh_block v c m" and dj: "block_ids b \<inter> block_ids c = {}"
  shows "fresh_block v c (run (up_cmds v nb cp) m)"
  unfolding fresh_block_def
proof
  fix tx assume tx: "tx \<in> set (bk_Transactions c)"
  let ?t = "bt_ID tx" and ?m = "run (up_cmds v nb cp) m"
  note u = made_of_utxo [OF m h]
  note l = up_lookup [OF u(1) h]
  have old: "m (tx_key v ?t) = None" "\<And>a. ?t \<notin> members m (addr_key v a)" and new: "?t \<notin> block_ids b"
    using fr dj tx by (auto simp: fresh_block_def block_ids_def)
  have "map_of (TxsBeforeUpdate cp) ?t = None"
    using m old(1) unfolding made_of_def fetched_def by (metis not_None_eq)
  then have "?t \<notin> dom (map_of (NewTxOutputs cp))" using u(4) new by (auto simp: block_ids_def)
  then have "?m (tx_key v ?t) = None" using l(6) old(1) by (simp add: dom_map_of_conv_image_fst del: domIff)
  moreover have "?t \<notin> members ?m (addr_key v a)" for a
  proof -
    have "extractAddressReferencesFromOutputs lib d b = Ok (NewAddreessReferences cp)" using m by (simp add: made_of_def)
    from new_references [OF this, of ?t a] new have "?t \<notin> ids_of (NewAddreessReferences cp) a"
      unfolding block_ids_def by (metis imageI)
    with l(4) [of nb a] old(2) [of a] show ?thesis by blast
  qed
  ultimately show "?m (tx_key v ?t) = None \<and> (\<forall>a. ?t \<notin> members ?m (addr_key v a))" by blast
qed

section \<open>One attempt\<close>

context utxo_backend
begin

lemma AddFromBlock_step:
  assumes "AddFromBlock (store_service lib d dec U) b s = (r, s')"
    and ok: "store_ok lib (us_dbVer U) (ks (world s))"
  defines "v \<equiv> us_dbVer U" and "old \<equiv> ks (world s)"
  shows "ks (world s') = old \<or>
    (\<exists>n. old (height_key v) = Some (Val (VInt64 n)) \<and> bh_Height b = wrap64 (n + 1) \<and>
      (fresh_block v b old \<and> distinct_inputs b \<longrightarrow> applied lib d v b old (ks (world s'))) \<and>
      (\<forall>c. fresh_block v c old \<and> block_ids b \<inter> block_ids c = {} \<longrightarrow> fresh_block v c (ks (world s'))))"
  using assms(1)
proof (cases rule: AddFromBlock_cases)
  case (commit cp s1 q)
  have ty: "outputs_typed v old" and bs: "block_stored v old" and h: "\<And>a. holds_set old (addr_key v a)"
    using ok by (auto simp: store_ok_def index_complete_def v_def old_def)
  obtain pb where s1: "ks (world s1) = old" "isConsist s1 = isConsist s" and m: "made_of lib d v old b pb cp"
    using checkpoint_made [OF utxo_backend_axioms ty [unfolded v_def old_def] bs [unfolded v_def old_def] commit(1)]
    by (auto simp: v_def old_def)
  let ?nb = "\<lparr>cb_Height = bh_Height b, cb_Hash = hash_String (bh_Hash b)\<rparr>"
  have nb: "NewBlock cp = Some ?nb" using m by (simp add: made_of_def)
  note u = made_of_utxo [OF m h]
  note l = up_lookup [OF u(1) h]
  have "ks (world s') = old \<or> ks (world s') = run (up_cmds v ?nb cp) old"
  proof (cases "isConsist s1")
    case True
    from commit_outcome [OF commit(2) nb True] s1 show ?thesis by (auto simp: v_def)
  next
    case False
    with commit(2) s1 show ?thesis by (auto simp: CommitCheckpoint_def guarded_def failS_def)
  qed
  then show ?thesis
  proof
    assume new: "ks (world s') = run (up_cmds v ?nb cp) old"
    have "fresh_block v b old \<and> distinct_inputs b \<longrightarrow> applied lib d v b old (ks (world s'))"
      using new u(2) l(2) made_of_store_ok [OF m] ok by (simp add: applied_def v_def old_def)
    moreover have "\<exists>n. old (height_key v) = Some (Val (VInt64 n)) \<and> bh_Height b = wrap64 (n + 1)"
      using m bs by (auto simp: made_of_def block_stored_def)
    moreover have "\<forall>c. fresh_block v c old \<and> block_ids b \<inter> block_ids c = {} \<longrightarrow> fresh_block v c (ks (world s'))"
      unfolding new using made_of_fresh [OF m h] by blast
    ultimately show ?thesis by blast
  qed blast
qed (use NewCheckpoint_frame [of lib d b s _ s'] ok in \<open>auto simp: store_ok_def old_def\<close>)

end

text \<open>Handlers that only record how far the scan is.\<close>

definition keeps_store :: "('w \<Rightarrow> kstate) \<Rightarrow> (string \<Rightarrow> ('w store_state, unit) st) \<Rightarrow> bool" where
  "keeps_store ks upd \<longleftrightarrow> (\<forall>h s r s'. upd h s = (r, s') \<longrightarrow> ks (world s') = ks (world s))"

lemma handle_block_ks:
  assumes "handle_block svc upd b s = (r, s')" and "keeps_store ks upd"
  shows "\<exists>q s1. AddFromBlock svc b s = (q, s1) \<and> ks (world s') = ks (world s1)"
proof -
  obtain q s1 where a: "AddFromBlock svc b s = (q, s1)" by fastforce
  have u: "wrapS e (upd h) w = (x, w') \<Longrightarrow> ks (world w') = ks (world w)" for e h w x w'
    using assms(2) by (auto simp: wrapS_def keeps_store_def split: prod.splits)
  show ?thesis
    using assms(1) a by (intro exI [of _ q] exI [of _ s1])
      (cases q; auto simp: handle_block_def bindS_def tryS_def thenS_def failS_def retS_def dest: u split: if_splits)
qed

section \<open>The scan\<close>

lemma handle_until_done_induct:
  assumes "handle_until_done done h w = Some q" and "I w" and step: "\<And>w r w'. I w \<Longrightarrow> h w = (r, w') \<Longrightarrow> I w'"
  shows "I (snd q)"
proof -
  have "h = h' \<longrightarrow> I w \<longrightarrow> I (snd q)" if "h' = h" for h'
  proof (rule handle_until_done.raw_induct [OF _ assms(1), where P = "\<lambda>d g w q. g = h' \<longrightarrow> I w \<longrightarrow> I (snd q)"])
    fix f and done' :: "'a \<Rightarrow> bool" and g w q
    assume IH: "\<And>d (g :: ('a, unit) st) w q. f d g w = Some q \<Longrightarrow> g = h' \<longrightarrow> I w \<longrightarrow> I (snd q)"
      and b: "(if done' w then Some (Ok False, w) else case g w of
        (Ok u, w') \<Rightarrow> Some (Ok True, w') | (Err err, w') \<Rightarrow> f done' g w' | (Panic, w') \<Rightarrow> Some (Panic, w')) = Some q"
    show "g = h' \<longrightarrow> I w \<longrightarrow> I (snd q)"
    proof (intro impI)
      assume g: "g = h'" and i: "I w"
      obtain x w1 where x: "g w = (x, w1)" by fastforce
      have "I w1" using step [OF i] x g that by simp
      then show "I (snd q)" using b x i IH [of done' g w1 q] g by (cases x) (auto split: if_splits)
    qed
  qed
  with assms(2) show ?thesis by blast
qed

lemma scan_blocks_induct:
  assumes "scan_blocks done h bs w = Some q" and "I w"
    and step: "\<And>b w r w'. b \<in> set bs \<Longrightarrow> I w \<Longrightarrow> h b w = (r, w') \<Longrightarrow> I w'"
  shows "I (snd q)"
  using assms
proof (induction bs arbitrary: w)
  case (Cons b bs)
  obtain x w1 where x: "handle_until_done done (h b) w = Some (x, w1)"
    using Cons.prems(1) by (cases "handle_until_done done (h b) w") auto
  have i: "I w1" using handle_until_done_induct [OF x, of I] Cons.prems(2,3) by (metis list.set_intros(1) snd_conv)
  show ?case
  proof (cases "x = Ok True")
    case True
    with Cons.prems(1) x have "scan_blocks done h bs w1 = Some q" by simp
    then show ?thesis using Cons.IH [OF _ i] Cons.prems(3) by (meson list.set_intros(2))
  next
    case False
    then show ?thesis using Cons.prems(1) x i by (cases x) auto
  qed
qed auto


text \<open>What the store holds after the first \<open>k\<close> blocks, and that the others are still new to it.\<close>

definition reached :: "('key, 'addr) btc_lib \<Rightarrow> int \<Rightarrow> string \<Rightarrow> int \<Rightarrow> block list \<Rightarrow> utxo_set \<Rightarrow> nat \<Rightarrow> kstate \<Rightarrow> bool" where
  "reached lib d v h0 bs u k m \<longleftrightarrow> k \<le> length bs \<and> store_ok lib v m \<and> utxo v m = apply_blocks lib d (take k bs) u \<and>
     m (height_key v) = Some (Val (VInt64 (h0 + int k))) \<and> chain_fresh v (drop k bs) m"

text \<open>The blocks that follow the height \<open>h0\<close>, whose heights do not wrap around.\<close>

definition follow :: "int \<Rightarrow> block list \<Rightarrow> bool" where
  "follow h0 bs \<longleftrightarrow> - (2 ^ 63) \<le> h0 \<and> h0 + int (length bs) + 1 < 2 ^ 63 \<and> (\<forall>i < length bs. bh_Height (bs ! i) = h0 + 1 + int i)"

lemma reached_step:
  assumes "utxo_backend U D ks ck pend" and "keeps_store ks upd"
    and f: "follow h0 bs" and b: "b \<in> set bs \<or> bh_Height b = h0"
    and r: "reached lib d (us_dbVer U) h0 bs u k (ks (world s))"
    and h: "handle_block (store_service lib d dec U) upd b s = (r, s')"
  shows "\<exists>k. reached lib d (us_dbVer U) h0 bs u k (ks (world s'))"
proof -
  let ?v = "us_dbVer U" and ?old = "ks (world s)"
  obtain q s1 where a: "AddFromBlock (store_service lib d dec U) b s = (q, s1)" and s1: "ks (world s') = ks (world s1)"
    using handle_block_ks [OF h assms(2)] by blast
  have ok: "store_ok lib ?v ?old" and k: "k \<le> length bs" "utxo ?v ?old = apply_blocks lib d (take k bs) u"
    "?old (height_key ?v) = Some (Val (VInt64 (h0 + int k)))" and cf: "chain_fresh ?v (drop k bs) ?old"
    using r by (simp_all add: reached_def)
  from utxo_backend.AddFromBlock_step [OF assms(1) a ok] s1 show ?thesis
  proof (elim disjE exE conjE)
    fix n assume n: "?old (height_key ?v) = Some (Val (VInt64 n))" "bh_Height b = wrap64 (n + 1)"
      and ap: "fresh_block ?v b ?old \<and> distinct_inputs b \<longrightarrow> applied lib d ?v b ?old (ks (world s1))"
      and fr: "\<forall>c. fresh_block ?v c ?old \<and> block_ids b \<inter> block_ids c = {} \<longrightarrow> fresh_block ?v c (ks (world s1))"
    have "int64_range (h0 + int k + 1)" using f k(1) by (simp add: follow_def int64_range_def)
    then have e: "bh_Height b = h0 + int k + 1" using n k(3) by simp
    obtain i where i: "i < length bs" "b = bs ! i"
    proof (cases "b \<in> set bs")
      case True
      then show ?thesis using that by (metis in_set_conv_nth)
    next
      case False
      with b e f k(1) have False by simp
      then show ?thesis ..
    qed
    have "i = k" using e f i k(1) by (simp add: follow_def)
    then have d: "drop k bs = b # drop (Suc k) bs" "take (Suc k) bs = take k bs @ [b]" "Suc k \<le> length bs" "bh_Height b = h0 + int (Suc k)"
      using i f by (simp_all add: Cons_nth_drop_Suc take_Suc_conv_app_nth follow_def)
    have "applied lib d ?v b ?old (ks (world s1))" using ap cf d(1) by (simp add: chain_fresh_def)
    then have "reached lib d ?v h0 bs u (Suc k) (ks (world s1))"
      using d cf fr k(2) by (auto simp: reached_def applied_def chain_fresh_def apply_blocks_def)
    then show ?thesis using s1 by auto
  qed (use r in auto)
qed


lemma scan_reaches:
  assumes "utxo_backend U D ks ck pend" and "keeps_store ks upd"
    and "store_ok lib (us_dbVer U) (ks (world s))" and "ks (world s) (height_key (us_dbVer U)) = Some (Val (VInt64 h0))"
    and "follow h0 bs" and "chain_fresh (us_dbVer U) bs (ks (world s))" and "\<forall>b \<in> set scanned. b \<in> set bs \<or> bh_Height b = h0"
    and "scan_blocks done (handle_block (store_service lib d dec U) upd) scanned s = Some (r, s')"
  shows "\<exists>k. reached lib d (us_dbVer U) h0 bs (utxo (us_dbVer U) (ks (world s))) k (ks (world s'))"
proof -
  let ?I = "\<lambda>s'. \<exists>k. reached lib d (us_dbVer U) h0 bs (utxo (us_dbVer U) (ks (world s))) k (ks (world s'))"
  have "?I s" using assms(3,4,6) by (intro exI [of _ 0]) (simp add: reached_def apply_blocks_def)
  from scan_blocks_induct [OF assms(8), of ?I, OF this] reached_step [OF assms(1,2,5)] assms(7)
  show ?thesis by (metis snd_conv)
qed

text \<open>
  The scanner over the store. The blocks that follow the stored one are handled in any order and
  again and again, by attempts that fail at any command; whenever the scan has returned, the store
  holds exactly a prefix of them: every block of it applied once and in order, none of the others, the
  height that of the last, the index complete.
\<close>

theorem scanner_keeps_prefix:
  assumes "utxo_backend U D ks ck pend" and "keeps_store ks upd"
    and "store_ok lib (us_dbVer U) (ks (world s))" and "ks (world s) (height_key (us_dbVer U)) = Some (Val (VInt64 h0))"
    and "follow h0 bs" and "chain_fresh (us_dbVer U) bs (ks (world s))" and "\<forall>b \<in> set scanned. b \<in> set bs \<or> bh_Height b = h0"
    and "scan_blocks done (handle_block (store_service lib d dec U) upd) scanned s = Some (r, s')"
  defines "new \<equiv> ks (world s')"
  shows "\<exists>k \<le> length bs. store_ok lib (us_dbVer U) new \<and>
    utxo (us_dbVer U) new = apply_blocks lib d (take k bs) (utxo (us_dbVer U) (ks (world s))) \<and>
    new (height_key (us_dbVer U)) = Some (Val (VInt64 (h0 + int k)))"
  using scan_reaches [OF assms(1-8)] by (auto simp: reached_def new_def)

text \<open>The first attempt is lost in a fault of the server before it wrote, the second one succeeds.\<close>

definition flaky :: "bool list" where "flaky = [True]"

abbreviation sample_handler :: "block \<Rightarrow> (sim store_state, unit) st" where
  "sample_handler \<equiv> handle_block (store_service sample_lib 8 (\<lambda>s. Ok []) (sim_store ''1'')) (\<lambda>h. retS ())"

lemma flaky_attempts:
  "fst (sample_handler sample_block (sample_start flaky)) \<notin> {Ok (), Panic}"
  "fst (sample_handler sample_block (snd (sample_handler sample_block (sample_start flaky)))) = Ok ()"
  by code_simp+

lemma flaky_scan: "\<exists>s'. scan_blocks (\<lambda>_. False) sample_handler [sample_block] (sample_start flaky) = Some (Ok (), s')"
proof -
  obtain e s1 where e: "sample_handler sample_block (sample_start flaky) = (Err e, s1)"
    using flaky_attempts(1) by (cases "sample_handler sample_block (sample_start flaky)"; cases "fst (sample_handler sample_block (sample_start flaky))") auto
  then obtain s2 where "sample_handler sample_block s1 = (Ok (), s2)"
    using flaky_attempts(2) by (metis prod.collapse snd_conv)
  with e have "attempts (sample_handler sample_block) (sample_start flaky) (Ok ()) s2"
    by (blast intro: attempts.intros)
  from attempts_run [OF this] show ?thesis by (simp add: handled_def)
qed

theorem scanner_keeps_prefix_witness:
  "\<exists>s'. scan_blocks (\<lambda>_. False) sample_handler
       [sample_block] (sample_start flaky) = Some (Ok (), s') \<and>
     (\<exists>k \<le> 1. utxo ''1'' (sim_ks (world s')) = apply_blocks sample_lib 8 (take k [sample_block]) (utxo ''1'' (sim_ks (block_world flaky))))"
proof -
  obtain s' where s': "scan_blocks (\<lambda>_. False) sample_handler
       [sample_block] (sample_start flaky) = Some (Ok (), s')"
    using flaky_scan by blast
  have k: "keeps_store sim_ks (\<lambda>h. retS ())" by (simp add: keeps_store_def retS_def)
  have h: "sim_ks (block_world flaky) (height_key ''1'') = Some (Val (VInt64 0))" by (simp add: block_world_def view_def sim_space_def)
  have f: "follow 0 [sample_block]" "chain_fresh ''1'' [sample_block] (sim_ks (block_world flaky))"
    using sample_fresh [of flaky] sample_distinct by (simp_all add: follow_def chain_fresh_def sample_block_def)
  from scanner_keeps_prefix [OF sim_backend [of "''1''"] k _ _ f(1) _ _ s'] sample_store_ok [of flaky] h f(2) s'
  show ?thesis by fastforce
qed

section \<open>The shape of a checkpoint\<close>



end
