(* ===== verification/Node_Client.thy ===== *)
theory Node_Client
  imports Iterator_Correct Utxo_Service
begin

text \<open>
  The client of the node's REST interface (\<^verbatim>\<open>restclient/client.go\<close>), what is built from its answers
  (\<^verbatim>\<open>bitcoinconfig/config.go\<close>, \<^verbatim>\<open>blockchaininfo/info.go\<close>, the scanner states of \<^verbatim>\<open>di/di.go\<close>), and what
  an answer that cannot be read does to the iterator. The HTTP request and the decoder of JSON are
  parameters; \<open>path.Join\<close> is Go's.
\<close>

section \<open>Paths\<close>

text \<open>\<open>path.Clean\<close> over the elements between the slashes; the stack holds the last one first.\<close>

fun clean_parts :: "bool \<Rightarrow> string list \<Rightarrow> string list \<Rightarrow> string list" where
  "clean_parts rooted stack [] = rev stack"
| "clean_parts rooted stack (x # xs) =
     (if x = '''' \<or> x = ''.'' then clean_parts rooted stack xs
      else if x = ''..'' then
        (case stack of
           [] \<Rightarrow> clean_parts rooted (if rooted then [] else [x]) xs
         | y # ys \<Rightarrow> clean_parts rooted (if y = ''..'' then x # stack else ys) xs)
      else clean_parts rooted (x # stack) xs)"

fun split_slash :: "string \<Rightarrow> string list" where
  "split_slash [] = ['''']"
| "split_slash (c # s) =
     (case split_slash s of [] \<Rightarrow> [] | x # xs \<Rightarrow> if c = CHR ''/'' then '''' # x # xs else (c # x) # xs)"

fun join_slash :: "string list \<Rightarrow> string" where
  "join_slash [] = ''''"
| "join_slash [x] = x"
| "join_slash (x # xs) = x @ CHR ''/'' # join_slash xs"

definition path_Clean :: "string \<Rightarrow> string" where
  "path_Clean p =
     (if p = '''' then ''.''
      else let rooted = (hd p = CHR ''/''); parts = clean_parts rooted [] (split_slash p) in
        if rooted then CHR ''/'' # join_slash parts else if parts = [] then ''.'' else join_slash parts)"

definition path_Join :: "string list \<Rightarrow> string" where
  "path_Join elem =
     (let es = dropWhile (\<lambda>e. e = '''') elem in if es = [] then '''' else path_Clean (join_slash es))"

definition buildJsonMethodPath :: "string list \<Rightarrow> string" where
  "buildJsonMethodPath elem = path_Join elem @ ''.json''"

section \<open>The client\<close>

record http_response =
  StatusCode :: int
  content_type :: string
  Body :: "bytes outcome"

record blockchain_info =
  Chain :: string
  Blocks :: int
  Headers :: int
  Time :: int

text \<open>
  \<open>rest_Do\<close>: the request for a method under the URL of the node. The decoders take the content and
  the variable, and give the variable back as they leave it, which may be changed in part when they fail.
\<close>

record 'w rest_client =
  rest_Do :: "string \<Rightarrow> ('w, http_response) st"
  json_info :: "bytes \<Rightarrow> blockchain_info \<Rightarrow> blockchain_info \<times> go_error option"
  json_hash :: "bytes \<Rightarrow> bytes \<Rightarrow> bytes \<times> go_error option"
  json_block :: "bytes \<Rightarrow> block \<Rightarrow> block \<times> go_error option"

text \<open>\<open>callRest\<close>: the response if there is one, the error, and the variable \<open>unmarshalTo\<close>.\<close>

definition callRest :: "'w rest_client \<Rightarrow> string \<Rightarrow> (bytes \<Rightarrow> 'a \<Rightarrow> 'a \<times> go_error option) \<Rightarrow> 'a \<Rightarrow>
    ('w, http_response option \<times> go_error option \<times> 'a) st" where
  "callRest r method unmarshal v =
     bindS (tryS (rest_Do r method)) (\<lambda>res.
     case res of
       Inl err \<Rightarrow> retS (None, Some err, v)
     | Inr res \<Rightarrow>
         if content_type res = ''application/json'' then
           (case Body res of
              Ok resBytes \<Rightarrow>
                (case unmarshal resBytes v of
                   (v', Some err) \<Rightarrow> retS (Some res, Some (Wrap ''failed to unmarshal json response body'' err), v')
                 | (v', None) \<Rightarrow> retS (Some res, None, v'))
            | Err err \<Rightarrow> retS (None, Some (Wrap ''failed to read response body'' err), v)
            | Panic \<Rightarrow> panicS)
         else retS (Some res, Some ErrUnknownResponseType, v))"

definition newBadStatusCodeError :: "int \<Rightarrow> go_error" where
  "newBadStatusCodeError statusCode = Wrap (''bad status code ('' @ FormatInt statusCode @ '')'') ErrBadStatusCode"

text \<open>The checks after the call; \<open>not_found\<close> says whether the method knows the status 404.\<close>

definition check_answer :: "bool \<Rightarrow> string \<Rightarrow> http_response option \<times> go_error option \<times> 'a \<Rightarrow> ('w, 'a) st" where
  "check_answer not_found msg a =
     (case a of (res, err, v) \<Rightarrow>
        case res of
          None \<Rightarrow> (case err of Some e \<Rightarrow> failS (Wrap msg e) | None \<Rightarrow> panicS)
        | Some res \<Rightarrow>
            if not_found \<and> StatusCode res = 404 then failS ErrBlockNotFound
            else if StatusCode res \<noteq> 200 then failS (newBadStatusCodeError (StatusCode res))
            else retS v)"

definition zero_info :: blockchain_info where
  "zero_info = \<lparr>Chain = '''', Blocks = 0, Headers = 0, Time = 0\<rparr>"

definition zero_block :: block where
  "zero_block = \<lparr>bh_Hash = [], bh_NextBlockHash = [], bh_PrevBlockHash = [], bh_Height = 0, bk_Transactions = []\<rparr>"

definition Client_GetBlockchainInfo :: "'w rest_client \<Rightarrow> ('w, blockchain_info) st" where
  "Client_GetBlockchainInfo r =
     bindS (callRest r (buildJsonMethodPath [''chaininfo'']) (json_info r) zero_info)
       (check_answer False ''failed to get blockchain info'')"

definition Client_GetBlockHash :: "'w rest_client \<Rightarrow> int \<Rightarrow> ('w, bytes) st" where
  "Client_GetBlockHash r height =
     bindS (callRest r (buildJsonMethodPath [''blockhashbyheight'', FormatInt height]) (json_hash r) [])
       (check_answer True ''failed to get block header'')"

definition Client_GetBlockHeader :: "'w rest_client \<Rightarrow> bytes \<Rightarrow> ('w, block) st" where
  "Client_GetBlockHeader r hash =
     bindS (callRest r (buildJsonMethodPath [''block'', ''notxdetails'', hash_String hash]) (json_block r) zero_block)
       (check_answer True ''failed to get block header'')"

definition Client_GetBlock :: "'w rest_client \<Rightarrow> bytes \<Rightarrow> ('w, block) st" where
  "Client_GetBlock r hash =
     bindS (callRest r (buildJsonMethodPath [''block'', hash_String hash]) (json_block r) zero_block)
       (check_answer True ''failed to get block'')"

section \<open>The configuration of the chain\<close>

text \<open>The parameter sets of btcd, by their names.\<close>

record 'p chain_params =
  MainNetParams :: 'p
  TestNet3Params :: 'p
  RegressionNetParams :: 'p
  SimNetParams :: 'p
  params_Name :: "'p \<Rightarrow> string"

record 'p bitcoin_config =
  bc_params :: 'p
  bc_decimals :: int
  bc_blockGenerationInterval :: int

definition bitcoinconfig_New :: "'p chain_params \<Rightarrow> ('w, blockchain_info) st \<Rightarrow> int \<Rightarrow> int \<Rightarrow> ('w, 'p bitcoin_config) st" where
  "bitcoinconfig_New cfg GetBlockchainInfo decimals interval =
     bindS (wrapS ''failed to get blockchain info'' GetBlockchainInfo) (\<lambda>bcInfo.
     let params = (''main'', MainNetParams cfg) #
           List.map (\<lambda>p. (params_Name cfg p, p)) [MainNetParams cfg, TestNet3Params cfg, RegressionNetParams cfg, SimNetParams cfg] in
     case find (\<lambda>p. fst p = Chain bcInfo) params of
       None \<Rightarrow> failS (Msg (''unknown chain: '' @ Chain bcInfo))
     | Some p \<Rightarrow> retS \<lparr>bc_params = snd p, bc_decimals = decimals, bc_blockGenerationInterval = interval\<rparr>)"

section \<open>What the node reports about itself\<close>

text \<open>The cached answer of the node, and whether \<open>cancel\<close> is still there.\<close>

record info_state =
  latestBlockchainInfo :: blockchain_info
  info_cancel :: bool

definition blockchaininfo_New :: "('w, blockchain_info) st \<Rightarrow> ('w, info_state) st" where
  "blockchaininfo_New GetBlockchainInfo =
     bindS (wrapS ''failed to get blockchain info'' GetBlockchainInfo) (\<lambda>blockchainInfo.
     retS \<lparr>latestBlockchainInfo = blockchainInfo, info_cancel = True\<rparr>)"

definition Stop :: "(info_state, unit) st" where
  "Stop s = (if \<not> info_cancel s then (Err (Msg ''already stopped''), s) else (Ok (), s\<lparr>info_cancel := False\<rparr>))"

definition info_GetBlocksCount :: "(info_state, int) st" where
  "info_GetBlocksCount s = (Ok (Blocks (latestBlockchainInfo s)), s)"

definition info_GetHeadersCount :: "(info_state, int) st" where
  "info_GetHeadersCount s = (Ok (Headers (latestBlockchainInfo s)), s)"

text \<open>
  The inner loop of \<open>runSyncing\<close> after the timer fired: the node is asked until it answers. It may
  run forever, which is \<open>None\<close>.
\<close>

partial_function (option) sync_round :: "('w, blockchain_info) st \<Rightarrow> 'w \<Rightarrow> (blockchain_info outcome \<times> 'w) option" where
  "sync_round GetBlockchainInfo w =
     (case GetBlockchainInfo w of
        (Err err, w') \<Rightarrow> sync_round GetBlockchainInfo w'
      | (Ok blockchainInfo, w') \<Rightarrow> Some (Ok blockchainInfo, w')
      | (Panic, w') \<Rightarrow> Some (Panic, w'))"

text \<open>The goroutine: per round of its \<open>select\<close>, whether the context is done or the timer fires.\<close>

fun runSyncing :: "('w, blockchain_info) st \<Rightarrow> bool list \<Rightarrow> info_state \<Rightarrow> 'w \<Rightarrow> (unit outcome \<times> info_state \<times> 'w) option" where
  "runSyncing GetBlockchainInfo [] s w = Some (Ok (), s, w)"
| "runSyncing GetBlockchainInfo (ctx_done # rounds) s w =
     (if ctx_done then Some (Ok (), s, w)
      else case sync_round GetBlockchainInfo w of
        None \<Rightarrow> None
      | Some (Ok blockchainInfo, w') \<Rightarrow> runSyncing GetBlockchainInfo rounds (s\<lparr>latestBlockchainInfo := blockchainInfo\<rparr>) w'
      | Some (Err err, w') \<Rightarrow> Some (Err err, s, w')
      | Some (Panic, w') \<Rightarrow> Some (Panic, s, w'))"

section \<open>Where the scanner starts\<close>

definition InMemoryState_of_store :: "('w, 'tx) utxo_store \<Rightarrow> 'w store_state rest_client \<Rightarrow> ('w store_state, string) st" where
  "InMemoryState_of_store U rest =
     bindS (tryS (GetBlockHash U)) (\<lambda>res.
     case res of
       Inl err \<Rightarrow>
         if \<not> errors_is err ErrBlockHashNotFound then failS (Wrap ''failed to get last UTXO block hash'' err)
         else bindS (wrapS ''faield to get genesis block hash'' (Client_GetBlockHash rest 0)) (\<lambda>genesisBlockHash.
           retS (hash_String genesisBlockHash))
     | Inr lastUTXOBlockHash \<Rightarrow>
         bindS (wrapS ''faield to get genesis block hash'' (Client_GetBlockHash rest 0)) (\<lambda>genesisBlockHash.
         retS (if lastUTXOBlockHash = '''' then hash_String genesisBlockHash else lastUTXOBlockHash)))"

text \<open>The state in a key-value store gets the hash of the genesis block as its default.\<close>

definition KeyValueState_of_store :: "'w kv_store \<Rightarrow> 'w rest_client \<Rightarrow> ('w, 'w scanner_state) st" where
  "KeyValueState_of_store kvStore rest =
     bindS (wrapS ''faield to get genesis block hash'' (Client_GetBlockHash rest 0)) (\<lambda>genesisBlockHash.
     retS \<lparr>GetLastScannedBlockHash = KeyValue_GetLastScannedBlockHash kvStore (hash_String genesisBlockHash),
           UpdateLastScannedBlockHash = KeyValue_UpdateLastScannedBlockHash kvStore\<rparr>)"

section \<open>Paths of the requests\<close>

definition plain :: "string \<Rightarrow> bool" where
  "plain x \<longleftrightarrow> x \<noteq> '''' \<and> x \<noteq> ''.'' \<and> x \<noteq> ''..'' \<and> CHR ''/'' \<notin> set x"

lemma split_slash_nonempty: "split_slash s \<noteq> []"
  by (induction s) (auto split: list.split)

lemma split_slash_plain: "CHR ''/'' \<notin> set x \<Longrightarrow> split_slash x = [x]"
  by (induction x) auto

lemma split_slash_step: "CHR ''/'' \<notin> set x \<Longrightarrow> split_slash (x @ CHR ''/'' # s) = x # split_slash s"
  by (induction x) (auto split: list.split simp: split_slash_nonempty)

lemma split_join: "xs \<noteq> [] \<Longrightarrow> \<forall>x \<in> set xs. plain x \<Longrightarrow> split_slash (join_slash xs) = xs"
  by (induction xs rule: join_slash.induct) (auto simp: plain_def split_slash_plain split_slash_step)

lemma clean_plain: "\<forall>x \<in> set xs. plain x \<Longrightarrow> clean_parts rooted stack xs = rev stack @ xs"
  by (induction xs arbitrary: stack) (auto simp: plain_def)

lemma path_Join_plain:
  assumes "xs \<noteq> []" and "\<forall>x \<in> set xs. plain x"
  shows "path_Join xs = join_slash xs"
proof -
  obtain c r ys where xs: "xs = (c # r) # ys" "c \<noteq> CHR ''/''"
    using assms by (cases xs; cases "hd xs") (auto simp: plain_def)
  then have "hd (join_slash xs) = c" "join_slash xs \<noteq> ''''" by (cases ys; simp)+
  with xs(2) have "path_Clean (join_slash xs) = join_slash xs"
    using assms by (simp add: path_Clean_def split_join clean_plain Let_def)
  moreover have "dropWhile (\<lambda>e. e = '''') xs = xs" using xs by simp
  ultimately show ?thesis using assms(1) by (simp add: path_Join_def Let_def)
qed

lemma hex_digit_plain: "n < 16 \<Longrightarrow> hex_digit n \<noteq> CHR ''/'' \<and> hex_digit n \<noteq> CHR ''.''"
proof -
  have "\<forall>n \<in> set [0..<16]. hex_digit n \<noteq> CHR ''/'' \<and> hex_digit n \<noteq> CHR ''.''"
    by (simp add: upt_rec hex_digit_def nth_Cons')
  then show "n < 16 \<Longrightarrow> hex_digit n \<noteq> CHR ''/'' \<and> hex_digit n \<noteq> CHR ''.''" by simp
qed

lemma hex_plain:
  assumes "bs \<noteq> []"
  shows "plain (hash_String bs)"
proof -
  have "c \<noteq> CHR ''/'' \<and> c \<noteq> CHR ''.''" if "c \<in> set (hash_String bs)" for c
  proof -
    have "\<exists>b \<in> set bs. c = hex_digit (unat b div 16) \<or> c = hex_digit (unat b mod 16)"
      using that by (simp add: hash_String_def hex_EncodeToString_def)
    then obtain b :: byte where c: "c = hex_digit (unat b div 16) \<or> c = hex_digit (unat b mod 16)" by blast
    have "unat b < 256" by (rule order_less_le_trans [OF unsigned_less]) simp
    then have "unat b div 16 < 16" "unat b mod 16 < 16" by (simp_all add: div_less_iff_less_mult)
    with c hex_digit_plain show ?thesis by metis
  qed
  moreover have "hash_String bs \<noteq> ''''" using assms by (cases bs) (simp_all add: hash_String_def hex_EncodeToString_def)
  ultimately show ?thesis by (auto simp: plain_def)
qed

lemma FormatInt_plain: "0 \<le> n \<Longrightarrow> plain (FormatInt n)"
proof -
  have "c \<noteq> CHR ''/'' \<and> c \<noteq> CHR ''.''" if "c \<in> set (nat_digits (nat n))" for c
    using nat_digits_chars [OF that] by (auto simp: from_digit_def)
  moreover assume "0 \<le> n"
  ultimately show ?thesis by (auto simp: FormatInt_def plain_def)
qed

lemma method_paths:
  "buildJsonMethodPath [''chaininfo''] = ''chaininfo.json''"
  "0 \<le> n \<Longrightarrow> buildJsonMethodPath [''blockhashbyheight'', FormatInt n] = ''blockhashbyheight/'' @ FormatInt n @ ''.json''"
  "hash \<noteq> [] \<Longrightarrow> buildJsonMethodPath [''block'', hash_String hash] = ''block/'' @ hash_String hash @ ''.json''"
  "hash \<noteq> [] \<Longrightarrow> buildJsonMethodPath [''block'', ''notxdetails'', hash_String hash] = ''block/notxdetails/'' @ hash_String hash @ ''.json''"
  using FormatInt_plain [of n] hex_plain [of hash]
  by (simp_all add: buildJsonMethodPath_def path_Join_plain plain_def)

section \<open>What the client answers\<close>

text \<open>The value a method gives back, whatever became of its decoding.\<close>

definition answered :: "(bytes \<Rightarrow> 'a \<Rightarrow> 'a \<times> go_error option) \<Rightarrow> 'a \<Rightarrow> http_response \<Rightarrow> 'a \<Rightarrow> bool" where
  "answered unmarshal v res x \<longleftrightarrow> StatusCode res = 200 \<and>
     (if content_type res = ''application/json'' then \<exists>bs. Body res = Ok bs \<and> x = fst (unmarshal bs v) else x = v)"

lemma method_Ok:
  "bindS (callRest r m unmarshal v) (check_answer nf msg) w = (Ok x, w') \<longleftrightarrow>
     (\<exists>res. rest_Do r m w = (Ok res, w') \<and> answered unmarshal v res x)"
proof -
  obtain q w1 where q: "rest_Do r m w = (q, w1)" by fastforce
  show ?thesis
  proof (cases q)
    case (Ok res)
    with q show ?thesis
      by (cases "Body res") (auto simp: callRest_def check_answer_def answered_def bindS_def tryS_def retS_def failS_def panicS_def
        split: option.splits prod.splits if_splits)
  qed (use q in \<open>simp_all add: callRest_def check_answer_def bindS_def tryS_def retS_def failS_def\<close>)
qed

text \<open>
  The client, exactly. A block is given back for every answer with status 200 whose content could be
  read, and it is the block the decoder leaves: the zero block when the content is not JSON at all, and
  whatever is there when the decoding failed. Neither is reported as an error.
\<close>

theorem Client_GetBlock_exact:
  "Client_GetBlock r hash w = (Ok b, w') \<longleftrightarrow>
     (\<exists>res. rest_Do r (buildJsonMethodPath [''block'', hash_String hash]) w = (Ok res, w') \<and> StatusCode res = 200 \<and>
        (if content_type res = ''application/json'' then \<exists>bs. Body res = Ok bs \<and> b = fst (json_block r bs zero_block)
         else b = zero_block))"
  unfolding Client_GetBlock_def method_Ok answered_def by simp

text \<open>
  The method for a height, and the same for its hash: the empty hash stands for an answer that could not
  be read.
\<close>

lemma Client_GetBlockHash_exact:
  "Client_GetBlockHash r n w = (Ok hash, w') \<longleftrightarrow>
     (\<exists>res. rest_Do r (buildJsonMethodPath [''blockhashbyheight'', FormatInt n]) w = (Ok res, w') \<and>
        answered (json_hash r) [] res hash)"
  unfolding Client_GetBlockHash_def method_Ok ..

section \<open>A block that was not read\<close>

definition given :: "node \<Rightarrow> int \<Rightarrow> block \<Rightarrow> bool" where
  "given N h b \<longleftrightarrow> bh_Height b = h \<and> (\<exists>hash. b = node_block N hash)"

fun holds_given :: "node \<Rightarrow> worker_phase \<Rightarrow> bool" where
  "holds_given N (WLock b) \<longleftrightarrow> given N (bh_Height b) b"
| "holds_given N _ \<longleftrightarrow> True"

definition given_inv :: "node \<Rightarrow> int \<Rightarrow> iter \<Rightarrow> bool" where
  "given_inv N h0 s \<longleftrightarrow> (\<forall>w \<in> set (workers s). holds_given N w) \<and>
     (\<forall>h b. orderingBlocks s h = Some b \<longrightarrow> given N h b) \<and>
     expectedNextBlockHeightToSend s = h0 + int (length (sent s)) \<and>
     (\<forall>i < length (sent s). given N (h0 + int i) (sent s ! i))"

lemma given_inv_step:
  assumes r: "\<And>hash. int64_range (bh_Height (node_block N hash) + 1)" and inv: "given_inv N h0 s"
    and "iter_step opts N a s = Some s'"
  shows "given_inv N h0 s'"
  using assms(3)
proof (cases rule: iter_step_cases)
  case (header answer)
  from header(2) inv show ?thesis by (cases rule: header_cases) (auto simp: given_inv_def sent_def)
next
  case dispatch
  from dispatch(2) inv show ?thesis by (cases rule: dispatch_cases) (auto simp: given_inv_def sent_def)
next
  case (worker i ok)
  from worker(2) show ?thesis
  proof (cases rule: worker_step_cases)
    case (store us b vs)
    with inv show ?thesis by (auto simp: given_inv_def sent_def)
  next
    case (send us b vs)
    let ?e = "expectedNextBlockHeightToSend s"
    have b: "given N ?e b" and e: "?e = h0 + int (length (sent s))" using inv send(2) by (auto simp: given_inv_def)
    have h: "bh_Height b = ?e" "int64_range (?e + 1)" using b r unfolding given_def by metis+
    have "sent s' = sent s @ [b]" by (simp add: send sent_def)
    moreover have "expectedNextBlockHeightToSend s' = h0 + int (length (sent s @ [b]))" using h e by (simp add: send)
    moreover have "given N (h0 + int i) ((sent s @ [b]) ! i)" if "i < length (sent s @ [b])" for i
      using that inv b e by (auto simp: given_inv_def nth_append less_Suc_eq)
    ultimately show ?thesis using inv by (simp add: given_inv_def send)
  qed (use inv in \<open>auto simp: given_inv_def sent_def given_def\<close>)
next
  case (consume b bs)
  then have "sent s' = sent s" by (simp add: sent_def)
  with inv consume show ?thesis by (simp add: given_inv_def)
qed (use inv in \<open>simp add: given_inv_def sent_def\<close>)


text \<open>The node has two blocks; the second one comes with a content type of its own.\<close>

definition proxied_client :: "nat rest_client" where
  "proxied_client = \<lparr>rest_Do = (\<lambda>m. retS \<lparr>StatusCode = 200, content_type = ''text/html'', Body = Ok []\<rparr>),
     json_info = (\<lambda>bs i. (i, None)), json_hash = (\<lambda>bs i. (i, None)), json_block = (\<lambda>bs i. (i, None))\<rparr>"

definition proxied_node :: node where
  "proxied_node = \<lparr>node_hash = (\<lambda>h hash. (h = 5 \<and> hash = []) \<or> (h = 6 \<and> hash = [1])),
     node_block = (\<lambda>hash. if hash = [] then chain_block 5 [] else zero_block)\<rparr>"

lemma proxied_run:
  "map_option (\<lambda>s. (length (consumed s), workers s, map_option bh_Height (orderingBlocks s 0)))
     (iter_run two_workers proxied_node (butlast racing) (iter_init 5)) = Some (1, [], Some 0)"
  by code_simp


section \<open>A goroutine that cannot be stopped\<close>

text \<open>A client whose requests fail once the context is done, as those of \<open>net/http\<close> do.\<close>

definition dead_requests :: "('w \<Rightarrow> bool) \<Rightarrow> ('w, blockchain_info) st \<Rightarrow> bool" where
  "dead_requests dead get \<longleftrightarrow> (\<forall>w. dead w \<longrightarrow> (\<exists>e w'. get w = (Err e, w') \<and> dead w'))"

lemma sync_round_dead:
  assumes "dead_requests dead get" and "dead w"
  shows "sync_round get w = None"
proof -
  have "q \<noteq> q" if "sync_round get w = Some q" for q
  proof -
    have "g = get \<longrightarrow> dead w \<longrightarrow> False" if "sync_round g w = Some q" for g w q
    proof (rule sync_round.raw_induct [OF _ that, where P = "\<lambda>g w q. g = get \<longrightarrow> dead w \<longrightarrow> False"])
      fix f and g :: "('a, blockchain_info) st" and w q
      assume IH: "\<And>(g :: ('a, blockchain_info) st) w q. f g w = Some q \<Longrightarrow> g = get \<longrightarrow> dead w \<longrightarrow> False"
        and b: "(case g w of (Ok i, w') \<Rightarrow> Some (Ok i, w') | (Err err, w') \<Rightarrow> f g w' | (Panic, w') \<Rightarrow> Some (Panic, w')) = Some q"
      show "g = get \<longrightarrow> dead w \<longrightarrow> False"
      proof (intro impI)
        assume g: "g = get" and "dead w"
        then obtain e w' where "g w = (Err e, w')" "dead w'" using assms(1) by (auto simp: dead_requests_def)
        then show False using b IH [of g w' q] g by simp
      qed
    qed
    with that assms(2) show ?thesis by blast
  qed
  then show ?thesis by (cases "sync_round get w") auto
qed

text \<open>
  \<open>Stop\<close> does not end the goroutine when it comes while the node is asked: the loop around the
  request does not look at the context, every request of a cancelled context fails, and the loop never
  ends. A second \<open>Stop\<close> is an error.
\<close>

theorem stopped_sync_never_returns:
  assumes "dead_requests dead get" and "dead w" and "info_cancel s"
  shows "runSyncing get (False # rounds) s w = None \<and> fst (Stop s) = Ok () \<and>
    fst (Stop (snd (Stop s))) = Err (Msg ''already stopped'')"
  using assms sync_round_dead [OF assms(1,2)] by (simp add: Stop_def)

theorem stopped_sync_never_returns_witness:
  "runSyncing (\<lambda>w. (Err (Foreign ''context canceled''), w)) [False] \<lparr>latestBlockchainInfo = zero_info, info_cancel = True\<rparr> () = None"
  using stopped_sync_never_returns [of "\<lambda>_. True" "\<lambda>w. (Err (Foreign ''context canceled''), w)" "()"
      "\<lparr>latestBlockchainInfo = zero_info, info_cancel = True\<rparr>" "[]"]
  by (simp add: dead_requests_def)

end
