(* ===== verification/Program_Config.thy ===== *)
theory Program_Config
  imports Iterator_Correct
begin

text \<open>
  The configuration of the program and its validation (\<^verbatim>\<open>config/config.go\<close>), and what is built from it
  (the iterator of \<^verbatim>\<open>di/di.go\<close>). The rules are those of the library ozzo-validation and are
  parameters; the locale \<open>documented_rules\<close> states what its documentation promises.
\<close>

section \<open>The configuration\<close>

text \<open>Durations are numbers of nanoseconds.\<close>

record config =
  Name :: string
  Version :: string
  Environment :: string
  BlockchainState_Path :: string
  Decimals :: int
  BlockGenerationInterval :: int
  BatchSize :: int
  RestURL :: string
  cfg_BlockHeadersBufferSize :: int
  cfg_ConcurrentBlocksDownloadLimit :: int
  Scanner_Enabled :: bool
  HTTP_Address :: string
  GRPC_Address :: string
  CheckpointFilePath :: string
  PersistenceFilePath :: string
  LevelDB_Path :: string
  Redis_Host :: string
  Uptrace_DSN :: string

text \<open>The rules: for a value the error, if any. \<open>v_In\<close> takes the values that are allowed.\<close>

record validation =
  v_Required_string :: "string \<Rightarrow> go_error option"
  v_Required_int :: "int \<Rightarrow> go_error option"
  v_Min :: "int \<Rightarrow> int \<Rightarrow> go_error option"
  v_Length :: "int \<Rightarrow> int \<Rightarrow> string \<Rightarrow> go_error option"
  v_In :: "string list \<Rightarrow> string \<Rightarrow> go_error option"
  is_URL :: "string \<Rightarrow> go_error option"
  is_DialString :: "string \<Rightarrow> go_error option"
  is_Semver :: "string \<Rightarrow> go_error option"

text \<open>A field is checked by its rules in turn, up to the first that fails; a struct by all its fields.\<close>

fun Field :: "'a \<Rightarrow> ('a \<Rightarrow> go_error option) list \<Rightarrow> go_error option" where
  "Field v [] = None"
| "Field v (rule # rules) = (case rule v of Some e \<Rightarrow> Some e | None \<Rightarrow> Field v rules)"

definition ValidateStruct :: "string \<Rightarrow> go_error option list \<Rightarrow> unit outcome" where
  "ValidateStruct msg fs =
     (case List.map_filter id fs of [] \<Rightarrow> Ok () | e # _ \<Rightarrow> Err (Wrap msg e))"

definition second :: int where "second = 10 ^ 9"

definition env_DEV :: string where "env_DEV = ''dev''"
definition env_STAGE :: string where "env_STAGE = ''stage''"
definition env_PREPROD :: string where "env_PREPROD = ''preprod''"
definition env_PROD :: string where "env_PROD = ''prod''"

definition Validate :: "validation \<Rightarrow> config \<Rightarrow> unit outcome" where
  "Validate V c =
     bindO (ValidateStruct ''failed to validate blockchainNode options'' [Field (RestURL c) [v_Required_string V, is_URL V]]) (\<lambda>_.
     bindO (ValidateStruct ''utxo configuration validation error'' [Field (CheckpointFilePath c) [v_Length V 0 (- 1)]]) (\<lambda>_.
     bindO (ValidateStruct ''in-memory configuration validation error'' [Field (PersistenceFilePath c) [v_Length V 0 (- 1)]]) (\<lambda>_.
     bindO (ValidateStruct ''failed to validate the blockchain params configuration''
              [Field (Decimals c) [v_Min V 1], Field (BlockGenerationInterval c) [v_Min V second]]) (\<lambda>_.
     bindO (ValidateStruct ''failed to validate utxo storage configuration'' [Field (LevelDB_Path c) [v_Length V 0 (- 1)]]) (\<lambda>_.
     bindO (ValidateStruct ''failed to validate chainstate migration options options''
              [Field (BatchSize c) [v_Required_int V, v_Min V 1]]) (\<lambda>_.
     bindO (ValidateStruct ''failed to validate utxo redis store options'' [Field (Redis_Host c) [v_Required_string V, is_DialString V]]) (\<lambda>_.
     bindO (ValidateStruct ''failed to validate blockchainBlocksIterator options''
              [Field (cfg_BlockHeadersBufferSize c) [v_Required_int V, v_Min V 1],
               Field (cfg_ConcurrentBlocksDownloadLimit c) [v_Required_int V, v_Min V 1]]) (\<lambda>_.
     bindO (ValidateStruct ''failed to validate uptrace options'' [Field (Uptrace_DSN c) [is_URL V]]) (\<lambda>_.
     bindO (ValidateStruct ''failed to validate utxo http service options'' [Field (HTTP_Address c) [v_Required_string V, is_DialString V]]) (\<lambda>_.
     bindO (ValidateStruct ''failed to validate utxo grpc service options'' [Field (GRPC_Address c) [v_Required_string V, is_DialString V]]) (\<lambda>_.
     ValidateStruct ''failed to validate config options''
       [Field (Name c) [v_Required_string V], Field (Version c) [v_Required_string V, is_Semver V],
        Field (Environment c) [v_Required_string V, v_In V [env_DEV, env_PREPROD, env_PROD, env_STAGE]]])))))))))))"

text \<open>The iterator of the program.\<close>

definition NewBitcoinBlocksIterator :: "config \<Rightarrow> iter_options outcome" where
  "NewBitcoinBlocksIterator cfg =
     wrapO ''failed to create bitcoin blocks iterator''
       (buildOptions [WithBlockHeadersBufferSize (cfg_BlockHeadersBufferSize cfg),
          WithConcurrentBlocksDownloadLimit (cfg_ConcurrentBlocksDownloadLimit cfg)])"

section \<open>What the rules promise\<close>

text \<open>\<open>Required\<close> refuses the zero value; \<open>Min\<close> takes a zero value, and one that is large enough.\<close>

locale documented_rules =
  fixes V :: validation
  assumes Required_int: "v_Required_int V n = None \<longleftrightarrow> n \<noteq> 0"
    and Min: "v_Min V m n = None \<longleftrightarrow> n = 0 \<or> m \<le> n"
begin

lemma ValidateStruct_Ok: "ValidateStruct msg fs = Ok u \<longleftrightarrow> (\<forall>f \<in> set fs. f = None)"
  by (induction fs) (auto simp: ValidateStruct_def map_filter_simps split: option.splits)

lemma valid_params:
  assumes "Validate V c = Ok ()"
  shows "v_Min V 1 (Decimals c) = None \<and> v_Min V second (BlockGenerationInterval c) = None"
  using assms unfolding Validate_def by (auto simp: bindO_Ok_iff ValidateStruct_Ok split: option.splits)

lemma Validate_numbers:
  assumes "Validate V c = Ok ()"
  shows "1 \<le> BatchSize c \<and> 1 \<le> cfg_BlockHeadersBufferSize c \<and> 1 \<le> cfg_ConcurrentBlocksDownloadLimit c"
  using assms unfolding Validate_def
  by (auto simp: bindO_Ok_iff ValidateStruct_Ok Required_int Min split: option.splits)

end

text \<open>Rules that keep to it.\<close>

definition plain_rules :: validation where
  "plain_rules =
     \<lparr>v_Required_string = (\<lambda>s. if s = '''' then Some (Msg ''cannot be blank'') else None),
      v_Required_int = (\<lambda>n. if n = 0 then Some (Msg ''cannot be blank'') else None),
      v_Min = (\<lambda>m n. if n = 0 \<or> m \<le> n then None else Some (Msg ''must be no less than the minimum'')),
      v_Length = (\<lambda>lo hi s. None), v_In = (\<lambda>xs s. if s \<in> set xs then None else Some (Msg ''must be a valid value'')),
      is_URL = (\<lambda>s. None), is_DialString = (\<lambda>s. None), is_Semver = (\<lambda>s. None)\<rparr>"

interpretation plain_rules: documented_rules plain_rules
  by unfold_locales (simp_all add: plain_rules_def)

section \<open>Properties\<close>

text \<open>
  C40: a configuration that passes the validation gives the iterator options it takes (with at least one
  place for downloads and one for headers, which its progress rests on) and a batch size of at least
  one. The validation also takes it with no decimals and no interval between blocks: \<open>Min\<close> does not
  look at a zero value, and these two fields are not required.
\<close>

theorem validated_config_sound:
  assumes "documented_rules V" and "Validate V c = Ok ()"
  shows "(\<exists>opts. NewBitcoinBlocksIterator c = Ok opts \<and> sound_options opts \<and>
      blockHeadersBufferSize opts = cfg_BlockHeadersBufferSize c \<and>
      concurrentBlocksDownloadLimit opts = cfg_ConcurrentBlocksDownloadLimit c) \<and>
    1 \<le> BatchSize c \<and> Validate V (c\<lparr>Decimals := 0, BlockGenerationInterval := 0\<rparr>) = Ok ()"
proof -
  note n = documented_rules.Validate_numbers [OF assms]
  have "Validate V (c\<lparr>Decimals := 0, BlockGenerationInterval := 0\<rparr>) = Validate V c"
  proof -
    have z: "v_Min V m 0 = None" for m using documented_rules.Min [OF assms(1)] by simp
    have "v_Min V 1 (Decimals c) = None" "v_Min V second (BlockGenerationInterval c) = None"
      using assms(2) documented_rules.valid_params [OF assms] by simp_all
    with z show ?thesis by (simp add: Validate_def)
  qed
  moreover have "\<exists>opts. NewBitcoinBlocksIterator c = Ok opts \<and> sound_options opts \<and>
      blockHeadersBufferSize opts = cfg_BlockHeadersBufferSize c \<and>
      concurrentBlocksDownloadLimit opts = cfg_ConcurrentBlocksDownloadLimit c"
    using n by (simp add: NewBitcoinBlocksIterator_def buildOptions_def WithBlockHeadersBufferSize_def
      WithConcurrentBlocksDownloadLimit_def sound_options_def)
  ultimately show ?thesis using assms(2) n by simp
qed

definition sample_config :: config where
  "sample_config = \<lparr>Name = ''indexer'', Version = ''1.0.0'', Environment = env_DEV, BlockchainState_Path = '''', Decimals = 8,
     BlockGenerationInterval = 600 * second, BatchSize = 1000, RestURL = ''http://node/rest'', cfg_BlockHeadersBufferSize = 10,
     cfg_ConcurrentBlocksDownloadLimit = 4, Scanner_Enabled = True, HTTP_Address = '':80'', GRPC_Address = '':81'',
     CheckpointFilePath = ''cp'', PersistenceFilePath = '''', LevelDB_Path = '''', Redis_Host = ''redis:6379'', Uptrace_DSN = ''''\<rparr>"

theorem validated_config_sound_witness:
  "\<exists>opts. NewBitcoinBlocksIterator sample_config = Ok opts \<and> sound_options opts \<and> concurrentBlocksDownloadLimit opts = 4"
proof -
  have "Validate plain_rules sample_config = Ok ()" by code_simp
  from validated_config_sound [OF plain_rules.documented_rules_axioms this] show ?thesis
    by (auto simp: sample_config_def)
qed

end
