(* ===== verification/Command_Line.thy ===== *)
theory Command_Line
  imports Chainstate
begin

text \<open>
  The commands of the tool over the chainstate (\<^verbatim>\<open>cmd/chainstate-cli/main.go\<close>): the hash of its block,
  the number of its coins and the coins of a transaction. What they print is their result.
\<close>

definition getblockhash :: "bytes option \<Rightarrow> chainstate_db \<Rightarrow> string outcome" where
  "getblockhash key d =
     bindO (wrapO ''failed to get'' (Chainstate_GetBlockHash key d)) (\<lambda>blockHash. Ok (hex_EncodeToString blockHash))"

text \<open>The loop of \<open>getChainstateKeysCount\<close>, over the entries the iterator still has.\<close>

function count_loop :: "'key ec_lib \<Rightarrow> bytes option \<Rightarrow> (bytes \<times> bytes) list \<Rightarrow> int \<Rightarrow> int outcome" where
  "count_loop ec key es count =
     (case UTXOIterator_Next ec key es of
        (Ok _, es') \<Rightarrow> count_loop ec key es' (wrap64 (count + 1))
      | (Err err, es') \<Rightarrow> if errors_is err ErrNoKeysMore then Ok count else Err (Wrap ''failed to get next item'' err)
      | (Panic, es') \<Rightarrow> Panic)"
  by pat_completeness auto

termination count_loop
  by (relation "measure (\<lambda>(ec, key, es, count). length es)") (auto dest: Next_shorter [OF sym])

declare count_loop.simps [simp del]

definition getChainstateKeysCount :: "'key ec_lib \<Rightarrow> bytes option \<Rightarrow> chainstate_db \<Rightarrow> int outcome" where
  "getChainstateKeysCount ec key d = count_loop ec key (ldb_entries d) 0"

definition gettxouts :: "'key ec_lib \<Rightarrow> bytes option \<Rightarrow> chainstate_db \<Rightarrow> string \<Rightarrow> txout list outcome" where
  "gettxouts ec key d txIDHex =
     (case hex_DecodeString txIDHex of
        Ok txID \<Rightarrow> if length txID \<noteq> 32 then Err (Msg ''invalid tx id'') else GetOutputs ec key d txID
      | _ \<Rightarrow> Err (Msg ''invalid tx id''))"

section \<open>Properties\<close>

lemma count_loop_coins:
  assumes "ec_laws ec" and "holds_coins ec key es ts" and "0 \<le> n" and "n + int (length ts) < 2 ^ 63"
  shows "count_loop ec key es n = Ok (n + int (length ts))"
  using assms(2-)
proof (induction ts arbitrary: es n rule: list.induct)
  case Nil
  from holds_coins_Next [OF assms(1) Nil(1)] show ?case by (simp add: count_loop.simps [of ec key es])
next
  case (Cons t ts)
  obtain es' where es': "UTXOIterator_Next ec key es = (Ok t, es')" "holds_coins ec key es' ts"
    using holds_coins_Next [OF assms(1) Cons.prems(1)] by auto
  have "wrap64 (n + 1) = n + 1" using Cons.prems(2,3) by (intro wrap64_id) (simp add: int64_range_def)
  with es' Cons.IH [OF es'(2), of "n + 1"] Cons.prems(2,3) show ?case by (simp add: count_loop.simps [of ec key es])
qed

text \<open>
  The commands are exact. Over the entries of a node's chainstate the count is the number of its coins,
  and the outputs listed for an id are the coins of that transaction, in the order of their indices;
  an id that is not 32 bytes in hexadecimal is refused.
\<close>

theorem chainstate_commands_exact:
  assumes "ec_laws ec" and "holds_coins ec key (ldb_entries d) ts" and "keys_sorted (ldb_entries d)"
    and "int (length ts) < 2 ^ 63" and "length txID = 32" and "length short \<noteq> 32"
  shows "getChainstateKeysCount ec key d = Ok (int (length ts)) \<and>
    gettxouts ec key d (hex_EncodeToString txID) = Ok (filter (\<lambda>t. to_txID t = txID) ts) \<and>
    gettxouts ec key d (hex_EncodeToString short) = Err (Msg ''invalid tx id'')"
proof -
  have "getChainstateKeysCount ec key d = Ok (0 + int (length ts))"
    unfolding getChainstateKeysCount_def using assms(4) by (intro count_loop_coins [OF assms(1,2)]) simp_all
  moreover have "GetOutputs ec key d txID = Ok (filter (\<lambda>t. to_txID t = txID) ts)"
    by (rule GetOutputs_exact [OF assms(1-3,5)])
  ultimately show ?thesis using assms(5,6) by (simp add: gettxouts_def)
qed

theorem chainstate_commands_exact_witness:
  "getChainstateKeysCount sample_ec sample_key \<lparr>ldb_Get = (\<lambda>_. Err LevelDBNotFound), ldb_entries = sample_entries,
      ldb_iterator_Error = None\<rparr> = Ok 2"
  using chainstate_commands_exact [OF sample_ec_laws, of sample_key "\<lparr>ldb_Get = (\<lambda>_. Err LevelDBNotFound),
      ldb_entries = sample_entries, ldb_iterator_Error = None\<rparr>" _ "replicate 32 8" "[]"] sample_entries_ok
  by simp

end
