(* ===== verification/Node_Values.thy ===== *)
theory Node_Values
  imports Blockchain
begin

text \<open>
  The values of the node's answers that have a JSON coding of their own: hashes
  (\<^verbatim>\<open>blockchain/hash.go\<close>), big integers (\<^verbatim>\<open>bigjson/bigint.go\<close>) and nonces (\<^verbatim>\<open>blockchain/block.go\<close>).
  The coding of strings and the check of a document, both of \<^verbatim>\<open>encoding/json\<close>, are parameters.
\<close>

section \<open>The code\<close>

text \<open>
  \<open>js_string\<close> decodes a document into a string, \<open>js_quote\<close> encodes one, \<open>js_Valid\<close> is the check before a
  decoder of the program is called.
\<close>

record json_lib =
  js_string :: "string \<Rightarrow> string outcome"
  js_quote :: "string \<Rightarrow> string"
  js_Valid :: "string \<Rightarrow> bool"

definition Hash_MarshalJSON :: "json_lib \<Rightarrow> bytes option \<Rightarrow> string outcome" where
  "Hash_MarshalJSON js h =
     (case h of None \<Rightarrow> Ok [CHR 0x22, CHR 0x22] | Some h \<Rightarrow> Ok (js_quote js (hash_String h)))"

text \<open>The argument \<open>h\<close> is what the variable holds before; the empty string leaves it as it is.\<close>

definition Hash_UnmarshalJSON :: "json_lib \<Rightarrow> string \<Rightarrow> bytes \<Rightarrow> bytes outcome" where
  "Hash_UnmarshalJSON js v h =
     bindO (js_string js v) (\<lambda>s.
     if s = '''' then Ok h
     else wrapO ''failed to unmarshal hash'' (NewHashFromHEX s))"

text \<open>\<open>big.Int.SetString(s, 10)\<close>: a sign and digits, all of the text.\<close>

definition SetString10 :: "string \<Rightarrow> int option" where
  "SetString10 s =
     (let (neg, body) = (case s of c # r \<Rightarrow>
            if c = CHR ''+'' then (False, r) else if c = CHR ''-'' then (True, r) else (False, s)
          | [] \<Rightarrow> (False, s)) in
      map_option (\<lambda>m. if neg then - int m else int m) (parse_magnitude body))"

definition BigInt_MarshalJSON :: "int \<Rightarrow> string outcome" where
  "BigInt_MarshalJSON b = Ok (FormatInt b)"

definition BigInt_UnmarshalJSON :: "string \<Rightarrow> int \<Rightarrow> int outcome" where
  "BigInt_UnmarshalJSON p b =
     (if p = ''null'' then Ok b
      else case SetString10 p of None \<Rightarrow> Err (Msg (''not a valid big integer: '' @ p)) | Some z \<Rightarrow> Ok z)"

text \<open>A nonce is a string, or a number whose decimal text is kept.\<close>

definition Nonce_MarshalJSON :: "json_lib \<Rightarrow> string option \<Rightarrow> string outcome" where
  "Nonce_MarshalJSON js n =
     (case n of None \<Rightarrow> Ok [CHR 0x22, CHR 0x22] | Some parsedNonce \<Rightarrow> Ok (js_quote js parsedNonce))"

definition Nonce_UnmarshalJSON :: "json_lib \<Rightarrow> string \<Rightarrow> string outcome" where
  "Nonce_UnmarshalJSON js p =
     (case js_string js p of
        Ok nonceString \<Rightarrow> Ok nonceString
      | _ \<Rightarrow>
          if \<not> js_Valid js p then Err (Msg (''failed to unmarshal nonce: '' @ p))
          else case BigInt_UnmarshalJSON p 0 of
            Ok nonceInt64 \<Rightarrow> Ok (FormatInt nonceInt64)
          | _ \<Rightarrow> Err (Msg (''failed to unmarshal nonce: '' @ p)))"

definition GetNonce :: "int \<Rightarrow> string \<Rightarrow> string" where
  "GetNonce nonce64 nonce = (if nonce64 \<noteq> 0 then FormatInt nonce64 else nonce)"

section \<open>Properties\<close>

lemma SetString10_FormatInt: "SetString10 (FormatInt n) = Some n"
proof (cases "n < 0")
  case True
  then show ?thesis by (simp add: SetString10_def FormatInt_def parse_magnitude_def parse_nat_digits)
next
  case False
  obtain c s where cs: "nat_digits (nat n) = c # s" by (cases "nat_digits (nat n)") auto
  then have "c \<noteq> CHR ''-''" "c \<noteq> CHR ''+''" using nat_digits_no [of "nat n"] by auto
  then show ?thesis using False cs parse_nat_digits [of "nat n"]
    by (simp add: SetString10_def FormatInt_def parse_magnitude_def)
qed

lemma FormatInt_not_null: "FormatInt n \<noteq> ''null''"
proof
  assume "FormatInt n = ''null''"
  then have "SetString10 ''null'' = Some n" using SetString10_FormatInt [of n] by simp
  then show False by (simp add: SetString10_def parse_magnitude_def from_digit_def)
qed

text \<open>
  The values survive their coding: a hash, a big integer of any size and a nonce are read back as they
  were written, and a nonce that comes as a number reads as its decimal text. The empty hash is the
  exception: it is not written to the variable, which keeps the hash it had.
\<close>

theorem node_values_roundtrip:
  assumes "\<And>s. js_string js (js_quote js s) = Ok s" and "\<And>n. js_Valid js (FormatInt n)"
    and "\<And>n e. js_string js (FormatInt n) \<noteq> Ok e"
  shows "(\<exists>v. Hash_MarshalJSON js (Some h) = Ok v \<and> Hash_UnmarshalJSON js v old = Ok (if h = [] then old else h)) \<and>
    (\<exists>v. BigInt_MarshalJSON n = Ok v \<and> BigInt_UnmarshalJSON v m = Ok n \<and> Nonce_UnmarshalJSON js v = Ok (FormatInt n)) \<and>
    (\<exists>v. Nonce_MarshalJSON js (Some s) = Ok v \<and> Nonce_UnmarshalJSON js v = Ok s)"
proof -
  have "Hash_UnmarshalJSON js (js_quote js (hash_String h)) old = Ok (if h = [] then old else h)"
    using assms(1) by (cases h) (simp_all add: Hash_UnmarshalJSON_def hash_String_def NewHashFromHEX_def del: hex_roundtrip,
      simp_all add: hex_EncodeToString_def hex_roundtrip [unfolded hex_EncodeToString_def, of "_ # _", simplified])
  moreover have "Nonce_UnmarshalJSON js (FormatInt n) = Ok (FormatInt n)"
    using assms(2,3) FormatInt_not_null [of n]
    by (cases "js_string js (FormatInt n)") (auto simp: Nonce_UnmarshalJSON_def BigInt_UnmarshalJSON_def SetString10_FormatInt)
  ultimately show ?thesis using assms(1) FormatInt_not_null [of n]
    by (simp add: Hash_MarshalJSON_def BigInt_MarshalJSON_def BigInt_UnmarshalJSON_def SetString10_FormatInt
      Nonce_MarshalJSON_def Nonce_UnmarshalJSON_def)
qed

text \<open>A coding of strings without escapes.\<close>

definition plain_json :: json_lib where
  "plain_json = \<lparr>js_string = (\<lambda>p. if p \<noteq> [] \<and> hd p = CHR 0x22 then Ok (butlast (tl p)) else Err (Foreign ''json: cannot unmarshal'')),
     js_quote = (\<lambda>s. CHR 0x22 # s @ [CHR 0x22]), js_Valid = (\<lambda>p. True)\<rparr>"

theorem node_values_roundtrip_witness:
  "\<exists>v. Hash_MarshalJSON plain_json (Some [171]) = Ok v \<and> Hash_UnmarshalJSON plain_json v [] = Ok [171]"
proof -
  have q: "CHR 0x22 \<notin> set (FormatInt n)" for n
    by (auto simp: FormatInt_def from_digit_def dest!: nat_digits_chars)
  have "js_string plain_json (FormatInt n) \<noteq> Ok e" for n e
    using q [of n] by (cases "FormatInt n") (auto simp: plain_json_def)
  from node_values_roundtrip [OF _ _ this, where h = "[171]" and old = "[]"] show ?thesis by (auto simp: plain_json_def)
qed

end
