(* ===== verification/Memory_Store.thy ===== *)
theory Memory_Store
  imports Tx_Manager Redis_Store
begin

text \<open>
  The key-value store in memory (\<^verbatim>\<open>providers/inmemorykvstore/inmemory.go\<close>), with its lock and its file,
  and the transactions over it (\<^verbatim>\<open>drivers/inmemorytx\<close>). An operation that has to wait for the lock has
  no result (\<open>None\<close>); unlocking a lock that is not held ends the program, which is \<open>Panic\<close>. The codec
  is a parameter, as for Redis.
\<close>

section \<open>The state\<close>

text \<open>\<open>sync.RWMutex\<close>: the readers that hold it, and whether a writer does.\<close>

record rwmutex =
  rw_readers :: nat
  rw_writer :: bool

record 'raw mem_store =
  mem_s :: "string \<rightharpoonup> 'raw"
  mem_mx :: rwmutex
  mem_closed :: bool

type_synonym ('s, 'a) lk = "'s \<Rightarrow> ('a outcome \<times> 's) option"

definition retL :: "'a \<Rightarrow> ('s, 'a) lk" where
  "retL a = (\<lambda>s. Some (Ok a, s))"

definition failL :: "go_error \<Rightarrow> ('s, 'a) lk" where
  "failL e = (\<lambda>s. Some (Err e, s))"

definition bindL :: "('s, 'a) lk \<Rightarrow> ('a \<Rightarrow> ('s, 'b) lk) \<Rightarrow> ('s, 'b) lk" where
  "bindL m f = (\<lambda>s. case m s of
       None \<Rightarrow> None
     | Some (Ok a, s') \<Rightarrow> f a s'
     | Some (Err e, s') \<Rightarrow> Some (Err e, s')
     | Some (Panic, s') \<Rightarrow> Some (Panic, s'))"

text \<open>\<open>defer\<close>: the call runs whatever the body returned; its panic replaces the result.\<close>

definition deferL :: "('s, unit) lk \<Rightarrow> ('s, 'a) lk \<Rightarrow> ('s, 'a) lk" where
  "deferL d m = (\<lambda>s. case m s of
       None \<Rightarrow> None
     | Some (r, s') \<Rightarrow>
         (case d s' of None \<Rightarrow> None | Some (Panic, s'') \<Rightarrow> Some (Panic, s'') | Some (_, s'') \<Rightarrow> Some (r, s'')))"

definition Lock :: "('raw mem_store, unit) lk" where
  "Lock i = (if rw_writer (mem_mx i) \<or> 0 < rw_readers (mem_mx i) then None
     else Some (Ok (), i\<lparr>mem_mx := mem_mx i\<lparr>rw_writer := True\<rparr>\<rparr>))"

definition Unlock :: "('raw mem_store, unit) lk" where
  "Unlock i = (if \<not> rw_writer (mem_mx i) then Some (Panic, i)
     else Some (Ok (), i\<lparr>mem_mx := mem_mx i\<lparr>rw_writer := False\<rparr>\<rparr>))"

definition RLock :: "('raw mem_store, unit) lk" where
  "RLock i = (if rw_writer (mem_mx i) then None
     else Some (Ok (), i\<lparr>mem_mx := mem_mx i\<lparr>rw_readers := Suc (rw_readers (mem_mx i))\<rparr>\<rparr>))"

definition RUnlock :: "('raw mem_store, unit) lk" where
  "RUnlock i = (if rw_readers (mem_mx i) = 0 then Some (Panic, i)
     else Some (Ok (), i\<lparr>mem_mx := mem_mx i\<lparr>rw_readers := rw_readers (mem_mx i) - 1\<rparr>\<rparr>))"

abbreviation locked :: "('raw mem_store, 'a) lk \<Rightarrow> ('raw mem_store, 'a) lk" where
  "locked body \<equiv> bindL Lock (\<lambda>_. deferL Unlock body)"

section \<open>The operations\<close>

definition Memory_Delete :: "string \<Rightarrow> ('raw mem_store, unit) lk" where
  "Memory_Delete key = locked (\<lambda>i. Some (Ok (), i\<lparr>mem_s := (mem_s i)(key := None)\<rparr>))"

definition Memory_Get :: "'raw codec \<Rightarrow> gotype \<Rightarrow> string \<Rightarrow> ('raw mem_store, govalue option) lk" where
  "Memory_Get cdc t key =
     bindL RLock (\<lambda>_. deferL RUnlock (\<lambda>i.
       case mem_s i key of
         None \<Rightarrow> Some (Ok None, i)
       | Some val \<Rightarrow> Some (bindO (wrapO ''unmarshal error'' (Unmarshal cdc t val)) (\<lambda>v. Ok (Some v)), i)))"

definition Memory_Set :: "'raw codec \<Rightarrow> string \<Rightarrow> govalue \<Rightarrow> ('raw mem_store, unit) lk" where
  "Memory_Set cdc key v =
     locked (\<lambda>i. case wrapO ''marshal error'' (Marshal cdc v) of
         Ok value \<Rightarrow> Some (Ok (), i\<lparr>mem_s := (mem_s i)(key \<mapsto> value)\<rparr>)
       | Err e \<Rightarrow> Some (Err e, i)
       | Panic \<Rightarrow> Some (Panic, i))"

definition Memory_Flush :: "('raw mem_store, unit) lk" where
  "Memory_Flush = locked (\<lambda>i. Some (Ok (), i\<lparr>mem_s := Map.empty\<rparr>))"

definition Memory_DeleteByPattern :: "string \<Rightarrow> ('raw mem_store, unit) lk" where
  "Memory_DeleteByPattern pattern = failL (Msg ''unimplemented'')"

definition Memory_MulGet :: "gotype \<Rightarrow> string list \<Rightarrow> ('raw mem_store, (string \<times> govalue option) list) lk" where
  "Memory_MulGet t keys = failL (Msg ''unimplemented mulget'')"

text \<open>
  The loop over the map. Go gives the keys in an order of its own (\<open>order\<close>), without those that were
  deleted before their turn. The callback runs without the lock, and after an error or a stop the
  loop is left without it.
\<close>

fun range_keys :: "'raw codec \<Rightarrow> (string \<Rightarrow> (gotype \<Rightarrow> govalue outcome) \<Rightarrow> ('raw mem_store, bool) lk) \<Rightarrow>
    string list \<Rightarrow> ('raw mem_store, unit) lk" where
  "range_keys cdc si [] i = Some (Ok (), i)"
| "range_keys cdc si (key # order) i =
     (case mem_s i key of
        None \<Rightarrow> range_keys cdc si order i
      | Some val \<Rightarrow>
          bindL RUnlock (\<lambda>_.
          bindL (\<lambda>i. map_option (\<lambda>(r, i'). (wrapO ''iterate error'' r, i'))
                   (si key (\<lambda>t. wrapO ''unmarshal error'' (Unmarshal cdc t val)) i)) (\<lambda>stop.
          if stop then retL () else bindL RLock (\<lambda>_. range_keys cdc si order))) i)"

definition Memory_ListKeys :: "'raw codec \<Rightarrow>
    (string \<Rightarrow> (gotype \<Rightarrow> govalue outcome) \<Rightarrow> ('raw mem_store, bool) lk) option \<Rightarrow> string list \<Rightarrow> ('raw mem_store, unit) lk" where
  "Memory_ListKeys cdc si order =
     (case si of
        None \<Rightarrow> retL ()
      | Some f \<Rightarrow> bindL RLock (\<lambda>_. deferL RUnlock (range_keys cdc f order)))"

text \<open>\<open>Close\<close>: the channel is received from first; the goroutine of the file sees the close.\<close>

definition Memory_Close :: "('raw mem_store, unit) lk" where
  "Memory_Close i = (if mem_closed i then Some (Err (Msg ''already closed''), i) else Some (Ok (), i\<lparr>mem_closed := True\<rparr>))"

section \<open>The file\<close>

text \<open>The operations on the file; \<open>mf_Decode\<close> and \<open>mf_Encode\<close> are those of \<^verbatim>\<open>encoding/gob\<close>.\<close>

record ('w, 'raw) mem_file =
  mf_Open :: "('w, unit) st"
  mf_Truncate :: "('w, unit) st"
  mf_Seek :: "('w, unit) st"
  mf_Encode :: "(string \<rightharpoonup> 'raw) \<Rightarrow> ('w, unit) st"
  mf_Decode :: "('w, string \<rightharpoonup> 'raw) st"

definition new_mem :: "(string \<rightharpoonup> 'raw) \<Rightarrow> 'raw mem_store" where
  "new_mem m = \<lparr>mem_s = m, mem_mx = \<lparr>rw_readers = 0, rw_writer = False\<rparr>, mem_closed = False\<rparr>"

definition loadFromFileAndRunPersistence :: "('w, 'raw) mem_file \<Rightarrow> ('w, string \<rightharpoonup> 'raw) st" where
  "loadFromFileAndRunPersistence f =
     thenS (wrapS ''open storage error'' (mf_Open f))
     (bindS (tryS (mf_Decode f)) (\<lambda>res.
      case res of
        Inl err \<Rightarrow> if errors_is err EOF then retS Map.empty else failS (Wrap ''decode with gob error'' err)
      | Inr m \<Rightarrow> retS m))"

definition Memory_New :: "('w, 'raw) mem_file option \<Rightarrow> ('w, 'raw mem_store) st" where
  "Memory_New file =
     (case file of
        None \<Rightarrow> retS (new_mem Map.empty)
      | Some f \<Rightarrow> bindS (loadFromFileAndRunPersistence f) (\<lambda>m. retS (new_mem m)))"

text \<open>\<open>saveStore\<close> under the lock; the goroutine drops its error.\<close>

definition saveStore :: "('w, 'raw) mem_file \<Rightarrow> (string \<rightharpoonup> 'raw) \<Rightarrow> ('w, unit) st" where
  "saveStore f m =
     thenS (wrapS ''truncate file error'' (mf_Truncate f))
     (thenS (wrapS ''seek error'' (mf_Seek f))
       (wrapS ''encode error'' (mf_Encode f m)))"

section \<open>Transactions\<close>

text \<open>A transaction is the store itself.\<close>

definition Memory_WithTx :: "'s \<Rightarrow> unit \<Rightarrow> 's outcome" where
  "Memory_WithTx i tx = Ok i"

definition InMemory_Commit :: "unit \<Rightarrow> ('w, unit) st" where
  "InMemory_Commit tx = retS ()"

definition InMemory_Rollback :: "unit \<Rightarrow> ('w, unit) st" where
  "InMemory_Rollback tx = retS ()"

definition NewInMemoryTransactionFactory :: "('w, unit) tx_driver" where
  "NewInMemoryTransactionFactory =
     \<lparr>tx_Begin = (\<lambda>settings. wrapS ''create tx error'' (retS ())), tx_Commit = InMemory_Commit, tx_Rollback = InMemory_Rollback\<rparr>"

section \<open>Values and the lock\<close>

abbreviation free_mx :: rwmutex where
  "free_mx \<equiv> \<lparr>rw_readers = 0, rw_writer = False\<rparr>"

definition unlocked :: "'raw mem_store \<Rightarrow> bool" where
  "unlocked i \<longleftrightarrow> mem_mx i = free_mx"

lemma mem_store_eta: "mem_mx i = mx \<Longrightarrow> i\<lparr>mem_mx := mx\<rparr> = i"
  by (cases i) simp

lemma locked_apply:
  assumes "unlocked i" and "body (i\<lparr>mem_mx := \<lparr>rw_readers = 0, rw_writer = True\<rparr>\<rparr>) = Some (r, j)" and "rw_writer (mem_mx j)"
  shows "locked body i = Some (r, j\<lparr>mem_mx := mem_mx j\<lparr>rw_writer := False\<rparr>\<rparr>)"
  using assms by (simp add: unlocked_def bindL_def deferL_def Lock_def Unlock_def)

lemma read_locked_apply:
  assumes "unlocked i" and "body (i\<lparr>mem_mx := \<lparr>rw_readers = 1, rw_writer = False\<rparr>\<rparr>) = Some (r, j)" and "rw_readers (mem_mx j) = Suc n"
  shows "bindL RLock (\<lambda>_. deferL RUnlock body) i = Some (r, j\<lparr>mem_mx := mem_mx j\<lparr>rw_readers := n\<rparr>\<rparr>)"
  using assms by (simp add: unlocked_def bindL_def deferL_def RLock_def RUnlock_def)

lemma Memory_Get_unlocked:
  assumes "unlocked i"
  shows "Memory_Get cdc t key i =
    Some (case mem_s i key of None \<Rightarrow> Ok None | Some val \<Rightarrow> bindO (wrapO ''unmarshal error'' (Unmarshal cdc t val)) (\<lambda>v. Ok (Some v)), i)"
proof -
  let ?r = "case mem_s i key of None \<Rightarrow> Ok None | Some val \<Rightarrow> bindO (wrapO ''unmarshal error'' (Unmarshal cdc t val)) (\<lambda>v. Ok (Some v))"
  have "Memory_Get cdc t key i = Some (?r, i\<lparr>mem_mx := \<lparr>rw_readers = 1, rw_writer = False\<rparr>, mem_mx := free_mx\<rparr>)"
    unfolding Memory_Get_def
    by (rule trans [OF read_locked_apply [OF assms, where n = 0 and r = ?r and j = "i\<lparr>mem_mx := \<lparr>rw_readers = 1, rw_writer = False\<rparr>\<rparr>"]])
      (auto split: option.split)
  with assms show ?thesis by (simp add: unlocked_def mem_store_eta)
qed

lemma Memory_Set_unlocked:
  assumes "unlocked i" and "Marshal cdc v = Ok raw"
  shows "Memory_Set cdc key v i = Some (Ok (), i\<lparr>mem_s := (mem_s i)(key \<mapsto> raw)\<rparr>)"
  unfolding Memory_Set_def
  by (subst locked_apply [OF assms(1)]) (use assms in \<open>auto simp: unlocked_def\<close>)

lemma Memory_Delete_unlocked: "unlocked i \<Longrightarrow> Memory_Delete key i = Some (Ok (), i\<lparr>mem_s := (mem_s i)(key := None)\<rparr>)"
  unfolding Memory_Delete_def by (subst locked_apply) (auto simp: unlocked_def)

lemma Memory_Flush_unlocked: "unlocked i \<Longrightarrow> Memory_Flush i = Some (Ok (), i\<lparr>mem_s := Map.empty\<rparr>)"
  unfolding Memory_Flush_def by (subst locked_apply) (auto simp: unlocked_def)

text \<open>
  The store in memory gives back what was stored, for every value of the program and every codec that
  decodes what it encodes: a key reads as the value set last, a deleted one as absent, the other keys
  as before, and every operation leaves the lock free.
\<close>

theorem memory_store_roundtrip:
  assumes "codec_laws cdc" and "unlocked i"
  shows "\<exists>i'. Memory_Set cdc key v i = Some (Ok (), i') \<and> unlocked i' \<and>
    Memory_Get cdc (gotype_of v) key i' = Some (Ok (Some v), i') \<and>
    (\<forall>other t. other \<noteq> key \<longrightarrow> map_option fst (Memory_Get cdc t other i') = map_option fst (Memory_Get cdc t other i)) \<and>
    (\<exists>i''. Memory_Delete key i' = Some (Ok (), i'') \<and> unlocked i'' \<and> Memory_Get cdc (gotype_of v) key i'' = Some (Ok None, i''))"
proof -
  obtain raw where m: "Marshal cdc v = Ok raw" using codec_laws.Marshal_total [OF assms(1)] by blast
  let ?i = "i\<lparr>mem_s := (mem_s i)(key \<mapsto> raw)\<rparr>"
  let ?d = "?i\<lparr>mem_s := (mem_s ?i)(key := None)\<rparr>"
  have u: "unlocked ?i" "unlocked ?d" using assms(2) by (simp_all add: unlocked_def)
  have "Memory_Set cdc key v i = Some (Ok (), ?i)" by (rule Memory_Set_unlocked [OF assms(2) m])
  moreover have "Memory_Get cdc (gotype_of v) key ?i = Some (Ok (Some v), ?i)"
    using Memory_Get_unlocked [OF u(1)] codec_laws.Unmarshal_Marshal [OF assms(1) m] by simp
  moreover have "Memory_Delete key ?i = Some (Ok (), ?d)" by (rule Memory_Delete_unlocked [OF u(1)])
  moreover have "Memory_Get cdc (gotype_of v) key ?d = Some (Ok None, ?d)" using Memory_Get_unlocked [OF u(2)] by simp
  moreover have "map_option fst (Memory_Get cdc t other ?i) = map_option fst (Memory_Get cdc t other i)" if "other \<noteq> key" for other t
    using that Memory_Get_unlocked [OF u(1)] Memory_Get_unlocked [OF assms(2)] by simp
  ultimately show ?thesis using u by blast
qed

text \<open>
  A listing of the store that is stopped, or whose callback fails, ends the program: the lock was given
  back before the callback and is given back once more when the function returns. A listing that goes
  through to the end leaves it free.
\<close>

theorem stopped_listing_crashes:
  assumes "unlocked i" and "mem_s i key = Some val" and "\<And>get j. \<exists>r. si key get j = Some (r, j) \<and> r \<noteq> Ok False"
  shows "\<exists>i'. Memory_ListKeys cdc (Some si) (key # order) i = Some (Panic, i')"
proof -
  let ?get = "\<lambda>t. wrapO ''unmarshal error'' (Unmarshal cdc t val)"
  let ?j = "i\<lparr>mem_mx := free_mx\<rparr>"
  obtain r where "si key ?get ?j = Some (r, ?j)" "r \<noteq> Ok False" using assms(3) by blast
  moreover have "mem_mx i = free_mx" using assms(1) by (simp add: unlocked_def)
  ultimately show ?thesis
    using assms(2)
    by (cases r) (auto simp: Memory_ListKeys_def bindL_def deferL_def RLock_def RUnlock_def retL_def)
qed

lemma full_listing_unlocks:
  assumes "unlocked i" and "\<And>key get j. key \<in> set order \<Longrightarrow> si key get j = Some (Ok False, j)"
  shows "Memory_ListKeys cdc (Some si) order i = Some (Ok (), i)"
proof -
  have "range_keys cdc si order (i\<lparr>mem_mx := \<lparr>rw_readers = 1, rw_writer = False\<rparr>\<rparr>) =
      Some (Ok (), i\<lparr>mem_mx := \<lparr>rw_readers = 1, rw_writer = False\<rparr>\<rparr>)"
    using assms(2)
  proof (induction order)
    case (Cons key order)
    then show ?case by (simp add: bindL_def RUnlock_def RLock_def split: option.split)
  qed simp
  then show ?thesis
    using assms(1) by (simp add: Memory_ListKeys_def read_locked_apply [where n = 0] unlocked_def mem_store_eta)
qed

text \<open>A store over a codec that keeps the values, with one key.\<close>

definition plain_codec :: "govalue codec" where
  "plain_codec = \<lparr>Marshal = Ok, Unmarshal = (\<lambda>t v. if gotype_of v = t then Ok v else Err (Foreign ''json: cannot unmarshal''))\<rparr>"

interpretation plain: codec_laws plain_codec
  by unfold_locales (auto simp: plain_codec_def foreign_def split: if_splits)

theorem memory_store_roundtrip_witness:
  "\<exists>i'. Memory_Set plain_codec ''k'' (VInt64 7) (new_mem Map.empty) = Some (Ok (), i') \<and>
     Memory_Get plain_codec TInt64 ''k'' i' = Some (Ok (Some (VInt64 7)), i')"
  using memory_store_roundtrip [OF plain.codec_laws_axioms, of "new_mem Map.empty" "''k''" "VInt64 7"]
  by (auto simp: unlocked_def new_mem_def)

theorem stopped_listing_crashes_witness:
  "\<exists>i'. Memory_ListKeys plain_codec (Some (\<lambda>key get. retL True)) [''k'', ''l''] (new_mem [''k'' \<mapsto> VInt64 1, ''l'' \<mapsto> VInt64 2]) = Some (Panic, i')"
  by (rule stopped_listing_crashes) (simp_all add: unlocked_def new_mem_def retL_def)

section \<open>The file and the transactions\<close>

text \<open>
  Saving is not atomic. Once the file is truncated, a failure of the next steps, or the end of the
  process, leaves an empty file, and the next start takes it for a store without keys, without an error.
\<close>

theorem failed_save_loses_store:
  assumes "mf_Truncate f w = (Ok (), w1)" and "mf_Seek f w1 = (Ok (), w2)" and "mf_Encode f m w2 = (Err e, w3)"
    and "mf_Open f w3 = (Ok (), w4)" and "mf_Decode f w4 = (Err EOF, w5)"
  shows "fst (saveStore f m w) = Err (Wrap ''encode error'' e) \<and> Memory_New (Some f) w3 = (Ok (new_mem Map.empty), w5)"
  using assms
  by (simp add: saveStore_def Memory_New_def loadFromFileAndRunPersistence_def thenS_def bindS_def wrapS_def tryS_def retS_def)

text \<open>A file in memory on a full disk.\<close>

definition full_disk :: "((string \<rightharpoonup> nat) option, nat) mem_file" where
  "full_disk = \<lparr>mf_Open = retS (), mf_Truncate = (\<lambda>_. (Ok (), None)), mf_Seek = retS (),
     mf_Encode = (\<lambda>m. failS (Foreign ''no space left on device'')),
     mf_Decode = (\<lambda>w. (case w of None \<Rightarrow> Err EOF | Some m \<Rightarrow> Ok m, w))\<rparr>"

theorem failed_save_loses_store_witness:
  "fst (Memory_New (Some full_disk) (Some [''k'' \<mapsto> 1])) = Ok (new_mem [''k'' \<mapsto> 1]) \<and>
   fst (Memory_New (Some full_disk) (snd (saveStore full_disk [''k'' \<mapsto> 1] (Some [''k'' \<mapsto> 1])))) = Ok (new_mem Map.empty)"
  using failed_save_loses_store [of full_disk "Some [''k'' \<mapsto> 1]" None None "[''k'' \<mapsto> 1]" "Foreign ''no space left on device''" None None None]
  by (simp add: full_disk_def retS_def failS_def saveStore_def Memory_New_def loadFromFileAndRunPersistence_def
    thenS_def bindS_def wrapS_def tryS_def)

text \<open>
  A transaction of the store in memory is none: running a block in it is running the block. What the
  block wrote before it failed stays, where the interface promises that all of it is undone.
\<close>

theorem inmemory_transaction_is_none:
  "Do (Some NewInMemoryTransactionFactory) settings fn = fn ()"
proof
  fix w
  show "Do (Some NewInMemoryTransactionFactory) settings fn w = fn () w"
    by (cases "fn () w"; cases "fst (fn () w)")
      (auto simp: Do_def NewInMemoryTransactionFactory_def InMemory_Commit_def InMemory_Rollback_def commit_or_rollback_def
        rollback_with_def bindS_def tryS_def wrapS_def thenS_def retS_def failS_def)
qed

end
