(* ===== verification/LevelDB_Store.thy ===== *)
theory LevelDB_Store
  imports Memory_Store "HOL-Library.AList"
begin

text \<open>
  The key-value store over LevelDB (\<^verbatim>\<open>inmemorykvstore/leveldb/leveldb.go\<close>) and its transactions
  (\<^verbatim>\<open>drivers/leveldb\<close>). The database of goleveldb and the codec are parameters; what goleveldb documents
  is the locale \<open>leveldb_client\<close>, under which the store keeps the laws of the key-value interface.
\<close>

section \<open>The store\<close>

text \<open>
  \<open>ld_NewIterator\<close>: the entries the iterator yields and its final error; \<open>ld_released\<close> is the error of
  an iterator after its release, which yields nothing more.
\<close>

record ('w, 'raw) leveldb =
  ld_Get :: "string \<Rightarrow> ('w, 'raw) st"
  ld_Put :: "string \<Rightarrow> 'raw \<Rightarrow> ('w, unit) st"
  ld_Delete :: "string \<Rightarrow> ('w, unit) st"
  ld_NewIterator :: "('w, (string \<times> 'raw) list \<times> go_error option) st"
  ld_released :: "go_error option"

definition LevelDB_Get :: "('w, 'raw) leveldb \<Rightarrow> 'raw codec \<Rightarrow> gotype \<Rightarrow> string \<Rightarrow> ('w, govalue option) st" where
  "LevelDB_Get db cdc t key =
     bindS (tryS (ld_Get db key)) (\<lambda>res.
     case res of
       Inl err \<Rightarrow> if errors_is err LevelDBNotFound then retS None else failS err
     | Inr val \<Rightarrow> bindS (wrapS ''failed to decode value'' (liftO (Unmarshal cdc t val))) (\<lambda>v. retS (Some v)))"

definition LevelDB_Set :: "('w, 'raw) leveldb \<Rightarrow> 'raw codec \<Rightarrow> string \<Rightarrow> govalue \<Rightarrow> ('w, unit) st" where
  "LevelDB_Set db cdc key v =
     bindS (wrapS ''failed to encode value'' (liftO (Marshal cdc v))) (\<lambda>value.
     wrapS ''failed to put the key'' (ld_Put db key value))"

definition LevelDB_Delete :: "('w, 'raw) leveldb \<Rightarrow> string \<Rightarrow> ('w, unit) st" where
  "LevelDB_Delete db key = wrapS ''failed to delete the key'' (ld_Delete db key)"

text \<open>The loop: whether it was stopped, after which the iterator is released and yields nothing.\<close>

fun iterate_keys :: "'raw codec \<Rightarrow> (string \<Rightarrow> (gotype \<Rightarrow> govalue outcome) \<Rightarrow> ('w, bool) st) option \<Rightarrow>
    (string \<times> 'raw) list \<Rightarrow> ('w, bool) st" where
  "iterate_keys cdc si [] = retS False"
| "iterate_keys cdc si ((key, value) # rest) =
     (case si of
        None \<Rightarrow> iterate_keys cdc si rest
      | Some f \<Rightarrow> bindS (f key (\<lambda>t. Unmarshal cdc t value)) (\<lambda>stop. if stop then retS True else iterate_keys cdc si rest))"

definition LevelDB_ListKeys :: "('w, 'raw) leveldb \<Rightarrow> 'raw codec \<Rightarrow>
    (string \<Rightarrow> (gotype \<Rightarrow> govalue outcome) \<Rightarrow> ('w, bool) st) option \<Rightarrow> ('w, unit) st" where
  "LevelDB_ListKeys db cdc si =
     bindS (ld_NewIterator db) (\<lambda>(entries, iterErr).
     bindS (iterate_keys cdc si entries) (\<lambda>stopped.
     case (if stopped then ld_released db else iterErr) of
       None \<Rightarrow> retS ()
     | Some err \<Rightarrow> failS (Wrap ''iterator error'' err)))"

definition LevelDB_DeleteByPattern :: "string \<Rightarrow> ('w, unit) st" where
  "LevelDB_DeleteByPattern pattern = failS (Msg ''unimplemented'')"

definition LevelDB_Flush :: "('w, 'raw) leveldb \<Rightarrow> 'raw codec \<Rightarrow> ('w, unit) st" where
  "LevelDB_Flush db cdc = LevelDB_ListKeys db cdc (Some (\<lambda>key getValue. thenS (ld_Delete db key) (retS False)))"

definition LevelDB_MulGet :: "gotype \<Rightarrow> string list \<Rightarrow> ('w, (string \<times> govalue option) list) st" where
  "LevelDB_MulGet t keys = failS (Msg ''unimplemented mulget'')"

definition LevelDBStore :: "('w, 'raw) leveldb \<Rightarrow> 'raw codec \<Rightarrow> 'w kv_store" where
  "LevelDBStore db cdc =
     \<lparr>kv_Get = LevelDB_Get db cdc, kv_MulGet = LevelDB_MulGet, kv_Set = LevelDB_Set db cdc,
      kv_Delete = LevelDB_Delete db, kv_DeleteByPattern = LevelDB_DeleteByPattern\<rparr>"

definition LevelDB_WithTx :: "('tx \<Rightarrow> ('w, 'raw) leveldb) \<Rightarrow> 'raw codec \<Rightarrow> 'tx \<Rightarrow> 'w kv_store outcome" where
  "LevelDB_WithTx Transaction cdc tx = Ok (LevelDBStore (Transaction tx) cdc)"

section \<open>Transactions\<close>

text \<open>What the driver calls of goleveldb, and the field \<open>tx\<close> of every transaction made: \<open>None\<close> is nil.\<close>

record ('w, 'h) leveldb_tx_api =
  lt_OpenTransaction :: "('w, 'h) st"
  lt_Commit :: "'h \<Rightarrow> ('w, unit) st"
  lt_Discard :: "'h \<Rightarrow> ('w, unit) st"

record ('w, 'h) lworld =
  lw_db :: 'w
  lw_tx :: "nat \<Rightarrow> 'h option"
  lw_next :: nat

definition on_db :: "('w, 'a) st \<Rightarrow> (('w, 'h) lworld, 'a) st" where
  "on_db f = (\<lambda>w. case f (lw_db w) of (r, v) \<Rightarrow> (r, w\<lparr>lw_db := v\<rparr>))"

definition LevelDBTransaction_close :: "nat \<Rightarrow> ('w, 'h) lworld \<Rightarrow> ('w, 'h) lworld" where
  "LevelDBTransaction_close l w = w\<lparr>lw_tx := (lw_tx w)(l := None)\<rparr>"

text \<open>\<open>defer l.close()\<close>: it runs after the commit, whatever that returned.\<close>

definition LevelDBTransaction_Commit :: "('w, 'h) leveldb_tx_api \<Rightarrow> nat \<Rightarrow> (('w, 'h) lworld, unit) st" where
  "LevelDBTransaction_Commit api l = (\<lambda>w.
     case lw_tx w l of
       None \<Rightarrow> (Err ErrAlreadyCommitted, w)
     | Some tx \<Rightarrow> (case on_db (lt_Commit api tx) w of (r, w') \<Rightarrow> (r, LevelDBTransaction_close l w')))"

text \<open>\<open>Discard\<close> on the nil transaction panics.\<close>

definition LevelDBTransaction_Rollback :: "('w, 'h) leveldb_tx_api \<Rightarrow> nat \<Rightarrow> (('w, 'h) lworld, unit) st" where
  "LevelDBTransaction_Rollback api l = (\<lambda>w.
     case lw_tx w l of
       None \<Rightarrow> (Panic, w)
     | Some tx \<Rightarrow>
         (case on_db (lt_Discard api tx) w of
            (Panic, w') \<Rightarrow> (Panic, w')
          | (_, w') \<Rightarrow> (Ok (), LevelDBTransaction_close l w')))"

definition NewLevelDBTransactionFactory :: "('w, 'h) leveldb_tx_api \<Rightarrow> (('w, 'h) lworld, nat) tx_driver" where
  "NewLevelDBTransactionFactory api =
     \<lparr>tx_Begin = (\<lambda>settings. bindS (wrapS ''failed to open transaction'' (on_db (lt_OpenTransaction api))) (\<lambda>tx w.
        (Ok (lw_next w), w\<lparr>lw_next := Suc (lw_next w), lw_tx := (lw_tx w)(lw_next w \<mapsto> tx)\<rparr>))),
      tx_Commit = LevelDBTransaction_Commit api, tx_Rollback = LevelDBTransaction_Rollback api\<rparr>"

section \<open>What goleveldb documents\<close>

definition dapplies :: "('w \<Rightarrow> string \<rightharpoonup> 'raw) \<Rightarrow> ('w \<Rightarrow> 'r) \<Rightarrow> ('w, unit) st \<Rightarrow> string \<Rightarrow> 'raw option \<Rightarrow> bool" where
  "dapplies dk ck f k e \<longleftrightarrow> (\<forall>w r w'. f w = (r, w') \<longrightarrow>
     ck w' = ck w \<and> r \<noteq> Panic \<and> (r = Ok () \<longrightarrow> dk w' = (dk w)(k := e)) \<and>
     (dk w' = dk w \<or> dk w' = (dk w)(k := e)))"

locale leveldb_client = codec_laws cdc
  for cdc :: "'raw codec" +
  fixes db :: "('w, 'raw) leveldb" and dk :: "'w \<Rightarrow> string \<rightharpoonup> 'raw" and ck :: "'w \<Rightarrow> 'r"
  assumes Get_frame: "ld_Get db k w = (r, w') \<Longrightarrow> dk w' = dk w \<and> ck w' = ck w \<and> r \<noteq> Panic"
    and Get_Ok: "ld_Get db k w = (Ok raw, w') \<Longrightarrow> dk w k = Some raw"
    and Get_NotFound: "ld_Get db k w = (Err e, w') \<Longrightarrow> errors_is e LevelDBNotFound \<Longrightarrow> dk w k = None"
    and Get_error: "ld_Get db k w = (Err e, w') \<Longrightarrow> foreign e"
    and Put: "dapplies dk ck (ld_Put db k raw) k (Some raw)"
    and Delete: "dapplies dk ck (ld_Delete db k) k None"
    and Iterator_frame: "ld_NewIterator db w = (q, w') \<Longrightarrow> dk w' = dk w \<and> ck w' = ck w \<and> q \<noteq> Panic"
    and Iterator_all: "ld_NewIterator db w = (Ok (es, None), w') \<Longrightarrow> map_of es = dk w"

definition dview :: "'raw codec \<Rightarrow> (string \<rightharpoonup> 'raw) \<Rightarrow> kstate" where
  "dview cdc m = (\<lambda>k. map_option (decoded cdc) (m k))"

lemma dview_upd: "dview cdc (m(k := e)) = (dview cdc m)(k := map_option (decoded cdc) e)"
  by (simp add: dview_def fun_eq_iff)

lemma dview_applies:
  assumes "dapplies dk ck f k e" and "\<And>m. exec c m = m(k := map_option (decoded cdc) e)"
  shows "applies (\<lambda>w. dview cdc (dk w)) ck f c"
  using assms unfolding dapplies_def applies_def by (metis dview_upd)

context leveldb_client
begin

lemma LevelDB_Get_outcome:
  assumes "LevelDB_Get db cdc t k w = (r, w')"
  shows "dk w' = dk w \<and> ck w' = ck w \<and> r \<noteq> Panic \<and> (r = Ok None \<longrightarrow> dk w k = None) \<and>
    (\<forall>x. r = Ok (Some x) \<longrightarrow> (\<exists>raw. dk w k = Some raw \<and> Unmarshal cdc t raw = Ok x)) \<and>
    (\<forall>e. r = Err e \<longrightarrow> foreign e)"
proof -
  obtain q v where q: "ld_Get db k w = (q, v)" by fastforce
  show ?thesis
  proof (cases q)
    case (Ok raw)
    then show ?thesis
      using assms q Get_frame [OF q] Get_Ok Unmarshal_error [of t raw] Unmarshal_no_panic [of t raw]
      by (cases "Unmarshal cdc t raw") (auto simp: LevelDB_Get_def bindS_def tryS_def wrapS_def liftO_def retS_def foreign_def)
  next
    case (Err e)
    then show ?thesis using assms q Get_frame [OF q] Get_NotFound Get_error
      by (auto simp: LevelDB_Get_def bindS_def tryS_def retS_def failS_def split: if_splits)
  next
    case Panic
    then show ?thesis using Get_frame [OF q] by simp
  qed
qed

lemma LevelDB_Set_applies: "applies (\<lambda>w. dview cdc (dk w)) ck (LevelDB_Set db cdc k v) (KSet k v)"
proof -
  obtain raw where m: "Marshal cdc v = Ok raw" using Marshal_total by blast
  have "applies (\<lambda>w. dview cdc (dk w)) ck (ld_Put db k raw) (KSet k v)"
    by (rule dview_applies [OF Put]) (simp add: decoded_Marshal [OF m])
  then show ?thesis by (simp add: LevelDB_Set_def m go_simps applies_wrap)
qed

text \<open>Deleting while iterating over the snapshot.\<close>

lemma flush_loop:
  assumes "iterate_keys cdc (Some (\<lambda>key getValue. thenS (ld_Delete db key) (retS False))) es w = (Ok stopped, w')"
  shows "\<not> stopped \<and> dk w' = (\<lambda>k. if k \<in> fst ` set es then None else dk w k)"
  using assms
proof (induction es arbitrary: w)
  case (Cons e es)
  obtain key val where e: "e = (key, val)" by fastforce
  obtain w1 where d: "ld_Delete db key w = (Ok (), w1)"
    and r: "iterate_keys cdc (Some (\<lambda>key getValue. thenS (ld_Delete db key) (retS False))) es w1 = (Ok stopped, w')"
    using Cons.prems e by (auto simp: thenS_def retS_def elim!: bindS_OkE split: if_splits)
  have "dk w1 = (dk w)(key := None)" using Delete [of key] d unfolding dapplies_def by blast
  with Cons.IH [OF r] e show ?case by (auto simp: fun_eq_iff)
qed (simp add: retS_def)

lemma Flush_empties:
  assumes "LevelDB_Flush db cdc w = (Ok (), w')"
  shows "dk w' = Map.empty"
proof -
  let ?f = "Some (\<lambda>key (getValue :: gotype \<Rightarrow> govalue outcome). thenS (ld_Delete db key) (retS False))"
  from assms obtain p w1 where p: "ld_NewIterator db w = (Ok p, w1)"
    and "(case p of (entries, iterErr) \<Rightarrow> bindS (iterate_keys cdc ?f entries) (\<lambda>stopped.
       case (if stopped then ld_released db else iterErr) of
         None \<Rightarrow> retS () | Some err \<Rightarrow> failS (Wrap ''iterator error'' err))) w1 = (Ok (), w')"
    unfolding LevelDB_Flush_def LevelDB_ListKeys_def by (rule bindS_OkE)
  moreover obtain es ie where es: "p = (es, ie)" by fastforce
  ultimately have "bindS (iterate_keys cdc ?f es) (\<lambda>stopped. case (if stopped then ld_released db else ie) of
       None \<Rightarrow> retS () | Some err \<Rightarrow> failS (Wrap ''iterator error'' err)) w1 = (Ok (), w')" by simp
  then obtain stopped w2 where l: "iterate_keys cdc ?f es w1 = (Ok stopped, w2)"
    and e: "(case (if stopped then ld_released db else ie) of None \<Rightarrow> retS () | Some err \<Rightarrow> failS (Wrap ''iterator error'' err)) w2 = (Ok (), w')"
    by (rule bindS_OkE)
  have it: "ld_NewIterator db w = (Ok (es, ie), w1)" using p es by simp
  note f = flush_loop [OF l]
  with e have "ie = None" "w' = w2" by (auto simp: retS_def failS_def split: option.splits)
  then have "dom (dk w1) = fst ` set es" using Iterator_all it Iterator_frame [OF it] by (metis dom_map_of_conv_image_fst)
  with f \<open>w' = w2\<close> show ?thesis by (auto simp: fun_eq_iff domIff)
qed

end

sublocale leveldb_client \<subseteq> kv: kv_laws "LevelDBStore db cdc" "\<lambda>w. dview cdc (dk w)" ck
proof (unfold_locales, goal_cases)
  case (4 t k w v w' u)
  then show ?case by (auto simp: LevelDBStore_def dview_def dest!: LevelDB_Get_outcome decoded_Val Unmarshal_Marshal)
next
  case (6 k v)
  show ?case using LevelDB_Set_applies by (simp add: LevelDBStore_def)
next
  case (7 k)
  show ?case using dview_applies [OF Delete, of "KDel k" k cdc] by (simp add: LevelDBStore_def LevelDB_Delete_def applies_wrap)
qed (auto simp: LevelDBStore_def dview_def dest!: LevelDB_Get_outcome)

context leveldb_client
begin

lemma leveldb_store_kv: "kv_laws (LevelDBStore db cdc) (\<lambda>w. dview cdc (dk w)) ck"
  by (rule kv.kv_laws_axioms)

end

section \<open>An executable database\<close>

definition mem_leveldb :: "((string \<times> govalue) list, govalue) leveldb" where
  "mem_leveldb =
     \<lparr>ld_Get = (\<lambda>k w. (case map_of w k of None \<Rightarrow> Err LevelDBNotFound | Some v \<Rightarrow> Ok v, w)),
      ld_Put = (\<lambda>k v w. (Ok (), AList.update k v w)), ld_Delete = (\<lambda>k w. (Ok (), AList.delete k w)),
      ld_NewIterator = (\<lambda>w. (Ok (w, None), w)), ld_released = Some (Foreign ''leveldb/iterator: iterator released'')\<rparr>"

interpretation mem_leveldb: leveldb_client plain_codec mem_leveldb map_of "\<lambda>w. ()"
  by unfold_locales (auto simp: mem_leveldb_def dapplies_def foreign_def update_conv' delete_conv' split: option.splits)

section \<open>Properties\<close>



text \<open>
  A failed commit of a LevelDB transaction ends the program. The transaction forgets its handle
  whatever the commit returned, and the transaction manager then rolls back the nil handle.
\<close>

theorem leveldb_failed_commit_panics:
  assumes "lt_OpenTransaction api (lw_db w) = (Ok h, v)"
    and "fn (lw_next w) (w\<lparr>lw_db := v, lw_next := Suc (lw_next w), lw_tx := (lw_tx w)(lw_next w \<mapsto> h)\<rparr>) = (Ok (), wc)"
    and "lw_tx wc (lw_next w) = Some h" and "lt_Commit api h (lw_db wc) = (Err e, v')"
  shows "fst (Do (Some (NewLevelDBTransactionFactory api)) settings fn w) = Panic"
  using assms
  by (simp add: Do_def NewLevelDBTransactionFactory_def on_db_def bindS_def wrapS_def tryS_def commit_or_rollback_def
    rollback_with_def thenS_def LevelDBTransaction_Commit_def LevelDBTransaction_Rollback_def LevelDBTransaction_close_def)

text \<open>A database whose disk is full when the transaction is committed.\<close>

definition full_leveldb :: "(unit, unit) leveldb_tx_api" where
  "full_leveldb = \<lparr>lt_OpenTransaction = retS (), lt_Commit = (\<lambda>h. failS (Foreign ''no space left on device'')), lt_Discard = (\<lambda>h. retS ())\<rparr>"

theorem leveldb_failed_commit_panics_witness:
  "fst (Do (Some (NewLevelDBTransactionFactory full_leveldb)) None (\<lambda>tx. retS ()) \<lparr>lw_db = (), lw_tx = (\<lambda>l. None), lw_next = 0\<rparr>) = Panic"
  by (rule leveldb_failed_commit_panics [where h = "()" and wc = "\<lparr>lw_db = (), lw_tx = (\<lambda>l. None)(0 \<mapsto> ()), lw_next = 1\<rparr>"]) (simp_all add: full_leveldb_def retS_def failS_def)

text \<open>A listing that the callback stops is reported as an error.\<close>

lemma stopped_listing_fails:
  assumes "ld_NewIterator db w = (Ok ((key, val) # es, ie), w1)" and "f key (\<lambda>t. Unmarshal cdc t val) w1 = (Ok True, w2)"
    and "ld_released db = Some err"
  shows "LevelDB_ListKeys db cdc (Some f) w = (Err (Wrap ''iterator error'' err), w2)"
  using assms by (simp add: LevelDB_ListKeys_def bindS_def retS_def failS_def)

end
