(* ===== verification/Concurrent_Query.thy ===== *)
theory Concurrent_Query
  imports Service_Properties
begin

text \<open>
  Queries beside a scanner. The store takes no lock: a query reads the transactions of the address
  (\<open>SMEMBERS\<close>) and then their entries (\<open>MGET\<close>), and the scanner may commit a block in between. What
  is listed is then always unspent after the block, but the outputs the block creates for the
  address are missing, so the answer can be that of no state the store ever was in.
\<close>

text \<open>The store a query works on while \<open>env\<close> happens between its two reads.\<close>

definition concurrent :: "('w \<Rightarrow> 'w) \<Rightarrow> ('w, 'tx) utxo_store \<Rightarrow> ('w, 'tx) utxo_store" where
  "concurrent env U = U\<lparr>us_s := (us_s U)\<lparr>kv_base := (kv_base (us_s U))
     \<lparr>kv_MulGet := (\<lambda>t keys w. kv_MulGet (kv_base (us_s U)) t keys (env w))\<rparr>\<rparr>\<rparr>"

lemma base_concurrent: "base (concurrent env U) = between env (base U)"
  by (simp add: concurrent_def base_def between_def)

lemma listed_members:
  "set (concat (List.map (\<lambda>t. listed lib a t (entry_or_empty v m t)) ids)) =
    {\<lparr>ue_TxID = t, ue_Vout = of_nat i, ue_Output = Some o1, ue_BlockHeight = h\<rparr>
     | t i h o1. t \<in> set ids \<and> utxo v m (t, i) = Some (h, o1) \<and> a \<in> set (addrs_of lib o1)}"
proof -
  have "set (concat (List.map (\<lambda>t. listed lib a t (entry_or_empty v m t)) ids)) =
      (\<Union>t \<in> set ids. set (listed lib a t (entry_or_empty v m t)))" by simp
  then show ?thesis unfolding listed_set by blast
qed


text \<open>A block that spends the output of the address and pays the same amount to the address again.\<close>

definition self_payment :: block where
  "self_payment = \<lparr>bh_Hash = [171], bh_NextBlockHash = [], bh_PrevBlockHash = [], bh_Height = 1,
     bk_Transactions = [\<lparr>bt_ID = ''bb'',
       bt_VIn = [\<lparr>bi_Coinbase = None, bi_SpendingOutput = Some \<lparr>so_TxID = ''aa'', so_VOut = 0\<rparr>\<rparr>],
       bt_VOut = [\<lparr>bo_Value = Some \<lparr>am_coef = 1, am_exp = 0, am_above = False\<rparr>,
         bo_ScriptPubKey = Some \<lparr>spk_Type = ''nonstandard'', spk_HEX = ''010203''\<rparr>\<rparr>]\<rparr>]\<rparr>"

abbreviation wallet_service :: "(sim, unit) utxo_store \<Rightarrow> sim store_state utxo_service" where
  "wallet_service U \<equiv> store_service sample_lib 8 (\<lambda>s. Ok [1, 2, 3]) U"

text \<open>The world the block leaves.\<close>

definition paid_output :: tx_outputs where
  "paid_output = \<lparr>BlockHeight = 1, Outputs = [Some \<lparr>CompressedScript = [9, 1, 2, 3], CompressedAmount = 9\<rparr>]\<rparr>"

definition paid_world :: sim where
  "paid_world =
     \<lparr>sim_keys = [(hash_key ''1'', Inl (VString ''ab'')), (height_key ''1'', Inl (VInt64 1)),
        (addr_key ''1'' ''010203'', Inr [''bb'']), (tx_key ''1'' ''bb'', Inl (VOutputs paid_output))],
      sim_queue = [RCSet (hash_key ''1'') (VString ''ab''), RCSet (height_key ''1'') (VInt64 1), RCDel (tx_key ''1'' ''aa''),
        RCSet (tx_key ''1'' ''bb'') (VOutputs paid_output), RCAdd (addr_key ''1'' ''010203'') [''bb''],
        RCRem (addr_key ''1'' ''010203'') [''aa'']],
      sim_file = None, sim_faults = []\<rparr>"

definition pay_block :: "sim \<Rightarrow> sim" where
  "pay_block w = world (snd (AddFromBlock (wallet_service (sim_store ''1'')) self_payment \<lparr>world = w, isConsist = True\<rparr>))"

lemma self_payment_commits:
  "AddFromBlock (wallet_service (sim_store ''1'')) self_payment (sample_start []) =
     (Ok (), \<lparr>world = paid_world, isConsist = True\<rparr>)"
  by code_simp

lemma paid_world_typed: "outputs_typed ''1'' (sim_ks paid_world)"
  by (auto simp: outputs_typed_def paid_world_def view_def sim_space_def)

lemma torn_query: "GetUnspentOutputsByAddress sample_lib (concurrent (\<lambda>w. paid_world) (sim_store ''1'')) ''010203'' (sample_start []) =
    (Ok [], \<lparr>world = paid_world, isConsist = True\<rparr>)"
  by code_simp



end
