(* ===== verification/Program_Start.thy ===== *)
theory Program_Start
  imports Version_Cleanup Migration_Correct
begin

text \<open>
  The start of the program as a whole: every start migrates the chainstate into the next version when
  it is ahead of the store, adds that version, and deletes the older ones. The theorem below follows
  any number of starts that fail anywhere up to one that succeeds.
\<close>

section \<open>What the migration keeps\<close>

text \<open>A step keeps a property of the world whatever its outcome.\<close>

definition preserves :: "('w \<Rightarrow> bool) \<Rightarrow> ('w, 'a) st \<Rightarrow> bool" where
  "preserves I f \<longleftrightarrow> (\<forall>w r w'. I w \<longrightarrow> f w = (r, w') \<longrightarrow> I w')"

lemma preservesD: "preserves I f \<Longrightarrow> f w = (r, w') \<Longrightarrow> I w \<Longrightarrow> I w'"
  unfolding preserves_def by blast

lemma preserves_pure [intro]: "preserves I (retS a)" "preserves I (failS e)" "preserves I panicS" "preserves I (liftO x)"
  by (simp_all add: preserves_def retS_def failS_def panicS_def liftO_def)

lemma preserves_bind [intro]: "preserves I f \<Longrightarrow> (\<And>a. preserves I (g a)) \<Longrightarrow> preserves I (bindS f g)"
  unfolding preserves_def by (metis bindS_cases)

lemma preserves_bindI:
  "preserves I f \<Longrightarrow> (\<And>a w w'. I w \<Longrightarrow> f w = (Ok a, w') \<Longrightarrow> preserves I (g a)) \<Longrightarrow> preserves I (bindS f g)"
  unfolding preserves_def by (metis bindS_cases)

lemma preserves_then [intro]: "preserves I f \<Longrightarrow> preserves I g \<Longrightarrow> preserves I (thenS f g)"
  unfolding preserves_def by (metis thenS_cases)

lemma preserves_wrap [intro]: "preserves I f \<Longrightarrow> preserves I (wrapS m f)"
  unfolding preserves_def wrapS_def by (auto split: prod.splits)

lemma preserves_on_store [intro]: "preserves I f \<Longrightarrow> preserves (\<lambda>m. I (mig_world m)) (on_store f)"
  unfolding preserves_def on_store_def by (auto split: prod.splits)

text \<open>What the operations of its store keep, the migration keeps.\<close>

locale migration_invariant =
  fixes s :: "'w migration_store" and I :: "'w \<Rightarrow> bool" and hash :: "bytes outcome" and h :: int
  assumes exists: "preserves I (ms_AreExiststsOutputs s t)"
    and batch: "preserves I (ms_AddTransactionOutputsBatch s b)"
    and hash: "hash = Ok bh \<Longrightarrow> preserves I (ms_SetBlockHash s (hex_EncodeToString bh))"
    and height: "preserves I (ms_SetBlockHeight s h)"
begin

abbreviation J :: "'w migrator \<Rightarrow> bool" where
  "J m \<equiv> I (mig_world m)"

lemma storeUTXOBatch_keeps: "preserves J (storeUTXOBatch s b)"
proof -
  have u: "preserves J (on_store (updateUTXObatch s b))"
    unfolding updateUTXObatch_def Let_def by (intro preserves_on_store preserves_wrap batch)
  have a: "preserves J (bindS (on_store (wrapS ''fialed to check outputs'' (ms_AreExiststsOutputs s (te_txID (last b))))) (\<lambda>found.
          if \<not> found then
            thenS (\<lambda>m. (Ok (), m\<lparr>restoredLastSavedTxID := True\<rparr>)) (on_store (updateUTXObatch s b))
          else retS ()))"
  proof (intro preserves_bind preserves_on_store preserves_wrap exists)
    fix found
    have "preserves J (\<lambda>m. (Ok (), m\<lparr>restoredLastSavedTxID := True\<rparr>))" by (simp add: preserves_def)
    then show "preserves J (if \<not> found then
            thenS (\<lambda>m. (Ok (), m\<lparr>restoredLastSavedTxID := True\<rparr>)) (on_store (updateUTXObatch s b)) else retS ())"
      using u by auto
  qed
  show ?thesis
    unfolding preserves_def storeUTXOBatch_def using preservesD [OF u] preservesD [OF a]
    by (auto simp: retS_apply split: if_splits)
qed

lemma retry_keeps:
  assumes "retry_batch (storeUTXOBatch s b) m = Some (r, m')" and "J m"
  shows "J m'"
proof -
  have "J m' \<and> (\<forall>u. r = Ok u \<longrightarrow> True) \<and> (\<forall>e. r \<noteq> Err e)"
    by (rule retry_invariant [OF assms(1), where I = J]) (use assms(2) preservesD [OF storeUTXOBatch_keeps] in auto)
  then show ?thesis by simp
qed

lemma migrate_loop_invariant:
  assumes "migrate_loop lib key s bs es p m = Some (r, m')" and "J m"
  shows "J m'"
  using assms
proof (induction "length es" arbitrary: es p m rule: less_induct)
  case less
  obtain n es' where n: "UTXOIterator_Next (btc_ec lib) key es = (n, es')" by fastforce
  show ?case
  proof (cases n)
    case (Ok u)
    have sh: "length es' < length es" using Next_shorter n Ok by blast
    obtain t where t: "take_utxo lib p u = t" by blast
    show ?thesis
    proof (cases t)
      case t': (Ok q)
      obtain us cur b where q: "q = (us, cur, b)" by (cases q)
      show ?thesis
      proof (cases "int (length b) = bs")
        case False
        then have "migrate_loop lib key s bs es' (us, cur, b) m = Some (r, m')"
          using less.prems(1) n Ok t t' q by (simp add: migrate_loop.simps [of lib key s bs es])
        from less.hyps [OF sh this less.prems(2)] show ?thesis .
      next
        case True
        obtain x m1 where x: "retry_batch (storeUTXOBatch s b) m = Some (x, m1)"
          using less.prems(1) n Ok t t' q True by (auto simp: migrate_loop.simps [of lib key s bs es] split: option.splits)
        note j = retry_keeps [OF x less.prems(2)]
        show ?thesis
        proof (cases x)
          case x': (Ok v)
          then have "migrate_loop lib key s bs es' (us, cur, []) m1 = Some (r, m')"
            using less.prems(1) n Ok t t' q True x by (simp add: migrate_loop.simps [of lib key s bs es])
          from less.hyps [OF sh this j] show ?thesis .
        qed (use j less.prems(1) n Ok t t' q True x in \<open>simp_all add: migrate_loop.simps [of lib key s bs es]\<close>)
      qed
    qed (use less.prems n Ok t in \<open>simp_all add: migrate_loop.simps [of lib key s bs es]\<close>)
  qed (use less.prems n in \<open>simp_all add: migrate_loop.simps [of lib key s bs es] split: if_splits\<close>)
qed

lemma finish_keeps:
  assumes "hash = Chainstate_GetBlockHash key cdb"
  shows "preserves J (finish_migration lib key cdb s h p)"
proof -
  have "preserves J (bindS (wrapS ''failed to get block hash'' (liftO hash)) (\<lambda>blockHash.
     thenS (on_store (wrapS ''failed to set block hash'' (ms_SetBlockHash s (hex_EncodeToString blockHash))))
       (on_store (wrapS ''failed to set block height'' (ms_SetBlockHeight s h)))))"
  proof (cases "hash")
    case (Ok bh)
    then show ?thesis
      by (simp add: go_simps) (intro preserves_then preserves_on_store preserves_wrap hash [OF Ok] height)
  qed (auto simp: preserves_def wrapS_def bindS_def liftO_def)
  note rest = this
  have "preserves J (if b \<noteq> [] then wrapS ''failed to store utxo batch'' (storeUTXOBatch s b) else retS ())" for b
    using storeUTXOBatch_keeps by auto
  then show ?thesis unfolding finish_migration_def assms [symmetric]
    by (intro preserves_bind [OF preserves_pure(4)] preserves_then rest)
qed

lemma Migrate_invariant:
  assumes "Migrate lib key cdb s bs h m = Some (r, m')" and "hash = Chainstate_GetBlockHash key cdb" and "J m"
  shows "J m'"
proof (cases "ApproximateSize cdb")
  case (Ok n)
  show ?thesis
  proof (cases "bs < 0")
    case False
    then obtain x m1 where l: "migrate_loop lib key s bs (ldb_entries cdb) ([], '''', []) m = Some (x, m1)"
      using assms(1) Ok by (auto simp: Migrate_def split: option.splits)
    note j = migrate_loop_invariant [OF l assms(3)]
    show ?thesis
    proof (cases x)
      case (Ok p)
      then have "finish_migration lib key cdb s h p m1 = (r, m')"
        using assms(1) l \<open>ApproximateSize cdb = Ok n\<close> False by (simp add: Migrate_def)
      from preservesD [OF finish_keeps [OF assms(2)] this j] show ?thesis .
    qed (use j assms(1) l Ok False in \<open>simp_all add: Migrate_def\<close>)
  qed (use assms(1,3) Ok in \<open>simp add: Migrate_def\<close>)
qed (use assms(1,3) in \<open>simp_all add: Migrate_def\<close>)

end

text \<open>
  The migration into the store of one version changes keys of transactions and addresses of that
  version, sets the block hash to that of the chainstate and the height to the one it is given.
\<close>

context utxo_backend
begin

definition kept :: "string set \<Rightarrow> kstate \<Rightarrow> ckpt_file \<Rightarrow> 'w store_state \<Rightarrow> bool" where
  "kept K m0 c0 s \<longleftrightarrow> ck (world s) = c0 \<and> (\<forall>k \<in> K. ks (world s) k = m0 k)"

lemma kept_on_world:
  assumes "\<And>w r w'. f w = (r, w') \<Longrightarrow> ck w' = ck w \<and> (\<forall>k \<in> K. ks w k = m0 k \<longrightarrow> ks w' k = m0 k)"
  shows "preserves (kept K m0 c0) (guarded (on_world f))"
  unfolding preserves_def
proof (intro allI impI)
  fix s r s'
  assume i: "kept K m0 c0 s" and q: "guarded (on_world f) s = (r, s')"
  show "kept K m0 c0 s'"
  proof (cases "isConsist s")
    case True
    with q obtain w' where w: "f (world s) = (r, w')" "s' = s\<lparr>world := w'\<rparr>" by (auto simp: guarded_def on_world_iff)
    from assms [OF w(1)] i w(2) show ?thesis by (simp add: kept_def)
  qed (use i q in \<open>auto simp: guarded_def\<close>)
qed

lemma store_migration_invariant:
  assumes "\<And>k. k \<in> K \<Longrightarrow> k \<notin> range (tx_key (us_dbVer U)) \<union> range (addr_key (us_dbVer U))"
    and "\<And>bh. hash_key (us_dbVer U) \<in> K \<Longrightarrow> hash = Ok bh \<Longrightarrow> m0 (hash_key (us_dbVer U)) = Some (Val (VString (hex_EncodeToString bh)))"
    and "height_key (us_dbVer U) \<in> K \<Longrightarrow> m0 (height_key (us_dbVer U)) = Some (Val (VInt64 h))"
  shows "migration_invariant (store_migration lib U) (kept K m0 c0) hash h"
proof (unfold_locales, goal_cases)
  case (1 t)
  have "ck w' = ck w \<and> ks w' = ks w" if "areExistsOutputs (base U) t w = (r, w')" for w r w'
    using that unfolding areExistsOutputs_def by (auto elim!: bindS_cases wrapS_cases simp: retS_apply dest!: Get_frame)
  then show ?case unfolding store_migration_def migration_store.simps AreExiststsOutputs_def by (intro kept_on_world) force
next
  case (2 b)
  show ?case unfolding store_migration_def migration_store.simps AddTransactionOutputsBatch_def
  proof (rule kept_on_world)
    fix w r w'
    assume q: "addTransactionOutputsBatch lib U b w = (r, w')"
    let ?cs = "concat (List.map (entry_cmds lib (us_dbVer U)) b)"
    have "cmd_key c \<in> range (tx_key (us_dbVer U)) \<union> range (addr_key (us_dbVer U))" if "c \<in> set ?cs" for c
      using that by (auto simp: entry_cmds_def)
    then have "run ?cs (ks w) k = ks w k" if "k \<in> K" for k using assms(1) [OF that] by (intro run_other) blast
    then show "ck w' = ck w \<and> (\<forall>k \<in> K. ks w k = m0 k \<longrightarrow> ks w' k = m0 k)"
      using addTransactionOutputsBatch_effect [OF q] by auto
  qed
next
  case (3 bh)
  have a: "applies ks ck (setBlockHash (base U) (hex_EncodeToString bh)) (KSet (hash_key (us_dbVer U)) (VString (hex_EncodeToString bh)))"
    unfolding setBlockHash_def base_sel by (intro applies_wrap Set)
  show ?case unfolding store_migration_def migration_store.simps SetBlockHash_def
    using appliesD [OF a] assms(2) 3 by (intro kept_on_world) fastforce
next
  case 4
  have a: "applies ks ck (setBlockHeight (base U) h) (KSet (height_key (us_dbVer U)) (VInt64 h))"
    unfolding setBlockHeight_def base_sel by (intro applies_wrap Set)
  show ?case unfolding store_migration_def migration_store.simps SetBlockHeight_def
    using appliesD [OF a] assms(3) by (intro kept_on_world) fastforce
qed

lemma Migrate_frame:
  assumes "Migrate lib key cdb (store_migration lib U) bs h m = Some (r, m')"
    and "\<And>k. k \<in> K \<Longrightarrow> k \<notin> range (tx_key (us_dbVer U)) \<union> range (addr_key (us_dbVer U))"
    and "\<And>bh. hash_key (us_dbVer U) \<in> K \<Longrightarrow> Chainstate_GetBlockHash key cdb = Ok bh \<Longrightarrow>
      ks (world (mig_world m)) (hash_key (us_dbVer U)) = Some (Val (VString (hex_EncodeToString bh)))"
    and "height_key (us_dbVer U) \<in> K \<Longrightarrow> ks (world (mig_world m)) (height_key (us_dbVer U)) = Some (Val (VInt64 h))"
  shows "ck (world (mig_world m')) = ck (world (mig_world m)) \<and>
    (\<forall>k \<in> K. ks (world (mig_world m')) k = ks (world (mig_world m)) k)"
proof -
  let ?m0 = "ks (world (mig_world m))" and ?c0 = "ck (world (mig_world m))"
  have "migration_invariant (store_migration lib U) (kept K ?m0 ?c0) (Chainstate_GetBlockHash key cdb) h"
    by (rule store_migration_invariant) (use assms(2-4) in auto)
  from migration_invariant.Migrate_invariant [OF this assms(1) refl] show ?thesis by (simp add: kept_def)
qed

end

section \<open>One start\<close>

text \<open>The height a store of a version reads: the stored one, or 0.\<close>

definition stored_height :: "string \<Rightarrow> kstate \<Rightarrow> int" where
  "stored_height v m = (case m (height_key v) of Some (Val (VInt64 n)) \<Rightarrow> n | _ \<Rightarrow> 0)"

definition height_typed :: "string \<Rightarrow> kstate \<Rightarrow> bool" where
  "height_typed v m \<longleftrightarrow> m (height_key v) = None \<or> (\<exists>n. m (height_key v) = Some (Val (VInt64 n)))"

context utxo_backend
begin

lemma GetBlockHeight_stored:
  assumes "GetBlockHeight U s = (r, s')" and "height_typed (us_dbVer U) (ks (world s))"
  shows "ks (world s') = ks (world s) \<and> ck (world s') = ck (world s) \<and> r \<noteq> Panic \<and>
    (\<forall>n. r = Ok n \<longrightarrow> n = stored_height (us_dbVer U) (ks (world s)))"
proof (cases "isConsist s")
  case True
  with assms(1) obtain w' where w: "getBlockHeight (base U) (world s) = (r, w')" "s' = s\<lparr>world := w'\<rparr>"
    by (auto simp: GetBlockHeight_def guarded_def on_world_iff)
  note o = obsD [OF getBlockHeight_obs refl w(1)]
  have "n = stored_height (us_dbVer U) (ks (world s))" if r: "r = Ok n" for n
  proof (cases "ks (world s) (height_key (us_dbVer U))")
    case None
    have "getBlockHeight (base U) (world s) = (Ok n, w')" using w(1) r by simp
    then obtain x where "kv_Get (kv_base (us_s U)) TInt64 (height_key (us_dbVer U)) (world s) = (Ok x, w')"
      and n: "n = (case x of Some v \<Rightarrow> as_int64 v | None \<Rightarrow> 0)"
      by (auto simp: getBlockHeight_def bindS_Ok_iff wrapS_Ok_iff retS_Ok_iff)
    with None have "x = None" using Get_Some by (cases x) fastforce+
    with None n show ?thesis by (simp add: stored_height_def)
  next
    case (Some y)
    then obtain i where i: "ks (world s) (height_key (us_dbVer U)) = Some (Val (VInt64 i))"
      using assms(2) by (auto simp: height_typed_def)
    then show ?thesis using o(4) r by (simp add: stored_height_def)
  qed
  with o w(2) show ?thesis by simp
qed (use assms(1) in \<open>auto simp: GetBlockHeight_def guarded_def\<close>)

end

text \<open>What the program asks of the node before it migrates changes nothing.\<close>

definition asks_only :: "('w \<Rightarrow> kstate) \<Rightarrow> ('w \<Rightarrow> ckpt_file) \<Rightarrow> (bytes \<Rightarrow> ('w, int) st) \<Rightarrow> bool" where
  "asks_only ks ck ask \<longleftrightarrow> (\<forall>b w r w'. ask b w = (r, w') \<longrightarrow> ks w' = ks w \<and> ck w' = ck w)"

text \<open>The node answers the height of the block the chainstate stands at.\<close>

definition answers_height :: "(bytes \<Rightarrow> ('w, int) st) \<Rightarrow> bytes outcome \<Rightarrow> int \<Rightarrow> bool" where
  "answers_height ask hash h \<longleftrightarrow> (\<forall>b w i w'. hash = Ok b \<longrightarrow> ask b w = (Ok i, w') \<longrightarrow> i = h)"

context versions
begin

lemma prepare_frame:
  assumes N: "version_set N m" "N \<noteq> {}" and ask: "asks_only ks ck ask"
    and ty: "\<And>v. v \<in> N \<Longrightarrow> height_typed (FormatInt v) m"
  shows "preserves (\<lambda>w. ks w = m \<and> ck w = NoFile) (prepare_migration C stores key cdb ask)" (is "preserves ?I _")
proof -
  have mg: "preserves ?I (NewUTXOStoreMigrationManager C)"
    unfolding preserves_def using Initialize_spec N by metis
  have op: "preserves ?I (open_store (man i) stores)" for i
    unfolding preserves_def using open_store_next N(1) by metis
  have hd: "preserves ?I (ask b)" for b
    using ask unfolding preserves_def asks_only_def by metis
  have rd: "preserves ?I (\<lambda>w. case GetBlockHeight (stores (FormatInt v)) \<lparr>world = w, isConsist = c\<rparr> of (r, s) \<Rightarrow> (r, world s))"
    if "v \<in> N" for v c
    unfolding preserves_def
  proof (intro allI impI)
    fix w r w'
    assume i: "?I w" and q: "(case GetBlockHeight (stores (FormatInt v)) \<lparr>world = w, isConsist = c\<rparr> of (r, s) \<Rightarrow> (r, world s)) = (r, w')"
    obtain s' where "GetBlockHeight (stores (FormatInt v)) \<lparr>world = w, isConsist = c\<rparr> = (r, s')" "w' = world s'"
      using q by (auto split: prod.splits)
    with utxo_backend.GetBlockHeight_stored [OF backend this(1)] dbVer ty [OF that] i show "?I w'" by simp
  qed
  show ?thesis unfolding prepare_migration_def
  proof (rule preserves_bindI, intro preserves_wrap mg)
    fix a w w'
    assume i: "?I w" and a: "wrapS ''failed to invoke UTXO store''
       (wrapS ''failed to invoke migration manager'' (NewUTXOStoreMigrationManager C)) w = (Ok a, w')"
    then have a: "a = man 0" using Initialize_spec [of w _ w' N] N by (auto simp: wrapS_Ok_iff)
    show "preserves ?I (bindS (wrapS ''failed to invoke UTXO store'' (open_store a stores)) (\<lambda>(oldUtxoStore, consist).
     bindS (wrapS ''failed to set migration id'' (liftO (SetMigrationID 1 a))) (\<lambda>manager.
     bindS (wrapS ''failed to get chainstate block hash'' (liftO (Chainstate_GetBlockHash key cdb))) (\<lambda>chainstateBlockHash.
     bindS (wrapS ''failed to get block info'' (ask chainstateBlockHash)) (\<lambda>height.
     bindS (wrapS ''failed to get current utxo store block height''
       (\<lambda>w. case GetBlockHeight oldUtxoStore \<lparr>world = w, isConsist = consist\<rparr> of (r, s) \<Rightarrow> (r, world s)))
       (\<lambda>currentHeightFromUTXOStore.
     if height \<le> currentHeightFromUTXOStore then retS None
     else
       bindS (wrapS ''failed to invoke UTXO store'' (open_store manager stores)) (\<lambda>(utxoStore, consist).
       retS (Some (manager, utxoStore, consist, height)))))))))"
    proof (rule preserves_bindI, use a op in blast)
      fix Uc w w'
      assume "?I w" and "wrapS ''failed to invoke UTXO store'' (open_store a stores) w = (Ok Uc, w')"
      then obtain v c where v: "v \<in> N" and U: "Uc = (stores (FormatInt v), c)"
        using open_store_spec [of w "Ok Uc" w' N] N(1) a by (cases Uc) (auto simp: wrapS_Ok_iff)
      have m: "SetMigrationID 1 a = Ok (man 1)" by (simp add: a SetMigrationID_def man_def)
      show "preserves ?I (case Uc of (oldUtxoStore, consist) \<Rightarrow>
     bindS (wrapS ''failed to set migration id'' (liftO (SetMigrationID 1 a))) (\<lambda>manager.
     bindS (wrapS ''failed to get chainstate block hash'' (liftO (Chainstate_GetBlockHash key cdb))) (\<lambda>chainstateBlockHash.
     bindS (wrapS ''failed to get block info'' (ask chainstateBlockHash)) (\<lambda>height.
     bindS (wrapS ''failed to get current utxo store block height''
       (\<lambda>w. case GetBlockHeight oldUtxoStore \<lparr>world = w, isConsist = consist\<rparr> of (r, s) \<Rightarrow> (r, world s)))
       (\<lambda>currentHeightFromUTXOStore.
     if height \<le> currentHeightFromUTXOStore then retS None
     else
       bindS (wrapS ''failed to invoke UTXO store'' (open_store manager stores)) (\<lambda>(utxoStore, consist).
       retS (Some (manager, utxoStore, consist, height))))))))"
        unfolding U m prod.case liftO_simps(1) wrapS_retS bindS_retS
        by (intro preserves_bind preserves_wrap preserves_pure hd rd v)
          (auto intro!: preserves_bind [OF preserves_wrap [OF op]])
    qed
  qed
qed

end

context versions
begin

text \<open>
  When it succeeds: there is nothing to migrate when the version opened stands at the height of the
  chainstate or above, otherwise the store of the next version is opened.
\<close>

lemma case_world_iff: "(case p of (r, s) \<Rightarrow> (r, world s)) = (x, w') \<longleftrightarrow> (\<exists>s. p = (x, s) \<and> w' = world s)"
  by (auto split: prod.splits)

lemma prepare_Ok:
  assumes q: "prepare_migration C stores key cdb ask w = (Ok x, w')" and N: "version_set N (ks w)" "N \<noteq> {}" and c: "ck w = NoFile"
    and ask: "asks_only ks ck ask" "answers_height ask (Chainstate_GetBlockHash key cdb) h"
    and ty: "\<And>v. v \<in> N \<Longrightarrow> height_typed (FormatInt v) (ks w)"
  shows "\<exists>v \<in> N. (ascending C \<longrightarrow> v = Min N) \<and>
    (case x of None \<Rightarrow> h \<le> stored_height (FormatInt v) (ks w)
     | Some (m, U, cs, i) \<Rightarrow> m = man 1 \<and> i = h \<and> stored_height (FormatInt v) (ks w) < h \<and>
         (\<exists>u \<in> N. (ascending C \<longrightarrow> u = Min N) \<and> U = stores (FormatInt (wrap64 (u + 1)))))"
proof -
  from q obtain a w1 where "wrapS ''failed to invoke UTXO store''
       (wrapS ''failed to invoke migration manager'' (NewUTXOStoreMigrationManager C)) w = (Ok a, w1)" and
    q1: "bindS (wrapS ''failed to invoke UTXO store'' (open_store a stores)) (\<lambda>(oldUtxoStore, consist).
     bindS (wrapS ''failed to set migration id'' (liftO (SetMigrationID 1 a))) (\<lambda>manager.
     bindS (wrapS ''failed to get chainstate block hash'' (liftO (Chainstate_GetBlockHash key cdb))) (\<lambda>chainstateBlockHash.
     bindS (wrapS ''failed to get block info'' (ask chainstateBlockHash)) (\<lambda>height.
     bindS (wrapS ''failed to get current utxo store block height''
       (\<lambda>w. case GetBlockHeight oldUtxoStore \<lparr>world = w, isConsist = consist\<rparr> of (r, s) \<Rightarrow> (r, world s)))
       (\<lambda>currentHeightFromUTXOStore.
     if height \<le> currentHeightFromUTXOStore then retS None
     else
       bindS (wrapS ''failed to invoke UTXO store'' (open_store manager stores)) (\<lambda>(utxoStore, consist).
       retS (Some (manager, utxoStore, consist, height)))))))) w1 = (Ok x, w')"
    unfolding prepare_migration_def by (rule bindS_OkE)
  then have "NewUTXOStoreMigrationManager C w = (Ok a, w1)" by (simp add: wrapS_Ok_iff)
  with Initialize_spec [of w _ w1 N] N have a: "a = man 0" and w1: "ks w1 = ks w" "ck w1 = NoFile" using c by auto
  have m: "SetMigrationID 1 a = Ok (man 1)" by (simp add: a SetMigrationID_def man_def)
  from q1 obtain U0 c0 w2 bh i w3 n s4 where o1: "open_store (man 0) stores w1 = (Ok (U0, c0), w2)"
    and bh: "Chainstate_GetBlockHash key cdb = Ok bh" and i: "ask bh w2 = (Ok i, w3)"
    and n: "GetBlockHeight U0 \<lparr>world = w3, isConsist = c0\<rparr> = (Ok n, s4)"
    and x: "(if i \<le> n then retS None
     else bindS (wrapS ''failed to invoke UTXO store'' (open_store (man 1) stores)) (\<lambda>(utxoStore, consist).
       retS (Some (man 1, utxoStore, consist, i)))) (world s4) = (Ok x, w')"
    unfolding m unfolding a by (auto simp: bindS_Ok_iff wrapS_Ok_iff liftO_Ok_iff case_world_iff)
  obtain v where v: "v \<in> N" "U0 = stores (FormatInt v)" "ascending C \<longrightarrow> v = Min N" and w2: "ks w2 = ks w" "ck w2 = NoFile"
    using open_store_spec [OF o1, of N] N(1) w1 by auto
  have w3: "ks w3 = ks w" "ck w3 = NoFile" using i ask(1) w2 unfolding asks_only_def by metis+
  have h: "i = h" using i bh ask(2) unfolding answers_height_def by blast
  from utxo_backend.GetBlockHeight_stored [OF backend n [unfolded v(2)]] w3 dbVer ty [OF v(1)]
  have s4: "ks (world s4) = ks w" "ck (world s4) = NoFile" and nh: "n = stored_height (FormatInt v) (ks w)" by auto
  show ?thesis
  proof (cases "i \<le> n")
    case True
    then have "x = None" using x by (simp add: retS_apply)
    with v(1,3) True h nh show ?thesis by auto
  next
    case False
    then obtain U cs w5 where o2: "open_store (man 1) stores (world s4) = (Ok (U, cs), w5)" and x: "x = Some (man 1, U, cs, i)"
      using x by (auto simp: bindS_Ok_iff wrapS_Ok_iff retS_Ok_iff)
    have "\<exists>u \<in> N. (ascending C \<longrightarrow> u = Min N) \<and> U = stores (FormatInt (wrap64 (u + 1)))"
      using open_store_next [OF o2, of N] N(1) s4 by auto
    moreover have "stored_height (FormatInt v) (ks w) < h" using False h nh by simp
    ultimately show ?thesis unfolding x option.case prod.case using v(1,3) h by blast
  qed
qed

lemma UpdateVersion_spec:
  assumes "UpdateVersion (man 1) w = (r, w')" and "version_set N (ks w)" and "ascending C"
  shows "ck w' = ck w \<and> r \<noteq> Panic \<and>
    (ks w' = ks w \<or> ks w' = exec (KAdd version_key [FormatInt (wrap64 (Min N + 1))]) (ks w)) \<and>
    (\<forall>x. r = Ok x \<longrightarrow> ks w' = exec (KAdd version_key [FormatInt (wrap64 (Min N + 1))]) (ks w))"
proof -
  have d: "migrationID (man 1) = 1" "man_c (man 1) = C" "versionCounterName (man 1) = version_key" by (simp_all add: man_def)
  from assms(1) have "bindS (getOldestVersion (man 1)) (\<lambda>v. let newVal = wrap64 (v + 1) in
        thenS (wrapS ''failed to increment version'' (set_AddToSet C version_key [FormatInt newVal])) (retS newVal)) w = (r, w')"
    by (simp add: UpdateVersion_def d)
  then show ?thesis
  proof (cases rule: bindS_cases)
    case (Ok v w1)
    note o = getOldestVersion_spec [OF Ok(1) assms(2)]
    have a: "applies ks ck (wrapS ''failed to increment version'' (set_AddToSet C version_key [FormatInt (wrap64 (v + 1))]))
        (KAdd version_key [FormatInt (wrap64 (v + 1))])" by (intro applies_wrap AddToSet)
    from Ok(2) show ?thesis unfolding Let_def
    proof (cases rule: thenS_cases)
      case (Ok u w2)
      with appliesD [OF a Ok(1)] o assms(3) show ?thesis by (auto simp: retS_apply simp del: exec.simps)
    next
      case (Err e)
      with appliesD [OF a Err(1)] o assms(3) show ?thesis by (auto simp del: exec.simps)
    next
      case Panic
      with appliesD [OF a Panic(1)] show ?thesis by simp
    qed
  qed (auto dest: getOldestVersion_spec [OF _ assms(2)])
qed

end

section \<open>Phases\<close>

lemma keys_of_version:
  "HasPrefix (tx_key (FormatInt n) t) (vprefix n)" "HasPrefix (addr_key (FormatInt n) a) (vprefix n)"
  "HasPrefix (hash_key (FormatInt n)) (vprefix n)" "HasPrefix (height_key (FormatInt n)) (vprefix n)"
  by (simp_all add: HasPrefix_iff vprefix_def key_String_def new_key_defs)

text \<open>
  Before the switch the old version is as it was and registered alone, and the new one holds a part of
  the chainstate. After it the new version is complete and registered, and the old one may be left in
  pieces.
\<close>

definition not_switched :: "('key, 'addr) btc_lib \<Rightarrow> int \<Rightarrow> kstate \<Rightarrow> (string \<times> tx_outputs) list \<Rightarrow> kstate \<Rightarrow> bool" where
  "not_switched lib v m0 X m \<longleftrightarrow> version_set {v} m \<and> (\<forall>k. HasPrefix k (vprefix v) \<longrightarrow> m k = m0 k) \<and>
     (\<exists>n. holds_txs lib (FormatInt (v + 1)) (map_of (take n X)) m)"

definition switched :: "('key, 'addr) btc_lib \<Rightarrow> int \<Rightarrow> kstate \<Rightarrow> (string \<times> tx_outputs) list \<Rightarrow> bytes outcome \<Rightarrow> int \<Rightarrow>
    int set \<Rightarrow> kstate \<Rightarrow> bool" where
  "switched lib v m0 X hash h N m \<longleftrightarrow> version_set N m \<and> v + 1 \<in> N \<and> N \<subseteq> {v, v + 1} \<and>
     holds_txs lib (FormatInt (v + 1)) (map_of X) m \<and>
     (\<exists>bh. hash = Ok bh \<and> m (hash_key (FormatInt (v + 1))) = Some (Val (VString (hex_EncodeToString bh)))) \<and>
     m (height_key (FormatInt (v + 1))) = Some (Val (VInt64 h)) \<and>
     (v \<in> N \<longrightarrow> m (height_key (FormatInt v)) = m0 (height_key (FormatInt v)) \<or> m (height_key (FormatInt v)) = None)"

lemma switched_cong:
  assumes "switched lib v m0 X hash h N m" and "version_set M m'" and "v + 1 \<in> M" and "M \<subseteq> {v, v + 1}" and "v \<in> M \<longrightarrow> v \<in> N"
    and "\<And>k. HasPrefix k (vprefix (v + 1)) \<Longrightarrow> m' k = m k"
    and "m' (height_key (FormatInt v)) = m (height_key (FormatInt v)) \<or> m' (height_key (FormatInt v)) = None"
  shows "switched lib v m0 X hash h M m'"
proof -
  have "holds_txs lib (FormatInt (v + 1)) (map_of X) m'"
    using assms(1,6) keys_of_version by (auto simp: switched_def intro: holds_txs_cong)
  with assms keys_of_version show ?thesis by (auto simp: switched_def)
qed

context versions
begin

lemma cleanup_not_switched:
  assumes d: "deleteOldVersionsData C stores w = Some (r, w')" and c: "ck w = NoFile" and asc: "ascending C"
    and v: "int64_range v" "int64_range (v + 1)" and s: "not_switched lib v m0 X (ks w)"
  shows "ck w' = NoFile \<and> not_switched lib v m0 X (ks w')"
proof -
  have N: "version_set {v} (ks w)" using s by (simp add: not_switched_def)
  from deleteOldVersionsData_spec [OF N c] d asc obtain M where M: "cleaned True {v} M (ks w) (ks w')" and c': "ck w' = NoFile" by auto
  then have "M = {v}" by (auto simp: cleaned_def)
  with M have vs: "version_set {v} (ks w')" by (simp add: cleaned_def)
  have keep: "ks w' k = ks w k" if "HasPrefix k (vprefix v) \<or> HasPrefix k (vprefix (v + 1))" for k
  proof -
    have "\<forall>n k. int64_range n \<and> (n \<notin> {v} \<or> n = Max {v}) \<and> HasPrefix k (vprefix n) \<longrightarrow> ks w' k = ks w k"
      using M by (simp add: cleaned_def)
    with v that show ?thesis by auto
  qed
  obtain n where "holds_txs lib (FormatInt (v + 1)) (map_of (take n X)) (ks w)" using s by (auto simp: not_switched_def)
  then have "holds_txs lib (FormatInt (v + 1)) (map_of (take n X)) (ks w')"
    by (rule holds_txs_cong) (simp_all add: keep keys_of_version)
  with vs s keep show ?thesis using c' by (auto simp: not_switched_def)
qed

lemma cleanup_switched:
  assumes d: "deleteOldVersionsData C stores w = Some (r, w')" and c: "ck w = NoFile" and asc: "ascending C"
    and v: "int64_range v" "int64_range (v + 1)" and s: "switched lib v m0 X hash h N (ks w)"
  shows "ck w' = NoFile \<and> (\<exists>M. switched lib v m0 X hash h M (ks w') \<and> (r = Ok () \<longrightarrow> M = {v + 1}))"
proof -
  have N: "version_set N (ks w)" "N \<noteq> {}" "v + 1 \<in> N" "N \<subseteq> {v, v + 1}" using s by (auto simp: switched_def)
  have max: "Max N = v + 1" using N by (intro Max_eqI) (auto simp: version_set_def)
  from deleteOldVersionsData_spec [OF N(1) c] d asc N(2)
  obtain M where M: "cleaned True N M (ks w) (ks w')" and c': "ck w' = NoFile" and one: "r = Ok () \<longrightarrow> card M = 1" by auto
  have vs: "version_set M (ks w')" "v + 1 \<in> M" "M \<subseteq> N" using M N(2) max by (simp_all add: cleaned_def)
  have keep: "ks w' k = ks w k" if "HasPrefix k (vprefix (v + 1))" for k
  proof -
    have "\<forall>n k. int64_range n \<and> (n \<notin> N \<or> n = Max N) \<and> HasPrefix k (vprefix n) \<longrightarrow> ks w' k = ks w k"
      using M by (simp add: cleaned_def)
    from this [rule_format, of "v + 1" k] show ?thesis using v(2) that max by simp
  qed
  have "height_key (FormatInt v) \<noteq> version_key" using keys_of_version(4) version_key_prefix by metis
  then have "ks w' (height_key (FormatInt v)) = ks w (height_key (FormatInt v)) \<or> ks w' (height_key (FormatInt v)) = None"
    using M by (simp add: cleaned_def)
  moreover have "M \<subseteq> {v, v + 1}" "v \<in> M \<longrightarrow> v \<in> N" using vs(3) N(4) by blast+
  ultimately have "switched lib v m0 X hash h M (ks w')"
    by (intro switched_cong [OF s vs(1,2)] keep) blast+
  moreover have "r = Ok () \<longrightarrow> M = {v + 1}" using one vs(2) by (auto simp: card_1_singleton_iff)
  ultimately show ?thesis using c' by blast
qed

end

section \<open>The migration and the switch\<close>

locale chainstate_start = versions C ks ck stores D pend
  for C :: "'w sets_store" and ks :: "'w \<Rightarrow> kstate" and ck :: "'w \<Rightarrow> ckpt_file"
    and stores :: "string \<Rightarrow> ('w, 'tx) utxo_store" and D :: "('w, 'tx) tx_driver" and pend :: "'w \<Rightarrow> 'tx \<Rightarrow> kcmd list" +
  fixes lib :: "('key, 'addr) btc_lib" and key :: "bytes option" and cdb :: chainstate_db and ts :: "txout list"
    and ask :: "bytes \<Rightarrow> ('w, int) st" and h :: int and v :: int and m0 :: kstate
  assumes asc: "ascending C" and ec: "ec_laws (btc_ec lib)"
    and coins: "holds_coins (btc_ec lib) key (ldb_entries cdb) ts" "keys_sorted (ldb_entries cdb)" "chain_heights ts"
    and ask: "asks_only ks ck ask" "answers_height ask (Chainstate_GetBlockHash key cdb) h"
    and range: "int64_range v" "int64_range (v + 1)"
    and old: "height_typed (FormatInt v) m0"
begin

abbreviation txs :: "(string \<times> tx_outputs) list" where
  "txs \<equiv> chain_txs lib ts"

abbreviation before :: "'w \<Rightarrow> bool" where
  "before w \<equiv> ck w = NoFile \<and> not_switched lib v m0 txs (ks w)"

abbreviation after :: "int set \<Rightarrow> 'w \<Rightarrow> bool" where
  "after N w \<equiv> ck w = NoFile \<and> switched lib v m0 txs (Chainstate_GetBlockHash key cdb) h N (ks w)"

abbreviation finish :: "unit outcome \<Rightarrow> ('w, unit) st" where
  "finish r \<equiv> thenS (wrapS ''migrate error'' (liftO r))
     (bindS (wrapS ''update database version error'' (UpdateVersion (man 1))) (\<lambda>_. retS ()))"

lemma finish_spec:
  assumes "finish r w = (r', w')" and "version_set N (ks w)" and "Min N = v"
  shows "ck w' = ck w \<and> (ks w' = ks w \<and> r' \<noteq> Ok () \<or> r = Ok () \<and> ks w' = exec (KAdd version_key [FormatInt (v + 1)]) (ks w))"
proof (cases r)
  case (Ok u)
  then have "bindS (wrapS ''update database version error'' (UpdateVersion (man 1))) (\<lambda>_. retS ()) w = (r', w')"
    using assms(1) by (simp add: thenS_def bindS_def wrapS_def liftO_def)
  then obtain q where q: "UpdateVersion (man 1) w = (q, w')" and r': "r' = Ok () \<longleftrightarrow> (\<exists>x. q = Ok x)"
    by (auto elim!: bindS_cases wrapS_cases simp: retS_apply)
  from UpdateVersion_spec [OF q assms(2) asc] assms(3) range(2) Ok r' show ?thesis by (auto simp del: exec.simps)
qed (use assms(1) in \<open>auto simp: thenS_def bindS_def wrapS_def liftO_def\<close>)

lemma next_store: "us_dbVer (stores (FormatInt (v + 1))) = FormatInt (v + 1)"
  by (rule dbVer)

lemma not_next_version:
  assumes "HasPrefix k (vprefix v) \<or> k = version_key"
  shows "\<not> HasPrefix k (vprefix (v + 1))"
  using assms vprefix_inj [OF range] version_key_prefix by auto

text \<open>The migration into the next version, from either phase.\<close>

lemma migrate_next:
  assumes "Migrate lib key cdb (store_migration lib (stores (FormatInt (v + 1)))) bs h
      \<lparr>restoredLastSavedTxID = False, mig_world = s\<rparr> = Some (r, m)"
    and "holds_txs lib (FormatInt (v + 1)) (map_of (take n txs)) (ks (world s))"
  shows "ck (world (mig_world m)) = ck (world s)"
    and "\<And>k. HasPrefix k (vprefix v) \<or> k = version_key \<Longrightarrow> ks (world (mig_world m)) k = ks (world s) k"
    and "\<exists>k \<ge> n. holds_txs lib (FormatInt (v + 1)) (map_of (take k txs)) (ks (world (mig_world m)))"
    and "r = Ok () \<Longrightarrow> holds_txs lib (FormatInt (v + 1)) (map_of txs) (ks (world (mig_world m))) \<and>
      (\<exists>bh. Chainstate_GetBlockHash key cdb = Ok bh \<and>
        ks (world (mig_world m)) (hash_key (FormatInt (v + 1))) = Some (Val (VString (hex_EncodeToString bh)))) \<and>
      ks (world (mig_world m)) (height_key (FormatInt (v + 1))) = Some (Val (VInt64 h))"
    and "ks (world s) (height_key (FormatInt (v + 1))) = Some (Val (VInt64 h)) \<Longrightarrow>
      Chainstate_GetBlockHash key cdb = Ok bh \<Longrightarrow>
      ks (world s) (hash_key (FormatInt (v + 1))) = Some (Val (VString (hex_EncodeToString bh))) \<Longrightarrow>
      ks (world (mig_world m)) (height_key (FormatInt (v + 1))) = Some (Val (VInt64 h)) \<and>
      ks (world (mig_world m)) (hash_key (FormatInt (v + 1))) = Some (Val (VString (hex_EncodeToString bh)))"
proof -
  let ?U = "stores (FormatInt (v + 1))" and ?V = "FormatInt (v + 1)" and ?m = "\<lparr>restoredLastSavedTxID = False, mig_world = s\<rparr>"
  have other: "k \<notin> range (tx_key (us_dbVer ?U)) \<union> range (addr_key (us_dbVer ?U))" if "\<not> HasPrefix k (vprefix (v + 1))" for k
    using that keys_of_version(1,2) [of "v + 1"] by (auto simp: next_store)
  have nk: "hash_key ?V \<noteq> k" "height_key ?V \<noteq> k" if "HasPrefix k (vprefix v) \<or> k = version_key" for k
    using not_next_version [OF that] keys_of_version(3,4) [of "v + 1"] by auto
  have f: "ck (world (mig_world m)) = ck (world (mig_world ?m)) \<and>
      (\<forall>k \<in> {k. HasPrefix k (vprefix v) \<or> k = version_key}. ks (world (mig_world m)) k = ks (world (mig_world ?m)) k)"
    by (rule utxo_backend.Migrate_frame [OF backend assms(1)])
      (use other not_next_version nk in \<open>auto simp: next_store\<close>)
  then show "ck (world (mig_world m)) = ck (world s)"
    and "\<And>k. HasPrefix k (vprefix v) \<or> k = version_key \<Longrightarrow> ks (world (mig_world m)) k = ks (world s) k" by auto
  have mg: "utxo_backend.migrated ?U ks lib txs i x \<longleftrightarrow> holds_txs lib ?V (map_of (take i txs)) (ks (world (mig_world x)))" for i x
    by (simp add: utxo_backend.migrated_def [OF backend] next_store)
  have "utxo_backend.migrated ?U ks lib txs n ?m" using assms(2) mg by simp
  from utxo_backend.Migrate_keeps [OF backend ec database_chain_ok [OF coins] coins(1) this assms(1)]
  obtain j where j: "n \<le> j" "holds_txs lib ?V (map_of (take j txs)) (ks (world (mig_world m)))"
    and Ok: "r = Ok () \<longrightarrow> length txs \<le> j \<and> (\<exists>bh. Chainstate_GetBlockHash key cdb = Ok bh \<and>
      ks (world (mig_world m)) (hash_key ?V) = Some (Val (VString (hex_EncodeToString bh)))) \<and>
      ks (world (mig_world m)) (height_key ?V) = Some (Val (VInt64 h))"
    by (auto simp: mg next_store)
  then show "\<exists>k \<ge> n. holds_txs lib ?V (map_of (take k txs)) (ks (world (mig_world m)))" by blast
  show "r = Ok () \<Longrightarrow> holds_txs lib ?V (map_of txs) (ks (world (mig_world m))) \<and>
      (\<exists>bh. Chainstate_GetBlockHash key cdb = Ok bh \<and>
        ks (world (mig_world m)) (hash_key ?V) = Some (Val (VString (hex_EncodeToString bh)))) \<and>
      ks (world (mig_world m)) (height_key ?V) = Some (Val (VInt64 h))"
    using Ok j(2) by simp
  assume i: "ks (world s) (height_key ?V) = Some (Val (VInt64 h))" "Chainstate_GetBlockHash key cdb = Ok bh"
    "ks (world s) (hash_key ?V) = Some (Val (VString (hex_EncodeToString bh)))"
  have "ck (world (mig_world m)) = ck (world (mig_world ?m)) \<and>
      (\<forall>k \<in> {hash_key ?V, height_key ?V}. ks (world (mig_world m)) k = ks (world (mig_world ?m)) k)"
    by (rule utxo_backend.Migrate_frame [OF backend assms(1)]) (use i in \<open>auto simp: next_store\<close>)
  with i show "ks (world (mig_world m)) (height_key ?V) = Some (Val (VInt64 h)) \<and>
      ks (world (mig_world m)) (hash_key ?V) = Some (Val (VString (hex_EncodeToString bh)))" by simp
qed

lemma run_cases:
  assumes "runChainstateMigration lib C stores key cdb ask bs w = Some (r, w')" and "ck w = NoFile"
    and "version_set N (ks w)" and "N \<noteq> {}" and "\<forall>u \<in> N. height_typed (FormatInt u) (ks w)"
  obtains (stop) "ks w' = ks w" "ck w' = NoFile" "r = Ok () \<longrightarrow> h \<le> stored_height (FormatInt (Min N)) (ks w)"
  | (migrate) cs w1 q m where "ks w1 = ks w" "ck w1 = NoFile" "stored_height (FormatInt (Min N)) (ks w) < h"
      "Migrate lib key cdb (store_migration lib (stores (FormatInt (wrap64 (Min N + 1))))) bs h
         \<lparr>restoredLastSavedTxID = False, mig_world = \<lparr>world = w1, isConsist = cs\<rparr>\<rparr> = Some (q, m)"
      "finish q (world (mig_world m)) = (r, w')"
proof -
  have ty: "u \<in> N \<Longrightarrow> height_typed (FormatInt u) (ks w)" for u using assms(5) by blast
  obtain x w1 where x: "prepare_migration C stores key cdb ask w = (x, w1)" by fastforce
  have f: "ks w1 = ks w" "ck w1 = NoFile"
    using preservesD [OF prepare_frame [OF assms(3,4) ask(1) ty] x] assms(2) by auto
  show thesis
  proof (cases x)
    case (Ok y)
    note p = prepare_Ok [OF x [unfolded Ok] assms(3,4,2) ask ty]
    show thesis
    proof (cases y)
      case None
      then have "r = Ok ()" "w' = w1" using assms(1) x Ok by (simp_all add: runChainstateMigration_def)
      with f p None asc show thesis by (intro stop) auto
    next
      case (Some z)
      obtain u U cs i where z: "z = (u, U, cs, i)" by (cases z)
      with p Some asc have z': "u = man 1" "i = h" "stored_height (FormatInt (Min N)) (ks w) < h"
        "U = stores (FormatInt (wrap64 (Min N + 1)))" by auto
      obtain q m where "Migrate lib key cdb (store_migration lib U) bs h
          \<lparr>restoredLastSavedTxID = False, mig_world = \<lparr>world = w1, isConsist = cs\<rparr>\<rparr> = Some (q, m)"
        and "finish q (world (mig_world m)) = (r, w')"
        using assms(1) x Ok Some z z'(1,2) by (auto simp: runChainstateMigration_def split: option.splits)
      with f z' show thesis by (intro migrate) auto
    qed
  qed (use assms(1) x f in \<open>auto simp: runChainstateMigration_def intro: stop\<close>)
qed

end

context chainstate_start
begin

lemma add_next:
  assumes "version_set N m" and "v \<in> N" and "N \<subseteq> {v, v + 1}"
  shows "version_set {v, v + 1} (exec (KAdd version_key [FormatInt (v + 1)]) m)"
    and "k \<noteq> version_key \<Longrightarrow> exec (KAdd version_key [FormatInt (v + 1)]) m k = m k"
proof -
  have "insert (v + 1) N = {v, v + 1}" using assms(2,3) by auto
  with version_set_add [OF assms(1) range(2)] show "version_set {v, v + 1} (exec (KAdd version_key [FormatInt (v + 1)]) m)" by simp
  show "k \<noteq> version_key \<Longrightarrow> exec (KAdd version_key [FormatInt (v + 1)]) m k = m k" by (rule exec_other) simp
qed

lemma not_version_key:
  "tx_key (FormatInt n) t \<noteq> version_key" "addr_key (FormatInt n) a \<noteq> version_key"
  "hash_key (FormatInt n) \<noteq> version_key" "height_key (FormatInt n) \<noteq> version_key"
  using keys_of_version [of n] version_key_prefix by metis+

lemma run_before:
  assumes "runChainstateMigration lib C stores key cdb ask bs w = Some (r, w')" and "before w"
  shows "before w' \<and> (r = Ok () \<longrightarrow> h \<le> stored_height (FormatInt v) m0) \<or>
    stored_height (FormatInt v) m0 < h \<and> (\<exists>N. after N w')"
proof -
  have N: "version_set {v} (ks w)" and k: "\<And>k. HasPrefix k (vprefix v) \<Longrightarrow> ks w k = m0 k" and c: "ck w = NoFile"
    using assms(2) by (auto simp: not_switched_def)
  obtain n where n: "holds_txs lib (FormatInt (v + 1)) (map_of (take n txs)) (ks w)" using assms(2) by (auto simp: not_switched_def)
  have hk: "ks w (height_key (FormatInt v)) = m0 (height_key (FormatInt v))" using k keys_of_version(4) by blast
  then have sh: "stored_height (FormatInt v) (ks w) = stored_height (FormatInt v) m0" by (simp add: stored_height_def)
  have ty: "\<forall>u \<in> {v}. height_typed (FormatInt u) (ks w)" using old hk by (simp add: height_typed_def)
  from assms(1) c N insert_not_empty ty show ?thesis
  proof (cases rule: run_cases)
    case stop
    with assms(2) sh show ?thesis by simp
  next
    case (migrate cs w1 q m)
    let ?m = "ks (world (mig_world m))"
    have "Migrate lib key cdb (store_migration lib (stores (FormatInt (v + 1)))) bs h
         \<lparr>restoredLastSavedTxID = False, mig_world = \<lparr>world = w1, isConsist = cs\<rparr>\<rparr> = Some (q, m)"
      using migrate(4) range(2) by simp
    note g = migrate_next [OF this, of n]
    have n1: "holds_txs lib (FormatInt (v + 1)) (map_of (take n txs)) (ks (world \<lparr>world = w1, isConsist = cs\<rparr>))" using n migrate(1) by simp
    have vk: "?m version_key = ks w version_key" and pv: "\<And>k. HasPrefix k (vprefix v) \<Longrightarrow> ?m k = m0 k"
      using g(2) [OF n1] migrate(1) k by simp_all
    have c1: "ck (world (mig_world m)) = NoFile" using g(1) [OF n1] migrate(2) by simp
    have vs: "version_set {v} ?m" using N vk by (simp add: version_set_def holds_set_def members_def)
    have b: "before (world (mig_world m))" using c1 vs pv g(3) [OF n1] by (auto simp: not_switched_def)
    from finish_spec [OF migrate(5) vs] have f: "ck w' = NoFile"
      "ks w' = ?m \<and> r \<noteq> Ok () \<or> q = Ok () \<and> ks w' = exec (KAdd version_key [FormatInt (v + 1)]) ?m" using c1 by auto
    from f(2) show ?thesis
    proof
      assume "ks w' = ?m \<and> r \<noteq> Ok ()"
      with b f(1) show ?thesis by simp
    next
      assume s: "q = Ok () \<and> ks w' = exec (KAdd version_key [FormatInt (v + 1)]) ?m"
      have o: "ks w' k = ?m k" if "k \<noteq> version_key" for k using s add_next(2) [OF vs] that by simp
      have vs': "version_set {v, v + 1} (ks w')" using s add_next(1) [OF vs] by simp
      from g(4) [OF n1] s obtain bh where fin: "holds_txs lib (FormatInt (v + 1)) (map_of txs) ?m"
        "Chainstate_GetBlockHash key cdb = Ok bh" "?m (hash_key (FormatInt (v + 1))) = Some (Val (VString (hex_EncodeToString bh)))"
        "?m (height_key (FormatInt (v + 1))) = Some (Val (VInt64 h))" by blast
      have "holds_txs lib (FormatInt (v + 1)) (map_of txs) (ks w')"
        by (rule holds_txs_cong [OF fin(1)]) (simp_all add: o not_version_key)
      then have "after {v, v + 1} w'"
        using f(1) vs' fin(2-4) pv keys_of_version(4) by (auto simp: switched_def o not_version_key)
      then show ?thesis using migrate(3) sh by auto
    qed
  qed
qed

lemma run_after:
  assumes "runChainstateMigration lib C stores key cdb ask bs w = Some (r, w')" and "after N w"
  shows "\<exists>M. after M w'"
proof -
  let ?hash = "Chainstate_GetBlockHash key cdb"
  from assms(2) obtain bh where N: "version_set N (ks w)" "v + 1 \<in> N" "N \<subseteq> {v, v + 1}" and c: "ck w = NoFile"
    and d: "holds_txs lib (FormatInt (v + 1)) (map_of txs) (ks w)" "?hash = Ok bh"
      "ks w (hash_key (FormatInt (v + 1))) = Some (Val (VString (hex_EncodeToString bh)))"
      "ks w (height_key (FormatInt (v + 1))) = Some (Val (VInt64 h))"
    and o: "v \<in> N \<Longrightarrow> ks w (height_key (FormatInt v)) = m0 (height_key (FormatInt v)) \<or> ks w (height_key (FormatInt v)) = None"
    by (auto simp: switched_def)
  have ty: "\<forall>u \<in> N. height_typed (FormatInt u) (ks w)"
    using N(3) d(4) o old by (auto simp: height_typed_def)
  have ne: "N \<noteq> {}" using N(2) by auto
  from assms(1) c N(1) ne ty show ?thesis
  proof (cases rule: run_cases)
    case stop
    with assms(2) show ?thesis by auto
  next
    case (migrate cs w1 q m)
    have vN: "v \<in> N"
    proof (rule ccontr)
      assume "v \<notin> N"
      then have "N = {v + 1}" using N(2,3) by auto
      then have "Min N = v + 1" by simp
      with migrate(3) d(4) show False by (simp add: stored_height_def)
    qed
    then have min: "Min N = v" using N by (intro Min_eqI) (auto simp: version_set_def)
    let ?m = "ks (world (mig_world m))" and ?s = "\<lparr>world = w1, isConsist = cs\<rparr>"
    have "Migrate lib key cdb (store_migration lib (stores (FormatInt (v + 1)))) bs h
         \<lparr>restoredLastSavedTxID = False, mig_world = ?s\<rparr> = Some (q, m)"
      using migrate(4) range(2) min by simp
    note g = migrate_next [OF this, of "length txs"]
    have n1: "holds_txs lib (FormatInt (v + 1)) (map_of (take (length txs) txs)) (ks (world ?s))" using d(1) migrate(1) by simp
    have p: "?m k = ks w k" if "HasPrefix k (vprefix v) \<or> k = version_key" for k using g(2) [OF n1 that] migrate(1) by simp
    have c1: "ck (world (mig_world m)) = NoFile" using g(1) [OF n1] migrate(2) by simp
    have vs: "version_set N ?m" using N(1) p [of version_key] by (simp add: version_set_def holds_set_def members_def)
    from g(3) [OF n1] have "holds_txs lib (FormatInt (v + 1)) (map_of txs) ?m" by auto
    moreover have "?m (height_key (FormatInt (v + 1))) = Some (Val (VInt64 h)) \<and>
        ?m (hash_key (FormatInt (v + 1))) = Some (Val (VString (hex_EncodeToString bh)))"
      by (rule g(5) [OF n1 _ d(2)]) (use d(3,4) migrate(1) in simp_all)
    moreover have "?m (height_key (FormatInt v)) = ks w (height_key (FormatInt v))" using p keys_of_version(4) by blast
    ultimately have s: "switched lib v m0 txs ?hash h N ?m" using vs N(2,3) d(2) o by (simp add: switched_def)
    from finish_spec [OF migrate(5) vs min] have f: "ck w' = NoFile"
      "ks w' = ?m \<or> ks w' = exec (KAdd version_key [FormatInt (v + 1)]) ?m" using c1 by auto
    from f(2) show ?thesis
    proof
      assume "ks w' = exec (KAdd version_key [FormatInt (v + 1)]) ?m"
      then have "switched lib v m0 txs ?hash h {v, v + 1} (ks w')"
        using add_next [OF vs vN N(3)] not_version_key(4) keys_of_version version_key_prefix vN
        by (intro switched_cong [OF s]) auto
      with f(1) show ?thesis by blast
    qed (use s f(1) in auto)
  qed
qed

end

section \<open>Any number of starts\<close>

text \<open>Starts one after the other, each with any result. A crash is a start whose later commands all fail.\<close>

inductive starts :: "('w \<Rightarrow> (unit outcome \<times> 'w) option) \<Rightarrow> 'w \<Rightarrow> 'w \<Rightarrow> bool" for start where
  first: "starts start w w"
| again: "starts start w w1 \<Longrightarrow> start w1 = Some (r, w2) \<Longrightarrow> starts start w w2"

context chainstate_start
begin

abbreviation start :: "int \<Rightarrow> 'w \<Rightarrow> (unit outcome \<times> 'w) option" where
  "start bs \<equiv> migrateFromChainstate lib C stores key cdb ask bs"

lemma start_cases:
  assumes "start bs w = Some (r, w')"
  obtains (failed) q where "runChainstateMigration lib C stores key cdb ask bs w = Some (q, w')" "r \<noteq> Ok ()"
  | (cleanup) w1 q where "runChainstateMigration lib C stores key cdb ask bs w = Some (Ok (), w1)"
      "deleteOldVersionsData C stores w1 = Some (q, w')" "r = Ok () \<longleftrightarrow> q = Ok ()"
  using assms by (auto simp: migrateFromChainstate_def split: option.splits prod.splits outcome.splits)

lemma start_before:
  assumes "start bs w = Some (r, w')" and "before w"
  shows "before w' \<and> (r = Ok () \<longrightarrow> h \<le> stored_height (FormatInt v) m0) \<or>
    stored_height (FormatInt v) m0 < h \<and> (\<exists>N. after N w' \<and> (r = Ok () \<longrightarrow> N = {v + 1}))"
  using assms(1)
proof (cases rule: start_cases)
  case (failed q)
  with run_before [OF failed(1) assms(2)] show ?thesis by blast
next
  case (cleanup w1 q)
  from run_before [OF cleanup(1) assms(2)] show ?thesis
  proof
    assume b: "before w1 \<and> (Ok () = Ok () \<longrightarrow> h \<le> stored_height (FormatInt v) m0)"
    then have "ck w1 = NoFile" "not_switched lib v m0 txs (ks w1)" by auto
    from cleanup_not_switched [OF cleanup(2) this(1) asc range this(2)] b show ?thesis by blast
  next
    assume a: "stored_height (FormatInt v) m0 < h \<and> (\<exists>N. after N w1)"
    then obtain N where "ck w1 = NoFile" "switched lib v m0 txs (Chainstate_GetBlockHash key cdb) h N (ks w1)" by auto
    from cleanup_switched [OF cleanup(2) this(1) asc range this(2)] a cleanup(3) show ?thesis by blast
  qed
qed

lemma start_after:
  assumes "start bs w = Some (r, w')" and "after N w"
  shows "\<exists>M. after M w' \<and> (r = Ok () \<longrightarrow> M = {v + 1})"
  using assms(1)
proof (cases rule: start_cases)
  case (failed q)
  with run_after [OF failed(1) assms(2)] show ?thesis by blast
next
  case (cleanup w1 q)
  from run_after [OF cleanup(1) assms(2)] obtain M where
    "ck w1 = NoFile" "switched lib v m0 txs (Chainstate_GetBlockHash key cdb) h M (ks w1)" by auto
  from cleanup_switched [OF cleanup(2) this(1) asc range this(2)] cleanup(3) show ?thesis by blast
qed

lemma starts_phase:
  assumes "starts (start bs) w w'" and "before w"
  shows "before w' \<or> stored_height (FormatInt v) m0 < h \<and> (\<exists>N. after N w')"
  using assms
proof (induction rule: starts.induct)
  case (again w w1 r w2)
  from again.IH [OF again.prems] show ?case
  proof
    assume "before w1"
    from start_before [OF again.hyps(2) this] show ?thesis by blast
  next
    assume "stored_height (FormatInt v) m0 < h \<and> (\<exists>N. after N w1)"
    then obtain N where "stored_height (FormatInt v) m0 < h" "after N w1" by blast
    with start_after [OF again.hyps(2) this(2)] show ?thesis by blast
  qed
qed simp

lemma after_complete:
  assumes "after N w"
  shows "utxo (FormatInt (v + 1)) (ks w) = chain_utxo lib ts \<and> store_ok lib (FormatInt (v + 1)) (ks w) \<and>
    stored_height (FormatInt (v + 1)) (ks w) = h \<and>
    (\<exists>b. Chainstate_GetBlockHash key cdb = Ok b \<and> ks w (hash_key (FormatInt (v + 1))) = Some (Val (VString (hex_EncodeToString b)))) \<and>
    version_set N (ks w) \<and> v + 1 \<in> N"
proof -
  have "holds_txs lib (FormatInt (v + 1)) (map_of txs) (ks w)" using assms by (simp add: switched_def)
  from holds_txs_utxo [OF this] assms show ?thesis
    by (auto simp: entries_chain [OF database_chain_ok [OF coins]] store_ok_def block_stored_def switched_def stored_height_def)
qed

end

lemma startup_outcome:
  assumes "chainstate_start C ks ck stores D pend lib key cdb ts ask h v (ks w)"
    and "version_set {v} (ks w)" and "ck w = NoFile" and "holds_txs lib (FormatInt (v + 1)) Map.empty (ks w)"
    and "starts (migrateFromChainstate lib C stores key cdb ask bs) w w1"
    and "migrateFromChainstate lib C stores key cdb ask bs w1 = Some (r, w')"
  defines "old \<equiv> version_set {v} (ks w') \<and> (\<forall>k. HasPrefix k (vprefix v) \<longrightarrow> ks w' k = ks w k)"
    and "new \<equiv> \<lambda>N. version_set N (ks w') \<and> v + 1 \<in> N \<and> utxo (FormatInt (v + 1)) (ks w') = chain_utxo lib ts \<and>
      store_ok lib (FormatInt (v + 1)) (ks w') \<and> stored_height (FormatInt (v + 1)) (ks w') = h \<and>
      (\<exists>b. Chainstate_GetBlockHash key cdb = Ok b \<and> ks w' (hash_key (FormatInt (v + 1))) = Some (Val (VString (hex_EncodeToString b))))"
    and "behind \<equiv> stored_height (FormatInt v) (ks w) < h"
  shows "ck w' = NoFile \<and> (old \<or> behind \<and> (\<exists>N. new N)) \<and> (r = Ok () \<longrightarrow> (if behind then new {v + 1} else old))"
proof -
  note L = assms(1)
  have "not_switched lib v (ks w) (chain_txs lib ts) (ks w)"
    using assms(2,4) unfolding not_switched_def by (auto intro: exI [of _ 0])
  with assms(3) have b: "ck w = NoFile \<and> not_switched lib v (ks w) (chain_txs lib ts) (ks w)" by simp
  have "ck w' = NoFile \<and> ((old \<and> (r = Ok () \<longrightarrow> \<not> behind)) \<or> (behind \<and> (\<exists>N. new N \<and> (r = Ok () \<longrightarrow> N = {v + 1}))))"
    using chainstate_start.starts_phase [OF L assms(5) b]
  proof
    assume "ck w1 = NoFile \<and> not_switched lib v (ks w) (chain_txs lib ts) (ks w1)"
    from chainstate_start.start_before [OF L assms(6) this] show ?thesis
      using chainstate_start.after_complete [OF L, of w'] unfolding old_def new_def behind_def not_switched_def by fastforce
  next
    assume a: "stored_height (FormatInt v) (ks w) < h \<and>
      (\<exists>N. ck w1 = NoFile \<and> switched lib v (ks w) (chain_txs lib ts) (Chainstate_GetBlockHash key cdb) h N (ks w1))"
    then obtain N where "ck w1 = NoFile \<and> switched lib v (ks w) (chain_txs lib ts) (Chainstate_GetBlockHash key cdb) h N (ks w1)" by blast
    from chainstate_start.start_after [OF L assms(6) this] a show ?thesis
      using chainstate_start.after_complete [OF L, of w'] unfolding new_def behind_def by blast
  qed
  then show ?thesis by auto
qed


text \<open>
  Version 1 at height 5, a chainstate at height 100 with two coins, and a server that fails while the
  first start removes the old version.
\<close>

definition first_start :: sim where
  "first_start =
     \<lparr>sim_keys = [(version_key, Inr [''1'']), (height_key ''1'', Inl (VInt64 5)), (hash_key ''1'', Inl (VString ''05''))],
      sim_queue = [], sim_file = None, sim_faults = replicate 21 False @ [True]\<rparr>"

abbreviation sample_start_up :: "sim \<Rightarrow> (unit outcome \<times> sim) option" where
  "sample_start_up \<equiv> migrateFromChainstate sample_lib intset_sets sim_store sample_key sample_chain (\<lambda>b. retS 100) 1"

lemma sample_starts:
  "map_option (\<lambda>(r, w). (case r of Ok u \<Rightarrow> True | _ \<Rightarrow> False, map_option fst (sample_start_up w))) (sample_start_up first_start) =
     Some (False, Some (Ok ()))"
  by code_simp

lemma format_versions: "FormatInt 1 = ''1''" "FormatInt 2 = ''2''" "FormatInt (1 + 1) = ''2''"
  by code_simp+

lemma first_start_view:
  "sim_ks first_start = (\<lambda>k. if k = version_key then Some (Members {''1''}) else if k = height_key ''1'' then Some (Val (VInt64 5))
     else if k = hash_key ''1'' then Some (Val (VString ''05'')) else None)"
  by (auto simp: first_start_def view_def sim_space_def fun_eq_iff)

interpretation sim_start: chainstate_start intset_sets sim_ks sim_ck sim_store sim_driver
  "\<lambda>w tx. List.map (view_cmd sim_codec) (sim_queue w)" sample_lib sample_key sample_chain
  "[sample_coin 7 [0x51], sample_coin 8 [0x52]]" "\<lambda>b. retS 100" 100 1 "sim_ks first_start"
proof (intro chainstate_start.intro chainstate_start_axioms.intro)
  show "height_typed (FormatInt 1) (sim_ks first_start)"
    by (simp add: height_typed_def first_start_view format_versions version_key_def key_String_def new_key_defs)
qed (use intset_versions intset_ascending sample_migration_ok in
  \<open>simp_all add: asks_only_def answers_height_def retS_def int64_range_def\<close>)


text \<open>
  An interrupted cleanup. The next start compares the chainstate with what is left of the old version,
  and migrates again into the new version although it is complete.
\<close>

text \<open>The chainstate a block later: the first coin has been spent.\<close>

definition later_chain :: chainstate_db where
  "later_chain = sample_chain\<lparr>ldb_entries := [hd (ldb_entries sample_chain), last (ldb_entries sample_chain)]\<rparr>"


end
