(* ===== verification/Program_Run.thy ===== *)
theory Program_Run
  imports Program_Start Node_Client Scanner_Correct
begin

text \<open>
  The program from its start to the blocks of the node (\<^verbatim>\<open>cmd/utxo-indexer/main.go\<close>): the chainstate is
  migrated, the service and the scanner open the store of the version that is left, and the scanner
  follows the node from the block of that store. The servers of the API and telemetry are left out;
  \<^verbatim>\<open>logger.Fatal\<close> is an error with its message.
\<close>

section \<open>The code\<close>

text \<open>What a container makes when the store is asked for: its manager, then the store of its version.\<close>

definition invoke_store :: "'w sets_store \<Rightarrow> (string \<Rightarrow> ('w, 'tx) utxo_store) \<Rightarrow> ('w, ('w, 'tx) utxo_store \<times> bool) st" where
  "invoke_store redisSets stores =
     bindS (wrapS ''failed to invoke migration manager'' (NewUTXOStoreMigrationManager redisSets)) (\<lambda>migrationManager.
     open_store migrationManager stores)"

text \<open>The container of the scanner has a store of its own, which it asks for the last block only.\<close>

definition invoke_scanner_state :: "'w sets_store \<Rightarrow> (string \<Rightarrow> ('w, 'tx) utxo_store) \<Rightarrow> 'w store_state rest_client \<Rightarrow> ('w, string) st" where
  "invoke_scanner_state redisSets stores restClient =
     bindS (wrapS ''invoke UTXO store error'' (invoke_store redisSets stores)) (\<lambda>(utxoStore, consist). \<lambda>w.
       case InMemoryState_of_store utxoStore restClient \<lparr>world = w, isConsist = consist\<rparr> of (r, s) \<Rightarrow> (r, world s))"

text \<open>
  \<open>main\<close> up to the start of the goroutines: the store of the service with its flag, and the hash the scanner
  starts from. What the constructors in between wrap around an error is left out.
\<close>

definition start_program :: "('key, 'addr) btc_lib \<Rightarrow> 'w sets_store \<Rightarrow> (string \<Rightarrow> ('w, 'tx) utxo_store) \<Rightarrow> bytes option \<Rightarrow>
    chainstate_db \<Rightarrow> (bytes \<Rightarrow> ('w, int) st) \<Rightarrow> int \<Rightarrow> 'w store_state rest_client \<Rightarrow> 'w \<Rightarrow>
    ((('w, 'tx) utxo_store \<times> bool \<times> string) outcome \<times> 'w) option" where
  "start_program lib redisSets stores key cdb header_height batchSize restClient w =
     (case migrateFromChainstate lib redisSets stores key cdb header_height batchSize w of
        None \<Rightarrow> None
      | Some (Ok _, w') \<Rightarrow> Some
          (bindS (wrapS ''failed to run UTXO grpc server'' (invoke_store redisSets stores)) (\<lambda>(utxoStore, consist).
           bindS (wrapS ''failed to create scanner'' (invoke_scanner_state redisSets stores restClient)) (\<lambda>from.
           retS (utxoStore, consist, from))) w')
      | Some (Err e, w') \<Rightarrow> Some (Err (Wrap ''failed to migrate from chainstate'' e), w')
      | Some (Panic, w') \<Rightarrow> Some (Panic, w'))"

text \<open>
  The blocks the iterator has sent when its goroutines have moved in the order of a list of actions.
\<close>

definition iterate_blocks :: "(bytes \<Rightarrow> int outcome) \<Rightarrow> iter_options \<Rightarrow> node \<Rightarrow> action list \<Rightarrow> string \<Rightarrow> ('w, block list) st" where
  "iterate_blocks GetBlockHeader opts N as startFromBlockHash =
     bindS (liftO (Iterate GetBlockHeader startFromBlockHash)) (\<lambda>it.
     retS (case iter_run opts N as it of Some it' \<Rightarrow> consumed it' | None \<Rightarrow> []))"

text \<open>The goroutine of the scanner, with the state, the iterator and the service it is given.\<close>

definition runUTXOScanner :: "bool \<Rightarrow> 'w utxo_service \<Rightarrow> 'w scanner_state \<Rightarrow> (string \<Rightarrow> ('w, block list) st) \<Rightarrow>
    ('w \<Rightarrow> bool) \<Rightarrow> 'w \<Rightarrow> (unit outcome \<times> 'w) option" where
  "runUTXOScanner enabled utxoStoreService scannerState iterate ctx_done w =
     (if enabled then
        map_option (\<lambda>(r, w'). (wrapO ''failed to start scanner'' r, w'))
          (Start scannerState iterate ctx_done
            (handle_block utxoStoreService (UpdateLastScannedBlockHash scannerState)) w)
      else Some (Ok (), w))"

section \<open>The scanner and the iterator\<close>

lemma scan_follows_node:
  assumes "utxo_backend U D ks ck pend" and "keeps_store ks upd"
    and "store_ok lib (us_dbVer U) (ks (world s))" and "ks (world s) (height_key (us_dbVer U)) = Some (Val (VInt64 h0))"
    and "honest N" and "iter_run opts N as (iter_init h0) = Some it"
    and "chain_fresh (us_dbVer U) (tl (consumed it)) (ks (world s))"
    and "scan_blocks done (handle_block (store_service lib d dec U) upd) (consumed it) s = Some (r, s')"
  defines "new \<equiv> ks (world s')"
  shows "\<exists>bs. (\<forall>i < length bs. block_at N (h0 + 1 + int i) (bs ! i)) \<and> store_ok lib (us_dbVer U) new \<and>
    utxo (us_dbVer U) new = apply_blocks lib d bs (utxo (us_dbVer U) (ks (world s))) \<and>
    new (height_key (us_dbVer U)) = Some (Val (VInt64 (h0 + int (length bs))))"
proof -
  let ?c = "consumed it"
  have at: "block_at N (h0 + int i) (?c ! i)" if "i < length ?c" for i
    using order_inv_run [OF assms(5,6)] that by (auto simp: order_inv_def sent_def nth_append dest: spec [of _ i])
  then have at': "block_at N (h0 + 1 + int i) (tl ?c ! i)" if "i < length (tl ?c)" for i
    using that at [of "Suc i"] by (simp add: nth_tl algebra_simps)
  have f: "?c \<noteq> [] \<longrightarrow> follow h0 (tl ?c)"
  proof
    assume c: "?c \<noteq> []"
    have "h0 + int (length (tl ?c)) < 2 ^ 62" "0 \<le> h0"
      using block_at_height [OF assms(5) at [of "length ?c - 1"]] block_at_height [OF assms(5) at [of 0]] c by auto
    then show "follow h0 (tl ?c)" using block_at_height [OF assms(5) at'] by (simp add: follow_def)
  qed
  show ?thesis
  proof (cases "?c")
    case Nil
    then show ?thesis using assms(3,4,8) by (intro exI [of _ "[]"]) (simp add: new_def apply_blocks_def)
  next
    case (Cons b0 bs)
    have "bh_Height b0 = h0" using block_at_height [OF assms(5) at [of 0]] Cons by simp
    then obtain k where "k \<le> length bs" and k: "reached lib d (us_dbVer U) h0 bs (utxo (us_dbVer U) (ks (world s))) k new"
      using scan_reaches [OF assms(1-4) _ _ _ assms(8), of bs] f assms(7) Cons by (auto simp: new_def reached_def)
    then show ?thesis using at' Cons by (intro exI [of _ "take k bs"]) (auto simp: reached_def)
  qed
qed

section \<open>What the start leaves to the scanner\<close>

text \<open>Requests to the node do not touch the store.\<close>

definition requests_only :: "('w \<Rightarrow> kstate) \<Rightarrow> ('w \<Rightarrow> ckpt_file) \<Rightarrow> 'w store_state rest_client \<Rightarrow> bool" where
  "requests_only ks ck rest \<longleftrightarrow> (\<forall>p s r s'. rest_Do rest p s = (r, s') \<longrightarrow>
     ks (world s') = ks (world s) \<and> ck (world s') = ck (world s))"

lemma request_frame:
  assumes "requests_only ks ck rest" and "Client_GetBlockHash rest i s = (r, s')"
  shows "ks (world s') = ks (world s) \<and> ck (world s') = ck (world s)"
proof -
  let ?I = "\<lambda>x. ks (world x) = ks (world s) \<and> ck (world x) = ck (world s)"
  have "preserves ?I (tryS (rest_Do rest p))" for p
    using assms(1) unfolding preserves_def requests_only_def tryS_def by (fastforce split: prod.splits outcome.splits)
  then have "preserves ?I (Client_GetBlockHash rest i)"
    unfolding Client_GetBlockHash_def callRest_def check_answer_def
    by (intro preserves_bind) (auto split: sum.split outcome.split prod.split option.split)
  from preservesD [OF this assms(2)] show ?thesis by simp
qed

context utxo_backend
begin

lemma stored_hash_read:
  assumes "GetBlockHash U s = (r, s')" and "ks (world s) (hash_key (us_dbVer U)) = Some (Val (VString h))"
  shows "ks (world s') = ks (world s) \<and> ck (world s') = ck (world s) \<and> r \<noteq> Panic \<and>
    (\<forall>x. r = Ok x \<longrightarrow> x = h) \<and> (\<forall>e. r = Err e \<longrightarrow> \<not> errors_is e ErrBlockHashNotFound)"
proof (cases "isConsist s")
  case True
  with assms(1) obtain w' where w: "getBlockHash (base U) (world s) = (r, w')" "s' = s\<lparr>world := w'\<rparr>"
    by (auto simp: GetBlockHash_def guarded_def on_world_iff)
  have "obs ks ck (getBlockHash (base U)) (ks (world s)) (\<lambda>x. x = h) (\<lambda>e. \<not> errors_is e ErrBlockHashNotFound)"
    unfolding getBlockHash_def base_sel
    by (rule obs_bind [OF obs_wrap [OF obs_weaken [OF Get_obs]]])
      (use assms(2) in \<open>auto intro!: obs_ret obs_fail simp: foreign_def split: option.splits\<close>)
  from obsD [OF this refl w(1)] w(2) show ?thesis by simp
qed (use assms(1) in \<open>auto simp: GetBlockHash_def guarded_def\<close>)

end

context versions
begin

lemma invoke_store_spec:
  assumes "invoke_store C stores w = (r, w')" and "version_set {n} (ks w)" and "ck w = NoFile"
  shows "ks w' = ks w \<and> ck w' = NoFile \<and> (\<forall>U c. r = Ok (U, c) \<longrightarrow> U = stores (FormatInt n))"
  using assms(1) unfolding invoke_store_def
proof (cases rule: bindS_cases)
  case (Ok m w1)
  then have "NewUTXOStoreMigrationManager C w = (Ok m, w1)" by (simp add: wrapS_Ok_iff)
  with Initialize_spec [OF this assms(2)] assms(2,3) have "m = man 0" "ks w1 = ks w" "ck w1 = NoFile" by auto
  with open_store_spec [of w1 r w' "{n}"] Ok(2) assms(2) show ?thesis by auto
qed (use assms(2,3) in \<open>auto elim!: wrapS_cases dest!: Initialize_spec\<close>)

lemma scanner_state_spec:
  assumes "invoke_scanner_state C stores rest w = (Ok from, w')" and "version_set {n} (ks w)" and "ck w = NoFile"
    and "requests_only ks ck rest" and "ks w (hash_key (FormatInt n)) = Some (Val (VString h))" and "h \<noteq> ''''"
  shows "ks w' = ks w \<and> ck w' = NoFile \<and> from = h"
proof -
  from assms(1) obtain U c w1 s where "invoke_store C stores w = (Ok (U, c), w1)"
    and s: "InMemoryState_of_store U rest \<lparr>world = w1, isConsist = c\<rparr> = (Ok from, s)" "w' = world s"
    unfolding invoke_scanner_state_def by (auto simp: bindS_Ok_iff wrapS_Ok_iff split: prod.splits) (metis surj_pair)
  with invoke_store_spec [OF this(1) assms(2,3)] have U: "U = stores (FormatInt n)" and w1: "ks w1 = ks w" "ck w1 = NoFile" by auto
  obtain q s1 where q: "GetBlockHash U \<lparr>world = w1, isConsist = c\<rparr> = (q, s1)" by fastforce
  have k: "ks (world \<lparr>world = w1, isConsist = c\<rparr>) (hash_key (FormatInt n)) = Some (Val (VString h))" using assms(5) w1 by simp
  note g = utxo_backend.stored_hash_read [OF backend q [unfolded U], unfolded dbVer, OF k]
  have "\<exists>b s2. q = Ok h \<and> Client_GetBlockHash rest 0 s1 = (Ok b, s2) \<and> from = h \<and> s = s2"
    using s(1) g assms(6) unfolding InMemoryState_of_store_def
    by (cases q) (auto simp: bindS_Ok_iff wrapS_Ok_iff tryS_def failS_def retS_def q split: if_splits)
  then obtain b where "Client_GetBlockHash rest 0 s1 = (Ok b, s)" "from = h" by blast
  with request_frame [OF assms(4) this(1)] g w1 s(2) show ?thesis by simp
qed

end

text \<open>A store is known by the keys of its version.\<close>

lemma store_cong:
  assumes "\<And>k. HasPrefix k (vprefix n) \<Longrightarrow> m' k = m k"
  shows "utxo (FormatInt n) m' = utxo (FormatInt n) m" "store_ok lib (FormatInt n) m' = store_ok lib (FormatInt n) m"
proof -
  have k: "m' (tx_key (FormatInt n) t) = m (tx_key (FormatInt n) t)" "m' (addr_key (FormatInt n) a) = m (addr_key (FormatInt n) a)"
    "m' (hash_key (FormatInt n)) = m (hash_key (FormatInt n))" "m' (height_key (FormatInt n)) = m (height_key (FormatInt n))" for t a
    by (simp_all add: assms keys_of_version)
  have "stored_entry (FormatInt n) m' = stored_entry (FormatInt n) m" by (rule ext) (simp add: stored_entry_def k)
  then show u: "utxo (FormatInt n) m' = utxo (FormatInt n) m" by (simp add: utxo_def)
  show "store_ok lib (FormatInt n) m' = store_ok lib (FormatInt n) m"
    by (simp add: store_ok_def outputs_typed_def index_complete_def block_stored_def holds_set_def members_def k u)
qed

lemma stored_height_ok: "store_ok lib v m \<Longrightarrow> m (height_key v) = Some (Val (VInt64 (stored_height v m)))"
  by (auto simp: store_ok_def block_stored_def stored_height_def)

section \<open>The program follows the node\<close>

text \<open>The store of a version is at a height and set, moved on by blocks of the node.\<close>

definition follows :: "('key, 'addr) btc_lib \<Rightarrow> int \<Rightarrow> node \<Rightarrow> string \<Rightarrow> int \<Rightarrow> utxo_set \<Rightarrow> kstate \<Rightarrow> bool" where
  "follows lib d N ver h0 u m \<longleftrightarrow> (\<exists>bs. (\<forall>i < length bs. block_at N (h0 + 1 + int i) (bs ! i)) \<and> store_ok lib ver m \<and>
     utxo ver m = apply_blocks lib d bs u \<and> m (height_key ver) = Some (Val (VInt64 (h0 + int (length bs)))))"

lemma scanner_follows:
  assumes B: "utxo_backend U D ks ck pend" and U: "us_dbVer U = ver" and ok: "store_ok lib ver (ks w)"
    and b: "b \<noteq> []" "header b = Ok (stored_height ver (ks w))" and "honest N"
    and st: "GetLastScannedBlockHash st = retS (hex_EncodeToString b)" "keeps_store ks (UpdateLastScannedBlockHash st)"
    and it: "iter_run opts N as (iter_init (stored_height ver (ks w))) = Some it"
    and fr: "chain_fresh ver (tl (consumed it)) (ks w)"
    and run: "runUTXOScanner True (store_service lib d dec U) st (iterate_blocks header opts N as) ctx_done
      \<lparr>world = w, isConsist = c\<rparr> = Some (r, s')"
  shows "follows lib d N ver (stored_height ver (ks w)) (utxo ver (ks w)) (ks (world s'))"
proof -
  let ?s = "\<lparr>world = w, isConsist = c\<rparr>"
  have "iterate_blocks header opts N as (hex_EncodeToString b) ?s = (Ok (consumed it), ?s)"
    using b it by (simp add: iterate_blocks_def Iterate_def NewHashFromHEX_def bindS_def liftO_def retS_def)
  with run obtain r' where r': "scan_blocks ctx_done (handle_block (store_service lib d dec U) (UpdateLastScannedBlockHash st)) (consumed it) ?s = Some (r', s')"
    by (auto simp: runUTXOScanner_def Start_def st(1) wrapS_def retS_def)
  have h: "ks (world ?s) (height_key (us_dbVer U)) = Some (Val (VInt64 (stored_height ver (ks w))))"
    using stored_height_ok [OF ok] U by simp
  have "store_ok lib (us_dbVer U) (ks (world ?s))" "chain_fresh (us_dbVer U) (tl (consumed it)) (ks (world ?s))"
    using ok fr U by simp_all
  from scan_follows_node [OF B st(2) this(1) h \<open>honest N\<close> it this(2) r'] show ?thesis by (simp add: follows_def U)
qed

text \<open>The store and the hash the scanner starts from, when a start has left one version.\<close>

lemma start_hands_over:
  assumes "versions C ks ck stores D pend" and "requests_only ks ck rest" and "version_set {n} (ks w)" and "ck w = NoFile"
    and "ks w (hash_key (FormatInt n)) = Some (Val (VString (hex_EncodeToString b)))" and "b \<noteq> []"
    and "bindS (wrapS e1 (invoke_store C stores)) (\<lambda>(U, c). bindS (wrapS e2 (invoke_scanner_state C stores rest)) (\<lambda>from.
      retS (U, c, from))) w = (Ok (U, c, from), w2)"
  shows "ks w2 = ks w \<and> ck w2 = NoFile \<and> U = stores (FormatInt n) \<and> from = hex_EncodeToString b"
proof -
  from assms(7) obtain w1 where i: "invoke_store C stores w = (Ok (U, c), w1)"
    and s: "invoke_scanner_state C stores rest w1 = (Ok from, w2)"
    by (auto simp: bindS_Ok_iff wrapS_Ok_iff retS_Ok_iff)
  note w1 = versions.invoke_store_spec [OF assms(1) i assms(3,4)]
  have "hex_EncodeToString b \<noteq> ''''" using assms(6) hex_roundtrip [of b] by (metis hex_DecodeString.simps(1) outcome.inject(1))
  with versions.scanner_state_spec [OF assms(1) s _ _ assms(2)] w1 assms(3,5) show ?thesis by simp
qed


text \<open>A node whose chain goes one block past the chainstate of the sample; the block spends a coin of it.\<close>

definition next_block :: block where
  "next_block = \<lparr>bh_Hash = [9], bh_NextBlockHash = [], bh_PrevBlockHash = [3, 2], bh_Height = 101,
     bk_Transactions = [\<lparr>bt_ID = ''bb'',
       bt_VIn = [\<lparr>bi_Coinbase = None, bi_SpendingOutput = Some \<lparr>so_TxID = hex_EncodeToString (replicate 32 7), so_VOut = 1\<rparr>\<rparr>],
       bt_VOut = [\<lparr>bo_Value = None, bo_ScriptPubKey = Some \<lparr>spk_Type = ''nonstandard'', spk_HEX = ''0405''\<rparr>\<rparr>]\<rparr>]\<rparr>"

definition next_node :: node where
  "next_node = \<lparr>node_hash = (\<lambda>h hash. (h = 100 \<and> hash = [3, 2]) \<or> (h = 101 \<and> hash = [9])),
     node_block = (\<lambda>hash. if hash = [9] then next_block else chain_block 100 [])\<rparr>"

definition next_moves :: "action list" where
  "next_moves =
    [Header None, Header (Some [3, 2]), Header None, Dispatch, Dispatch, Header None, Header (Some [9]), Header None,
     Dispatch, Dispatch, Worker 1 True, Worker 1 True, Worker 1 True, Worker 1 True,
     Worker 0 True, Worker 0 True, Worker 0 True, Worker 0 True, Consume, Worker 0 True, Consume]"

definition genesis_client :: "sim store_state rest_client" where
  "genesis_client = \<lparr>rest_Do = (\<lambda>m. retS \<lparr>StatusCode = 200, content_type = ''application/json'', Body = Ok []\<rparr>),
     json_info = (\<lambda>b v. (v, None)), json_hash = (\<lambda>b v. ([0], None)), json_block = (\<lambda>b v. (v, None))\<rparr>"

abbreviation sample_program :: "sim \<Rightarrow> (((sim, unit) utxo_store \<times> bool \<times> string) outcome \<times> sim) option" where
  "sample_program \<equiv> start_program sample_lib intset_sets sim_store sample_key sample_chain (\<lambda>b. retS 100) 1 genesis_client"

lemma next_run:
  "map_option consumed (iter_run two_workers next_node next_moves (iter_init 100)) = Some [chain_block 100 [], next_block]"
  by code_simp

abbreviation next_header :: "bytes \<Rightarrow> int outcome" where
  "next_header \<equiv> \<lambda>b. Ok (if b = [5] then 5 else 100)"

abbreviation sample_state :: "string \<Rightarrow> sim store_state scanner_state" where
  "sample_state from \<equiv> \<lparr>GetLastScannedBlockHash = retS from, UpdateLastScannedBlockHash = \<lambda>hash. retS ()\<rparr>"

abbreviation sample_scan :: "(sim, unit) utxo_store \<Rightarrow> bool \<Rightarrow> string \<Rightarrow> sim \<Rightarrow> (unit outcome \<times> sim store_state) option" where
  "sample_scan U c from w \<equiv> runUTXOScanner True (store_service sample_lib 8 (\<lambda>s. Ok []) U) (sample_state from)
     (iterate_blocks next_header two_workers next_node next_moves) (\<lambda>_. False) \<lparr>world = w, isConsist = c\<rparr>"

abbreviation next_handler :: "(sim, unit) utxo_store \<Rightarrow> block \<Rightarrow> (sim store_state, unit) st" where
  "next_handler U \<equiv> handle_block (store_service sample_lib 8 (\<lambda>s. Ok []) U) (\<lambda>h. retS ())"

definition unused_id :: "string \<Rightarrow> (string \<times> (govalue + string list)) list \<Rightarrow> bool" where
  "unused_id t keys \<longleftrightarrow> map_of keys (tx_key ''2'' t) = None \<and>
     list_all (\<lambda>(k, x). case x of Inl _ \<Rightarrow> True | Inr xs \<Rightarrow> t \<notin> set xs) keys"

definition ok_then :: "'a outcome \<times> 'w \<Rightarrow> ('a \<Rightarrow> 'w \<Rightarrow> bool) \<Rightarrow> bool" where
  "ok_then res P = (case res of (Ok a, w) \<Rightarrow> P a w | _ \<Rightarrow> False)"

lemma ok_then_iff: "ok_then res P \<longleftrightarrow> (\<exists>a w. res = (Ok a, w) \<and> P a w)"
  by (auto simp: ok_then_def split: prod.split outcome.split)

lemma sample_program_runs:
  "(case sample_start_up first_start of None \<Rightarrow> False | Some q \<Rightarrow>
      (case sample_program (snd q) of None \<Rightarrow> False | Some p \<Rightarrow>
         ok_then p (\<lambda>(U, c, from) w1. unused_id ''bb'' (sim_keys w1) \<and> from = hex_EncodeToString [3, 2] \<and>
           ok_then (next_handler U (chain_block 100 []) \<lparr>world = w1, isConsist = c\<rparr>) (\<lambda>_ s1.
             ok_then (next_handler U next_block s1) (\<lambda>_ s2. True)))))"
  by code_simp

lemma unused_id_fresh:
  assumes "unused_id t (sim_keys w)"
  shows "sim_ks w (tx_key ''2'' t) = None" "t \<notin> members (sim_ks w) (addr_key ''2'' a)"
proof -
  show "sim_ks w (tx_key ''2'' t) = None" using assms by (simp add: unused_id_def view_def sim_space_def)
  have "t \<notin> set xs" if "map_of (sim_keys w) k = Some (Inr xs)" for k xs
    using assms map_of_SomeD [OF that] by (auto simp: unused_id_def list_all_iff)
  then show "t \<notin> members (sim_ks w) (addr_key ''2'' a)"
    by (auto simp: members_def view_def sim_space_def split: option.splits sum.splits)
qed

lemma scan_two:
  assumes "h b w = (Ok (), w1)" and "h b' w1 = (Ok (), w2)"
  shows "scan_blocks (\<lambda>_. False) h [b, b'] w = Some (Ok (), w2)"
  using attempts_run [OF attempts.success [of "h b", OF assms(1)]] attempts_run [OF attempts.success [of "h b'", OF assms(2)]]
  by (simp add: handled_def)

lemma first_start_ok: "store_ok sample_lib (FormatInt 1) (sim_ks first_start)"
proof -
  have "stored_entry ''1'' (sim_ks first_start) = stored_entry ''1'' Map.empty"
    by (rule ext) (simp add: stored_entry_def first_start_view version_key_def key_String_def new_key_defs)
  then have "pays sample_lib (utxo ''1'' (sim_ks first_start)) a t \<longleftrightarrow> pays sample_lib (utxo ''1'' Map.empty) a t" for a t
    by (simp add: utxo_def)
  then have "\<not> pays sample_lib (utxo ''1'' (sim_ks first_start)) a t" for a t
    by (simp add: utxo_def entries_utxo_def stored_entry_def pays_def)
  then show ?thesis unfolding format_versions
    by (simp add: store_ok_def outputs_typed_def index_complete_def block_stored_def holds_set_def members_def
        first_start_view version_key_def key_String_def new_key_defs)
qed

lemma next_scan:
  assumes "next_handler U (chain_block 100 []) \<lparr>world = w, isConsist = c\<rparr> = (Ok (), s1)" and "next_handler U next_block s1 = (Ok (), s2)"
  shows "sample_scan U c (hex_EncodeToString [3, 2]) w = Some (Ok (), s2)"
proof -
  have "iterate_blocks next_header two_workers next_node next_moves (hex_EncodeToString [3, 2]) s =
      (Ok [chain_block 100 [], next_block], s)" for s :: "sim store_state"
    using next_run by (auto simp: iterate_blocks_def Iterate_def NewHashFromHEX_def bindS_def liftO_def retS_def)
  then show ?thesis using scan_two [where h = "next_handler U", OF assms] by (simp add: runUTXOScanner_def Start_def wrapS_def retS_def)
qed


end
