(* ===== verification/Redis_Counters.thy ===== *)
theory Redis_Counters
  imports Go_Stdlib
begin

text \<open>
  Counters kept in Redis (\<^verbatim>\<open>counters\<close>), on the client and on the pipeline of a transaction. The commands
  of go-redis are parameters: the locale \<open>counter_commands\<close> states what Redis documents of them on the
  client, \<open>queued_commands\<close> what go-redis documents of a pipeline. The locale \<open>counter\<close> is the contract
  of the type itself.
\<close>

section \<open>The code\<close>

record 'w counter_cmdable =
  rc_Get :: "string \<Rightarrow> ('w, string) st"
  rc_Incr :: "string \<Rightarrow> ('w, int) st"
  rc_IncrBy :: "string \<Rightarrow> int \<Rightarrow> ('w, int) st"

text \<open>The \<open>ErrNotFound\<close> of this package.\<close>

definition ErrCounterNotFound :: go_error where
  "ErrCounterNotFound = Msg ''not found''"

record 'w redis_counters =
  ctr_r :: "'w counter_cmdable"

definition NewRedisCounters :: "'w counter_cmdable \<Rightarrow> 'w redis_counters outcome" where
  "NewRedisCounters redisClient = Ok \<lparr>ctr_r = redisClient\<rparr>"

definition RedisCounters_WithTx :: "('tx \<Rightarrow> 'w counter_cmdable) \<Rightarrow> 'tx \<Rightarrow> 'w redis_counters" where
  "RedisCounters_WithTx Transaction tx = \<lparr>ctr_r = Transaction tx\<rparr>"

definition GetCounter :: "'w redis_counters \<Rightarrow> string \<Rightarrow> ('w, int) st" where
  "GetCounter r name =
     bindS (tryS (rc_Get (ctr_r r) name)) (\<lambda>res.
     case res of
       Inl err \<Rightarrow> if errors_is err RedisNil then failS ErrCounterNotFound else failS (Wrap ''failed to get counter'' err)
     | Inr res \<Rightarrow>
         bindS (wrapS ''failed to parse counter'' (liftO (ParseInt res))) (\<lambda>counterVal. retS counterVal))"

definition IncrCounter :: "'w redis_counters \<Rightarrow> string \<Rightarrow> ('w, int) st" where
  "IncrCounter r name =
     bindS (tryS (rc_Incr (ctr_r r) name)) (\<lambda>res.
     case res of
       Inl err \<Rightarrow> if errors_is err RedisNil then failS ErrCounterNotFound else failS (Wrap ''failed to increment counter'' err)
     | Inr newVal \<Rightarrow> retS newVal)"

definition IncrCounterBy :: "'w redis_counters \<Rightarrow> string \<Rightarrow> int \<Rightarrow> ('w, int) st" where
  "IncrCounterBy r name value =
     bindS (tryS (rc_IncrBy (ctr_r r) name value)) (\<lambda>res.
     case res of
       Inl err \<Rightarrow> if errors_is err RedisNil then failS ErrCounterNotFound else failS (Wrap ''failed to increment counter by value'' err)
     | Inr newVal \<Rightarrow> retS newVal)"

lemma ParseInt_no_panic: "ParseInt x \<noteq> Panic"
  by (auto simp: ParseInt_def Let_def split: option.split prod.split)

section \<open>What Redis promises\<close>

text \<open>
  \<open>cs w k\<close> is the string under a key. An increment reads it as a number, absent as 0, stores the sum and
  returns it; it fails without effect when the string is no number or the sum does not fit.
\<close>

definition count_of :: "string option \<Rightarrow> int outcome" where
  "count_of s = (case s of None \<Rightarrow> Ok 0 | Some x \<Rightarrow> ParseInt x)"

locale counter_commands =
  fixes cl :: "'w counter_cmdable" and cs :: "'w \<Rightarrow> string \<Rightarrow> string option"
  assumes Get: "rc_Get cl k w = (r, w') \<Longrightarrow> cs w' = cs w \<and> r \<noteq> Panic \<and> (\<forall>x. r = Ok x \<longrightarrow> cs w k = Some x) \<and>
      (\<forall>e. r = Err e \<longrightarrow> errors_is e RedisNil \<longrightarrow> cs w k = None)"
    and IncrBy: "rc_IncrBy cl k n w = (q, w') \<Longrightarrow> int64_range n \<Longrightarrow> q \<noteq> Panic \<and>
      (\<forall>m. q = Ok m \<longrightarrow> (\<exists>c. count_of (cs w k) = Ok c \<and> m = c + n \<and> int64_range m \<and> cs w' = (cs w)(k \<mapsto> FormatInt m))) \<and>
      (\<forall>e. q = Err e \<longrightarrow> \<not> errors_is e RedisNil \<and> cs w' = cs w)"
    and Incr: "rc_Incr cl k w = rc_IncrBy cl k 1 w"

text \<open>A pipeline queues a command and returns its reply without a value, whatever the server holds.\<close>

locale queued_commands =
  fixes p :: "'w counter_cmdable"
  assumes q_Get: "\<exists>w'. rc_Get p k w = (Ok '''', w')"
    and q_Incr: "\<exists>w'. rc_Incr p k w = (Ok 0, w')"
    and q_IncrBy: "\<exists>w'. rc_IncrBy p k n w = (Ok 0, w')"

section \<open>The contract of a counter\<close>

text \<open>Increments by a list of values, up to the first that fails.\<close>

fun adds :: "(string \<Rightarrow> int \<Rightarrow> ('w, int) st) \<Rightarrow> string \<Rightarrow> int list \<Rightarrow> ('w, int) st" where
  "adds add k [] = retS 0"
| "adds add k [n] = add k n"
| "adds add k (n # ns) = bindS (add k n) (\<lambda>_. adds add k ns)"

text \<open>\<open>val w k\<close>: the number under a key, \<open>None\<close> when there is none.\<close>

locale counter =
  fixes get :: "string \<Rightarrow> ('w, int) st" and add :: "string \<Rightarrow> int \<Rightarrow> ('w, int) st" and val :: "'w \<Rightarrow> string \<Rightarrow> int option"
  assumes get: "get k w = (Ok n, w') \<Longrightarrow> val w k = Some n \<and> val w' = val w"
    and add: "add k n w = (r, w') \<Longrightarrow> int64_range n \<Longrightarrow> (\<forall>j. j \<noteq> k \<longrightarrow> val w' j = val w j) \<and>
      (case r of Ok m \<Rightarrow> val w' k = Some m \<and> m = (case val w k of None \<Rightarrow> 0 | Some c \<Rightarrow> c) + n | _ \<Rightarrow> val w' = val w)"
begin

lemma adds_sum:
  assumes "adds add k ns w = (Ok m, w')" and "ns \<noteq> []" and "\<forall>n \<in> set ns. int64_range n"
  shows "val w' k = Some m \<and> m = (case val w k of None \<Rightarrow> 0 | Some c \<Rightarrow> c) + sum_list ns \<and>
    (\<forall>j. j \<noteq> k \<longrightarrow> val w' j = val w j)"
  using assms
proof (induction ns arbitrary: w)
  case step: (Cons n ns)
  show ?case
  proof (cases ns)
    case Nil
    then show ?thesis using step.prems add [of k n w "Ok m" w'] by simp
  next
    case (Cons n' ns')
    then obtain a w1 where a: "add k n w = (Ok a, w1)" and r: "adds add k ns w1 = (Ok m, w')"
      using step.prems(1) by (auto simp: bindS_Ok_iff)
    from step.IH [OF r] Cons add [OF a] step.prems(3) show ?thesis by simp
  qed
qed simp

lemma get_after_add:
  assumes "add k n w = (Ok m, w1)" and "int64_range n" and "get k w1 = (Ok c, w2)"
  shows "c = m"
  using add [OF assms(1,2)] get [OF assms(3)] by simp

end

text \<open>The number a string stands for.\<close>

definition number_at :: "string option \<Rightarrow> int option" where
  "number_at s = (case s of None \<Rightarrow> None | Some x \<Rightarrow> (case ParseInt x of Ok n \<Rightarrow> Some n | _ \<Rightarrow> None))"

context counter_commands
begin

lemma GetCounter_spec:
  assumes "GetCounter \<lparr>ctr_r = cl\<rparr> k w = (r, w')"
  shows "cs w' = cs w \<and> r \<noteq> Panic \<and> (\<forall>n. r = Ok n \<longrightarrow> number_at (cs w k) = Some n) \<and>
    (r = Err ErrCounterNotFound \<longrightarrow> cs w k = None)"
proof -
  obtain q w1 where g: "rc_Get cl k w = (q, w1)" by fastforce
  then show ?thesis using assms Get [OF g]
    by (cases q; cases "ParseInt (case q of Ok x \<Rightarrow> x | _ \<Rightarrow> '''')")
      (auto simp: GetCounter_def bindS_def tryS_def wrapS_def liftO_def failS_def retS_def ErrCounterNotFound_def
        number_at_def ParseInt_no_panic split: if_splits)
qed

lemma IncrCounterBy_spec:
  assumes "IncrCounterBy \<lparr>ctr_r = cl\<rparr> k n w = (r, w')" and "int64_range n"
  shows "(\<forall>m. r = Ok m \<longrightarrow> (\<exists>c. count_of (cs w k) = Ok c \<and> m = c + n \<and> int64_range m \<and> cs w' = (cs w)(k \<mapsto> FormatInt m))) \<and>
    r \<noteq> Panic \<and> (\<forall>e. r = Err e \<longrightarrow> e \<noteq> ErrCounterNotFound \<and> cs w' = cs w)"
proof -
  obtain q w1 where g: "rc_IncrBy cl k n w = (q, w1)" by fastforce
  then show ?thesis using assms IncrBy [OF g assms(2)]
    by (cases q) (auto simp: IncrCounterBy_def bindS_def tryS_def failS_def retS_def ErrCounterNotFound_def)
qed

lemma IncrCounter_is_by_one: "fst (IncrCounter \<lparr>ctr_r = cl\<rparr> k w) = Ok m \<longleftrightarrow> fst (IncrCounterBy \<lparr>ctr_r = cl\<rparr> k 1 w) = Ok m"
  by (auto simp: IncrCounter_def IncrCounterBy_def Incr bindS_def tryS_def failS_def retS_def split: prod.splits outcome.splits)

end

sublocale counter_commands \<subseteq> numbers: counter "GetCounter \<lparr>ctr_r = cl\<rparr>" "IncrCounterBy \<lparr>ctr_r = cl\<rparr>" "\<lambda>w k. number_at (cs w k)"
proof (unfold_locales, goal_cases)
  case (1 k w n w')
  from GetCounter_spec [OF this] show ?case by simp
next
  case (2 k n w r w')
  from IncrCounterBy_spec [OF 2] show ?case
    by (cases r) (auto simp: number_at_def count_of_def ParseInt_FormatInt split: option.splits)
qed

context counter_commands
begin

lemma sum_of_increments:
  assumes "adds (IncrCounterBy \<lparr>ctr_r = cl\<rparr>) k ns w = (Ok m, w1)" and "ns \<noteq> []" and "\<forall>n \<in> set ns. int64_range n"
    and "GetCounter \<lparr>ctr_r = cl\<rparr> k w1 = (Ok c, w2)"
  shows "c = m \<and> m = (case number_at (cs w k) of None \<Rightarrow> 0 | Some c0 \<Rightarrow> c0) + sum_list ns \<and>
    (\<forall>j. j \<noteq> k \<longrightarrow> number_at (cs w2 j) = number_at (cs w j))"
  using numbers.adds_sum [OF assms(1-3)] numbers.get [OF assms(4)] by (simp add: fun_eq_iff)

end

section \<open>An executable server\<close>

record csim =
  cs_keys :: "(string \<times> string) list"
  cs_faults :: "bool list"

definition csim_op :: "(csim, 'a) st \<Rightarrow> (csim, 'a) st" where
  "csim_op f = (\<lambda>w. case cs_faults w of
       [] \<Rightarrow> f w
     | b # bs \<Rightarrow> if b then (Err (Foreign ''connection lost''), w\<lparr>cs_faults := bs\<rparr>) else f (w\<lparr>cs_faults := bs\<rparr>))"

definition csim_IncrBy :: "string \<Rightarrow> int \<Rightarrow> (csim, int) st" where
  "csim_IncrBy k n = csim_op (\<lambda>w. case count_of (map_of (cs_keys w) k) of
       Ok c \<Rightarrow> if int64_range (c + n) then (Ok (c + n), w\<lparr>cs_keys := AList.update k (FormatInt (c + n)) (cs_keys w)\<rparr>)
               else (Err (Foreign ''ERR increment or decrement would overflow''), w)
     | _ \<Rightarrow> (Err (Foreign ''ERR value is not an integer or out of range''), w))"

definition csim_client :: "csim counter_cmdable" where
  "csim_client = \<lparr>rc_Get = (\<lambda>k. csim_op (\<lambda>w. (case map_of (cs_keys w) k of None \<Rightarrow> Err RedisNil | Some x \<Rightarrow> Ok x, w))),
     rc_Incr = (\<lambda>k. csim_IncrBy k 1), rc_IncrBy = csim_IncrBy\<rparr>"

definition csim_pipe :: "unit \<Rightarrow> csim counter_cmdable" where
  "csim_pipe tx = \<lparr>rc_Get = (\<lambda>k. retS ''''), rc_Incr = (\<lambda>k. retS 0), rc_IncrBy = (\<lambda>k n. retS 0)\<rparr>"

interpretation csim: counter_commands csim_client "\<lambda>w. map_of (cs_keys w)"
proof (unfold_locales, goal_cases)
  case (1 k w r w')
  then show ?case by (auto simp: csim_client_def csim_op_def split: list.splits if_splits option.splits)
next
  case (2 k n w q w')
  then show ?case
    by (auto simp: csim_client_def csim_IncrBy_def csim_op_def update_conv' split: list.splits if_splits outcome.splits)
qed (simp add: csim_client_def)

interpretation csim_tx: queued_commands "csim_pipe tx" for tx
  by unfold_locales (simp_all add: csim_pipe_def retS_def)

section \<open>The counters\<close>

text \<open>
  A counter is the sum of its increments. After a series of increments that succeed the last result,
  and any later reading, is the value before plus their sum; no other counter changes.
\<close>

theorem counter_sums:
  assumes "counter_commands cl cs" and "adds (IncrCounterBy \<lparr>ctr_r = cl\<rparr>) k ns w = (Ok m, w1)"
    and "ns \<noteq> []" and "\<forall>n \<in> set ns. int64_range n" and "GetCounter \<lparr>ctr_r = cl\<rparr> k w1 = (Ok c, w2)"
  shows "c = m \<and> m = (case number_at (cs w k) of None \<Rightarrow> 0 | Some c0 \<Rightarrow> c0) + sum_list ns \<and>
    (\<forall>j. j \<noteq> k \<longrightarrow> number_at (cs w2 j) = number_at (cs w j))"
  using assms by (rule counter_commands.sum_of_increments)

theorem counter_sums_witness:
  "\<exists>w1 w2. adds (IncrCounterBy \<lparr>ctr_r = csim_client\<rparr>) ''c'' [5, -2] \<lparr>cs_keys = [(''c'', ''7'')], cs_faults = []\<rparr> = (Ok 10, w1) \<and>
     GetCounter \<lparr>ctr_r = csim_client\<rparr> ''c'' w1 = (Ok 10, w2)"
proof -
  let ?w = "\<lparr>cs_keys = [(''c'', ''7'')], cs_faults = []\<rparr>" and ?r = "\<lparr>ctr_r = csim_client\<rparr>"
  have e: "case adds (IncrCounterBy ?r) ''c'' [5, -2] ?w of (q, w1) \<Rightarrow>
      (case q of Ok m \<Rightarrow> fst (GetCounter ?r ''c'' w1) = Ok 10 | _ \<Rightarrow> False)"
    by code_simp
  obtain m w1 where a: "adds (IncrCounterBy ?r) ''c'' [5, -2] ?w = (Ok m, w1)" and g: "fst (GetCounter ?r ''c'' w1) = Ok 10"
    using e by (auto split: prod.splits outcome.splits)
  obtain w2 where g2: "GetCounter ?r ''c'' w1 = (Ok 10, w2)" using g by (metis prod.collapse)
  from counter_sums [OF csim.counter_commands_axioms a _ _ g2] have "m = 10" by (simp add: int64_range_def)
  with a g2 show ?thesis by blast
qed

text \<open>
  In a transaction the counters do not work: an increment reports 0 whatever the counter is, and a
  reading fails, since the string of a queued command is empty and no number.
\<close>

theorem counters_in_transaction:
  assumes "queued_commands (Transaction tx)"
  shows "(\<exists>w'. GetCounter (RedisCounters_WithTx Transaction tx) k w =
      (Err (Wrap ''failed to parse counter'' (Foreign ''strconv: invalid syntax'')), w')) \<and>
    (\<exists>w'. IncrCounter (RedisCounters_WithTx Transaction tx) k w = (Ok 0, w')) \<and>
    (\<exists>w'. IncrCounterBy (RedisCounters_WithTx Transaction tx) k n w = (Ok 0, w'))"
proof -
  obtain w1 w2 w3 where q: "rc_Get (Transaction tx) k w = (Ok '''', w1)" "rc_Incr (Transaction tx) k w = (Ok 0, w2)"
    "rc_IncrBy (Transaction tx) k n w = (Ok 0, w3)"
    using queued_commands.q_Get [OF assms, of k w] queued_commands.q_Incr [OF assms, of k w]
      queued_commands.q_IncrBy [OF assms, of k n w] by blast
  then show ?thesis
    by (simp add: GetCounter_def IncrCounter_def IncrCounterBy_def RedisCounters_WithTx_def bindS_def tryS_def retS_def
        wrapS_def liftO_def ParseInt_def parse_magnitude_def)
qed

theorem counters_in_transaction_witness:
  "fst (GetCounter (RedisCounters_WithTx csim_pipe ()) ''c'' \<lparr>cs_keys = [(''c'', ''7'')], cs_faults = []\<rparr>) =
     Err (Wrap ''failed to parse counter'' (Foreign ''strconv: invalid syntax''))"
  using counters_in_transaction [of csim_pipe "()" "''c''" "\<lparr>cs_keys = [(''c'', ''7'')], cs_faults = []\<rparr>" 0]
    csim_tx.queued_commands_axioms by auto

end
