(* ===== verification/Config_Loader.thy ===== *)
theory Config_Loader
  imports Program_Config
begin

text \<open>
  Where the configuration comes from (\<^verbatim>\<open>config/loader.go\<close> and \<open>NewConfig\<close> of \<^verbatim>\<open>di/di.go\<close>): a file, then the
  variables of the environment over it. The libraries koanf, mergo and strcase are parameters; the
  locale \<open>documented_loader\<close> states what their documentation says of them.
\<close>

section \<open>The package strings\<close>

text \<open>\<open>Split(s, sep)\<close> for a separator that is not empty.\<close>

function strings_Split :: "string \<Rightarrow> string \<Rightarrow> string list" where
  "strings_Split s sep =
     (if sep \<noteq> [] \<and> HasPrefix s sep then [] # strings_Split (drop (length sep) s) sep
      else case s of [] \<Rightarrow> [[]]
        | c # r \<Rightarrow> (case strings_Split r sep of [] \<Rightarrow> [[c]] | x # xs \<Rightarrow> (c # x) # xs))"
  by pat_completeness auto
termination
  by (relation "measure (length \<circ> fst)") (auto simp: HasPrefix_iff)

declare strings_Split.simps [simp del]

fun strings_Join :: "string list \<Rightarrow> string \<Rightarrow> string" where
  "strings_Join [] sep = []"
| "strings_Join [x] sep = x"
| "strings_Join (x # xs) sep = x @ sep @ strings_Join xs sep"

definition strings_TrimPrefix :: "string \<Rightarrow> string \<Rightarrow> string" where
  "strings_TrimPrefix s p = (if HasPrefix s p then drop (length p) s else s)"

section \<open>The loader\<close>

definition Delimiter :: string where "Delimiter = ''__''"
definition EnvPrefix :: string where "EnvPrefix = ''SERVICE__''"

text \<open>
  The libraries: what \<open>koanf.New\<close> holds, what loading a file adds to it, what the provider of the
  environment reads for a prefix, a delimiter and a callback, and how \<open>mergo\<close> puts it over the rest.
\<close>

record ('m, 'c) loader_api =
  koanf_New :: 'm
  koanf_LoadFile :: "string \<Rightarrow> 'm \<Rightarrow> 'm outcome"
  env_Provider :: "string \<Rightarrow> string \<Rightarrow> (string \<Rightarrow> string) \<Rightarrow> 'm outcome"
  mergo_Merge :: "'m \<Rightarrow> 'm \<Rightarrow> 'm outcome"
  koanf_Unmarshal :: "'m \<Rightarrow> 'c outcome"
  ToLowerCamel :: "string \<Rightarrow> string"

text \<open>The callback: from the name of a variable to the path of its key.\<close>

definition env_key :: "(string \<Rightarrow> string) \<Rightarrow> string \<Rightarrow> string" where
  "env_key toLowerCamel s = strings_Join (List.map toLowerCamel (strings_Split (strings_TrimPrefix s EnvPrefix) Delimiter)) Delimiter"

definition LoadServiceConfig :: "('m, 'c) loader_api \<Rightarrow> ('c \<Rightarrow> unit outcome) \<Rightarrow> string \<Rightarrow> 'c outcome" where
  "LoadServiceConfig api validate filePath =
     bindO (if 0 < length filePath
            then wrapO (''failed to read config with path '' @ filePath) (koanf_LoadFile api filePath (koanf_New api))
            else Ok (koanf_New api)) (\<lambda>k.
     bindO (wrapO ''failed to read environment variables''
              (bindO (env_Provider api EnvPrefix Delimiter (env_key (ToLowerCamel api))) (\<lambda>src. mergo_Merge api k src))) (\<lambda>k.
     bindO (wrapO ''failed to unmarshal config'' (koanf_Unmarshal api k)) (\<lambda>config.
     bindO (wrapO ''failed to validate config'' (validate config)) (\<lambda>_. Ok config))))"

text \<open>The constructor of the program; \<open>Getenv\<close> gives the empty string for a variable that is not set.\<close>

definition NewConfig :: "(string \<Rightarrow> string) \<Rightarrow> ('m, config) loader_api \<Rightarrow> validation \<Rightarrow> config outcome" where
  "NewConfig Getenv api V =
     (let configFilePathFromEnv = Getenv ''CONFIG_FILE'';
          configFilePath = (if configFilePathFromEnv \<noteq> '''' then configFilePathFromEnv else ''config/config.yml'') in
      wrapO ''error loading config'' (LoadServiceConfig api (Validate V) configFilePath))"

section \<open>Names and paths\<close>

text \<open>A part of a name: nothing in it or at its end is taken for the delimiter.\<close>

definition name_part :: "string \<Rightarrow> bool" where
  "name_part a \<longleftrightarrow> (\<forall>i < length a. take 2 (drop i a @ ''_'') \<noteq> ''__'')"

lemma name_part_Cons: "name_part (c # a) \<Longrightarrow> name_part a \<and> take 2 (c # a @ ''_'') \<noteq> ''__''"
  unfolding name_part_def by (metis Cons_eq_appendI Suc_less_eq drop0 drop_Suc_Cons length_Cons zero_less_Suc)

lemma no_underscore_part: "CHR ''_'' \<notin> set a \<Longrightarrow> name_part a"
  unfolding name_part_def
proof (intro allI impI)
  fix i assume "CHR ''_'' \<notin> set a" "i < length a"
  then obtain c r where "drop i a = c # r" "c \<noteq> CHR ''_''" by (metis Cons_nth_drop_Suc nth_mem)
  then show "take 2 (drop i a @ ''_'') \<noteq> ''__''" by (simp add: numeral_2_eq_2)
qed

lemma Split_part: "name_part a \<Longrightarrow> strings_Split a Delimiter = [a]"
proof (induction a)
  case Nil
  show ?case by (simp add: strings_Split.simps Delimiter_def HasPrefix_def)
next
  case (Cons c a)
  note n = name_part_Cons [OF Cons.prems]
  have "\<not> HasPrefix (c # a) ''__''" using n by (cases a) (auto simp: HasPrefix_def numeral_2_eq_2)
  with Cons.IH n show ?case by (simp add: strings_Split.simps [of "c # a"] Delimiter_def)
qed

lemma Split_step: "name_part a \<Longrightarrow> strings_Split (a @ Delimiter @ r) Delimiter = a # strings_Split r Delimiter"
proof (induction a)
  case Nil
  show ?case using strings_Split.simps [of "''__'' @ r" "''__''"] by (simp add: Delimiter_def HasPrefix_def)
next
  case (Cons c a)
  note n = name_part_Cons [OF Cons.prems]
  have "\<not> HasPrefix (c # a @ ''__'' @ r) ''__''"
    using n by (cases a) (auto simp: HasPrefix_def numeral_2_eq_2)
  with Cons.IH n show ?case by (simp add: strings_Split.simps [of "c # a @ _"] Delimiter_def)
qed

lemma Split_Join:
  assumes "xs \<noteq> []" and "\<forall>x \<in> set xs. name_part x"
  shows "strings_Split (strings_Join xs Delimiter) Delimiter = xs"
  using assms
proof (induction xs Delimiter rule: strings_Join.induct)
  case (3 x y xs)
  then show ?case using Split_step by simp
qed (simp_all add: Split_part)

text \<open>The variable of a path of names.\<close>

definition env_name :: "string list \<Rightarrow> string" where
  "env_name parts = EnvPrefix @ strings_Join parts Delimiter"

lemma env_key_name:
  assumes "parts \<noteq> []" and "\<forall>x \<in> set parts. name_part x"
  shows "env_key f (env_name parts) = strings_Join (List.map f parts) Delimiter"
proof -
  have "strings_TrimPrefix (env_name parts) EnvPrefix = strings_Join parts Delimiter"
    by (simp add: strings_TrimPrefix_def env_name_def HasPrefix_def)
  then show ?thesis by (simp add: env_key_def Split_Join [OF assms])
qed

section \<open>What the libraries promise\<close>

text \<open>
  \<open>at m p\<close> is the string a configuration has at a path. Two paths are related when one leads to the other.
  The provider puts the value of each variable with the prefix at the path its key is split into; \<open>mergo\<close>
  with \<open>WithOverride\<close> takes every value of the source that is not empty, and keeps what the source has
  nothing for.
\<close>

definition related :: "string list \<Rightarrow> string list \<Rightarrow> bool" where
  "related p q \<longleftrightarrow> take (length p) q = p \<or> take (length q) p = q"

lemma related_refl [simp]: "related p p"
  by (simp add: related_def)

definition var_path :: "(string \<Rightarrow> string) \<Rightarrow> string \<Rightarrow> string list" where
  "var_path f n = strings_Split (env_key f n) Delimiter"

definition only_at :: "(string \<Rightarrow> string) \<Rightarrow> (string \<times> string) list \<Rightarrow> string list \<Rightarrow> (string \<times> string) list" where
  "only_at f env p = filter (\<lambda>(n, v). HasPrefix n EnvPrefix \<and> related (var_path f n) p) env"

locale documented_loader =
  fixes api :: "('m, 'c) loader_api" and environment :: "(string \<times> string) list" and at :: "'m \<Rightarrow> string list \<Rightarrow> string option"
  assumes env_one: "env_Provider api EnvPrefix Delimiter (env_key (ToLowerCamel api)) = Ok m \<Longrightarrow>
      only_at (ToLowerCamel api) environment p = [(n, v)] \<Longrightarrow> var_path (ToLowerCamel api) n = p \<Longrightarrow> at m p = Some v"
    and env_none: "env_Provider api EnvPrefix Delimiter (env_key (ToLowerCamel api)) = Ok m \<Longrightarrow>
      only_at (ToLowerCamel api) environment p = [] \<Longrightarrow> related q p \<Longrightarrow> at m q = None"
    and merge_value: "mergo_Merge api dest src = Ok m \<Longrightarrow> at src p = Some v \<Longrightarrow> v \<noteq> '''' \<Longrightarrow> at m p = Some v"
    and merge_none: "mergo_Merge api dest src = Ok m \<Longrightarrow> (\<And>q. related q p \<Longrightarrow> at src q = None) \<Longrightarrow> at m p = at dest p"
    and camel: "CHR ''_'' \<notin> set (ToLowerCamel api s)"
begin

lemma var_path_name:
  assumes "parts \<noteq> []" and "\<forall>x \<in> set parts. name_part x"
  shows "var_path (ToLowerCamel api) (env_name parts) = List.map (ToLowerCamel api) parts"
  using assms(1) unfolding var_path_def env_key_name [OF assms]
  by (intro Split_Join) (auto intro!: no_underscore_part simp: camel)

lemma loaded:
  assumes "LoadServiceConfig api validate filePath = Ok config"
  obtains f e k where "(if filePath = '''' then Ok (koanf_New api) else koanf_LoadFile api filePath (koanf_New api)) = Ok f"
    "env_Provider api EnvPrefix Delimiter (env_key (ToLowerCamel api)) = Ok e" "mergo_Merge api f e = Ok k"
    "koanf_Unmarshal api k = Ok config" "validate config = Ok ()"
  using assms by (auto simp: LoadServiceConfig_def bindO_Ok_iff wrapO_Ok_iff split: if_splits)

lemma loaded_from:
  assumes "LoadServiceConfig api validate filePath = Ok config" and "filePath \<noteq> ''''"
  shows "validate config = Ok () \<and> (\<exists>f k. koanf_LoadFile api filePath (koanf_New api) = Ok f \<and> koanf_Unmarshal api k = Ok config \<and>
    (\<forall>parts v. parts \<noteq> [] \<longrightarrow> (\<forall>x \<in> set parts. name_part x) \<longrightarrow> v \<noteq> '''' \<longrightarrow>
       only_at (ToLowerCamel api) environment (List.map (ToLowerCamel api) parts) = [(env_name parts, v)] \<longrightarrow>
       at k (List.map (ToLowerCamel api) parts) = Some v) \<and>
    (\<forall>p. only_at (ToLowerCamel api) environment p = [] \<longrightarrow> at k p = at f p))"
proof -
  from assms(1) obtain f e k where k: "(if filePath = '''' then Ok (koanf_New api) else koanf_LoadFile api filePath (koanf_New api)) = Ok f"
    "env_Provider api EnvPrefix Delimiter (env_key (ToLowerCamel api)) = Ok e"
    "mergo_Merge api f e = Ok k" "koanf_Unmarshal api k = Ok config" "validate config = Ok ()" by (rule loaded)
  have "at k p = at f p" if "only_at (ToLowerCamel api) environment p = []" for p
    by (rule merge_none [OF k(3)]) (rule env_none [OF k(2) that])
  then show ?thesis using k assms(2) merge_value [OF k(3) env_one [OF k(2) _ var_path_name]] by auto
qed

end

section \<open>An executable instance\<close>

text \<open>A configuration is a list of paths with their values; the callback of the instance drops underscores.\<close>

definition sample_environment :: "(string \<times> string) list" where
  "sample_environment = [(''HOME'', ''/root''), (env_name [''redis_host''], ''db:6379''), (env_name [''scanner'', ''enabled''], ''true'')]"

definition sample_api :: "((string list \<times> string) list, (string list \<times> string) list) loader_api" where
  "sample_api = \<lparr>koanf_New = [], koanf_LoadFile = (\<lambda>p m. Ok ([([''name''], ''indexer''), ([''redishost''], ''localhost:6379'')] @ m)),
     env_Provider = (\<lambda>prefix delim cb. Ok (List.map (\<lambda>(n, v). (strings_Split (cb n) delim, v))
       (filter (\<lambda>(n, v). HasPrefix n prefix) sample_environment))),
     mergo_Merge = (\<lambda>dest src. Ok (filter (\<lambda>(p, v). v \<noteq> '''') src @ dest)), koanf_Unmarshal = Ok,
     ToLowerCamel = filter (\<lambda>c. c \<noteq> CHR ''_'')\<rparr>"

lemma map_of_filter_value: "map_of m p = Some v \<Longrightarrow> P v \<Longrightarrow> map_of (filter (\<lambda>(p, v). P v) m) p = Some v"
  by (induction m) (auto split: if_splits)

interpretation sample_loader: documented_loader sample_api sample_environment map_of
proof (unfold_locales, goal_cases)
  case (1 m p n v)
  let ?f = "ToLowerCamel sample_api"
  have m: "m = List.map (\<lambda>(n, v). (var_path ?f n, v)) (filter (\<lambda>(n, v). HasPrefix n EnvPrefix) sample_environment)"
    using 1(1) by (simp add: sample_api_def var_path_def)
  have "map_of (List.map (\<lambda>(n, v). (var_path ?f n, v)) (filter (\<lambda>(n, v). HasPrefix n EnvPrefix) env)) p = Some v"
    if "only_at ?f env p = [(n, v)]" for env
    using that 1(3)
  proof (induction env)
    case (Cons x env)
    then show ?case by (cases x) (auto simp: only_at_def split: if_splits)
  qed (simp add: only_at_def)
  with 1(2) m show ?case by simp
next
  case (2 m p q)
  then show ?case
    by (auto simp: sample_api_def only_at_def filter_empty_conv map_of_eq_None_iff var_path_def)
next
  case (3 dest src m p v)
  then show ?case using map_of_filter_value [of src p v "\<lambda>v. v \<noteq> ''''"] by (auto simp: sample_api_def)
next
  case (4 dest src m p)
  from 4(2) [of p] have "map_of (filter (\<lambda>(p, v). v \<noteq> '''') src) p = None" by (auto simp: map_of_eq_None_iff)
  with 4(1) show ?case by (auto simp: sample_api_def map_add_def)
qed (simp add: sample_api_def)

section \<open>The environment over the file\<close>

text \<open>
  C40: the value a program is configured with. A variable \<open>SERVICE__A__B\<close> that is set decides the key
  \<open>a.b\<close>, whatever the file says, when no other variable is on that path; without one, the key is as in the
  file. The configuration that is returned has passed its validation.
\<close>

theorem environment_overrides:
  assumes "documented_loader api environment at" and "LoadServiceConfig api validate filePath = Ok config" and "filePath \<noteq> ''''"
  shows "validate config = Ok () \<and> (\<exists>f k. koanf_LoadFile api filePath (koanf_New api) = Ok f \<and> koanf_Unmarshal api k = Ok config \<and>
    (\<forall>parts v. parts \<noteq> [] \<longrightarrow> (\<forall>x \<in> set parts. name_part x) \<longrightarrow> v \<noteq> '''' \<longrightarrow>
       only_at (ToLowerCamel api) environment (List.map (ToLowerCamel api) parts) = [(env_name parts, v)] \<longrightarrow>
       at k (List.map (ToLowerCamel api) parts) = Some v) \<and>
    (\<forall>p. only_at (ToLowerCamel api) environment p = [] \<longrightarrow> at k p = at f p))"
  using assms by (rule documented_loader.loaded_from)

theorem environment_overrides_witness:
  "\<exists>c. LoadServiceConfig sample_api (\<lambda>c. Ok ()) ''config/config.yml'' = Ok c \<and>
     map_of c [''redishost''] = Some ''db:6379'' \<and> map_of c [''name''] = Some ''indexer''"
proof -
  let ?c = "\<lambda>c. Ok ()" and ?f = "ToLowerCamel sample_api"
  obtain c where c: "LoadServiceConfig sample_api ?c ''config/config.yml'' = Ok c"
    by (simp add: LoadServiceConfig_def sample_api_def)
  have e: "only_at ?f sample_environment (List.map ?f [''redis_host'']) = [(env_name [''redis_host''], ''db:6379'')]"
    "only_at ?f sample_environment [''name''] = []" "List.map ?f [''redis_host''] = [''redishost'']" by code_simp+
  have n: "name_part ''redis_host''" by (auto simp: name_part_def less_Suc_eq numeral_2_eq_2 eval_nat_numeral)
  from environment_overrides [OF sample_loader.documented_loader_axioms c] obtain k f where
    "koanf_LoadFile sample_api ''config/config.yml'' (koanf_New sample_api) = Ok f" "koanf_Unmarshal sample_api k = Ok c"
    and v: "\<And>parts v. parts \<noteq> [] \<Longrightarrow> \<forall>x \<in> set parts. name_part x \<Longrightarrow> v \<noteq> '''' \<Longrightarrow>
       only_at ?f sample_environment (List.map ?f parts) = [(env_name parts, v)] \<Longrightarrow> map_of k (List.map ?f parts) = Some v"
    and u: "\<And>p. only_at ?f sample_environment p = [] \<Longrightarrow> map_of k p = map_of f p" by blast
  moreover from this(1,2) have "f = [([''name''], ''indexer''), ([''redishost''], ''localhost:6379'')]" "k = c"
    by (simp_all add: sample_api_def)
  ultimately show ?thesis using c v [of "[''redis_host'']" "''db:6379''"] u [of "[''name'']"] e n by simp
qed

end
