(* ===== verification/Process_End.thy ===== *)
theory Process_End
  imports Prelude
begin

text \<open>
  How the program ends: the group of closers (\<^verbatim>\<open>shutdown/shutdown.go\<close>), and the last part of \<open>main\<close>
  (\<^verbatim>\<open>cmd/utxo-indexer/main.go\<close>), where a goroutine shuts the containers down after the context that
  \<open>main\<close> cancels when it returns.
\<close>

section \<open>The group of closers\<close>

text \<open>A \<open>Shutdownable\<close> is its method.\<close>

definition NewShutdownFromCloseableNoError :: "('w \<Rightarrow> 'w) \<Rightarrow> ('w, unit) st" where
  "NewShutdownFromCloseableNoError Close = (\<lambda>w. (Ok (), Close w))"

definition NewShutdownFromCloseable :: "('w, unit) st \<Rightarrow> ('w, unit) st" where
  "NewShutdownFromCloseable Close = Close"

text \<open>
  \<open>errgroup\<close> runs every function in a goroutine of its own; \<open>Wait\<close> returns after all of them, with the error
  that came first. The functions are listed in the order they finish.
\<close>

fun group_Wait :: "('w, unit) st list \<Rightarrow> go_error option \<Rightarrow> ('w, unit) st" where
  "group_Wait [] err = (case err of None \<Rightarrow> retS () | Some e \<Rightarrow> failS e)"
| "group_Wait (f # fs) err =
     bindS (tryS f) (\<lambda>res. group_Wait fs (case err of Some e \<Rightarrow> Some e | None \<Rightarrow> (case res of Inl e \<Rightarrow> Some e | Inr _ \<Rightarrow> None)))"

text \<open>\<open>order\<close> is the order in which the closers of the list finish.\<close>

definition Shutdowner_Shutdown :: "nat list \<Rightarrow> ('w, unit) st list \<Rightarrow> ('w, unit) st" where
  "Shutdowner_Shutdown order toShutdown = group_Wait (List.map ((!) toShutdown) order) None"

definition NewShutdowner :: "('w, unit) st \<Rightarrow> ('w, unit) st \<Rightarrow> ('w, unit) st list" where
  "NewShutdowner kafkaSyncProducer redisClient = [NewShutdownFromCloseable kafkaSyncProducer, NewShutdownFromCloseable redisClient]"

text \<open>A closer closes its resource, also when it reports an error, and opens no other.\<close>

locale closers =
  fixes cs :: "('w, unit) st list" and closed :: "nat \<Rightarrow> 'w \<Rightarrow> bool"
  assumes close: "i < length cs \<Longrightarrow> (cs ! i) w = (r, w') \<Longrightarrow> r \<noteq> Panic \<and> closed i w' \<and> (\<forall>j. closed j w \<longrightarrow> closed j w')"
begin

lemma group_closes:
  assumes "group_Wait (List.map ((!) cs) is) err w = (r, w')" and "set is \<subseteq> {..<length cs}"
  shows "r \<noteq> Panic \<and> (\<forall>j. closed j w \<or> j \<in> set is \<longrightarrow> closed j w') \<and>
    (\<forall>e. err = Some e \<longrightarrow> r = Err e) \<and> (err = None \<longrightarrow> (\<forall>e. r = Err e \<longrightarrow> (\<exists>i \<in> set is. \<exists>w1 w2. (cs ! i) w1 = (Err e, w2)))) \<and>
    (err = None \<longrightarrow> r = Ok () \<longrightarrow> (\<forall>i \<in> set is. \<exists>w1 w2. (cs ! i) w1 = (Ok (), w2)))"
  using assms
proof (induction "is" arbitrary: err w)
  case Nil
  then show ?case by (auto simp: retS_def failS_def split: option.splits)
next
  case (Cons i "is")
  obtain q w1 where q: "(cs ! i) w = (q, w1)" by fastforce
  from Cons.prems(2) close [OF _ q] have c: "q \<noteq> Panic" "closed i w1" "\<forall>j. closed j w \<longrightarrow> closed j w1" by auto
  let ?err = "case err of Some e \<Rightarrow> Some e | None \<Rightarrow> (case q of Err e \<Rightarrow> Some e | _ \<Rightarrow> None)"
  have g: "group_Wait (List.map ((!) cs) is) ?err w1 = (r, w')"
    using Cons.prems(1) c(1) by (cases q) (auto simp: bindS_def tryS_def q split: option.splits)
  have "set is \<subseteq> {..<length cs}" using Cons.prems(2) by simp
  from Cons.IH [OF g this] c show ?case by (cases q; cases err) (use q in auto)
qed

end

text \<open>Two resources that are flags; the second reports an error.\<close>

definition flag_closers :: "(bool \<times> bool, unit) st list" where
  "flag_closers = NewShutdowner (\<lambda>(a, b). (Ok (), (True, b))) (\<lambda>(a, b). (Err (Foreign ''redis: client is closed''), (a, True)))"

interpretation flag_closers: closers flag_closers "\<lambda>i (a, b). if i = 0 then a else b"
proof (unfold_locales, goal_cases)
  case (1 i w r w')
  then show ?case
    by (cases w; cases i) (auto simp: flag_closers_def NewShutdowner_def NewShutdownFromCloseable_def nth_Cons' split: if_splits)
qed

text \<open>
  A shutdown closes everything: whatever the order in which the closers finish and whichever fail,
  after it every resource is closed, the error is one that a closer returned, and no error means that
  all succeeded.
\<close>

theorem shutdown_closes_all:
  assumes "closers cs closed" and "distinct order" and "set order = {..<length cs}" and "Shutdowner_Shutdown order cs w = (r, w')"
  shows "r \<noteq> Panic \<and> (\<forall>i < length cs. closed i w') \<and>
    (\<forall>e. r = Err e \<longrightarrow> (\<exists>i < length cs. \<exists>w1 w2. (cs ! i) w1 = (Err e, w2))) \<and>
    (r = Ok () \<longrightarrow> (\<forall>i < length cs. \<exists>w1 w2. (cs ! i) w1 = (Ok (), w2)))"
  using closers.group_closes [OF assms(1), of order None w r w'] assms(3,4)
  by (auto simp: Shutdowner_Shutdown_def)

theorem shutdown_closes_all_witness:
  "Shutdowner_Shutdown [1, 0] flag_closers (False, False) = (Err (Foreign ''redis: client is closed''), (True, True))"
proof -
  let ?r = "Shutdowner_Shutdown [1, 0] flag_closers (False, False)"
  have f: "fst ?r = Err (Foreign ''redis: client is closed'')" by code_simp
  have "distinct [1, 0::nat]" "set [1, 0] = {..<length flag_closers}" by (auto simp: flag_closers_def NewShutdowner_def)
  from shutdown_closes_all [OF flag_closers.closers_axioms this, of "(False, False)" "fst ?r" "snd ?r"]
  have "\<forall>i < length flag_closers. case snd ?r of (a, b) \<Rightarrow> if i = 0 then a else b" by simp
  then have "snd ?r = (True, True)" by (cases "snd ?r") (auto simp: flag_closers_def NewShutdowner_def)
  with f show ?thesis by (metis prod.collapse)
qed

section \<open>The end of main\<close>

text \<open>
  \<open>main\<close> waits for a signal in \<open>ShutdownOnSIGTERM\<close>, which shuts the main container down; then it returns,
  which runs the deferred \<open>cancel\<close>, and the process exits. The goroutine waits for the context, shuts the
  containers of the scanner, of \<open>main\<close> and of the service down in turn, and exits. \<open>logger.Fatal\<close> exits at
  once, without what is deferred. \<open>shut c\<close> is the error of the container, if any.
\<close>

datatype container = mainContainer | scannerContainer | utxoContainer

datatype main_pc = OnSignal | Deferred | Returned
datatype exit_code = Running | Exit nat

record process =
  pr_main :: main_pc
  pr_ctx_done :: bool
  pr_todo :: "container list"
  pr_shut :: "container list"
  pr_exit :: exit_code

definition start_process :: process where
  "start_process = \<lparr>pr_main = OnSignal, pr_ctx_done = False, pr_todo = [scannerContainer, mainContainer, utxoContainer],
     pr_shut = [], pr_exit = Running\<rparr>"

definition shut_down :: "(container \<Rightarrow> go_error option) \<Rightarrow> container \<Rightarrow> process \<Rightarrow> process" where
  "shut_down shut c p = (let p = p\<lparr>pr_shut := pr_shut p @ [c]\<rparr> in
     case shut c of None \<Rightarrow> p | Some e \<Rightarrow> p\<lparr>pr_exit := Exit 1\<rparr>)"

definition main_step :: "(container \<Rightarrow> go_error option) \<Rightarrow> process \<Rightarrow> process option" where
  "main_step shut p =
     (if pr_exit p \<noteq> Running then None
      else case pr_main p of
        OnSignal \<Rightarrow> Some (shut_down shut mainContainer p\<lparr>pr_main := Deferred\<rparr>)
      | Deferred \<Rightarrow> Some (p\<lparr>pr_ctx_done := True, pr_main := Returned\<rparr>)
      | Returned \<Rightarrow> Some (p\<lparr>pr_exit := Exit 0\<rparr>))"

definition cleanup_step :: "(container \<Rightarrow> go_error option) \<Rightarrow> process \<Rightarrow> process option" where
  "cleanup_step shut p =
     (if pr_exit p \<noteq> Running \<or> \<not> pr_ctx_done p then None
      else case pr_todo p of
        [] \<Rightarrow> Some (p\<lparr>pr_exit := Exit 0\<rparr>)
      | c # cs \<Rightarrow> Some (shut_down shut c (p\<lparr>pr_todo := cs\<rparr>)))"

inductive ends :: "(container \<Rightarrow> go_error option) \<Rightarrow> process \<Rightarrow> process \<Rightarrow> bool" for shut where
  stay: "ends shut p p"
| main: "ends shut p q \<Longrightarrow> main_step shut q = Some q' \<Longrightarrow> ends shut p q'"
| cleanup: "ends shut p q \<Longrightarrow> cleanup_step shut q = Some q' \<Longrightarrow> ends shut p q'"

text \<open>The containers the goroutine has left to shut down, and those that are.\<close>

definition todo_inv :: "container list \<Rightarrow> container set \<Rightarrow> bool" where
  "todo_inv todo S \<longleftrightarrow> (\<exists>n \<le> 3. todo = drop n [scannerContainer, mainContainer, utxoContainer] \<and>
     insert mainContainer S = insert mainContainer (set (take n [scannerContainer, mainContainer, utxoContainer])))"

lemma todo_inv_main: "todo_inv todo S \<Longrightarrow> todo_inv todo (insert mainContainer S)"
  by (simp add: todo_inv_def)

lemma todo_inv_next:
  assumes "todo_inv (c # cs) S"
  shows "todo_inv cs (insert c S)"
proof -
  from assms obtain n where n: "n \<le> 3" "c # cs = drop n [scannerContainer, mainContainer, utxoContainer]"
    "insert mainContainer S = insert mainContainer (set (take n [scannerContainer, mainContainer, utxoContainer]))"
    by (auto simp: todo_inv_def)
  have e: "insert mainContainer (insert c S) = insert c (insert mainContainer (set (take n [scannerContainer, mainContainer, utxoContainer])))"
    using n(3) by (metis insert_commute)
  from n(1) consider "n = 0" | "n = 1" | "n = 2" | "n = 3" by linarith
  then have "cs = drop (Suc n) [scannerContainer, mainContainer, utxoContainer] \<and> Suc n \<le> 3 \<and>
      insert mainContainer (insert c S) = insert mainContainer (set (take (Suc n) [scannerContainer, mainContainer, utxoContainer]))"
    using n(2) unfolding e by cases auto
  then show ?thesis unfolding todo_inv_def by blast
qed

lemma todo_inv_order:
  assumes "todo_inv todo S" and "utxoContainer \<in> S"
  shows "scannerContainer \<in> S"
proof -
  from assms(1) obtain n where n: "n \<le> 3"
    "insert mainContainer S = insert mainContainer (set (take n [scannerContainer, mainContainer, utxoContainer]))"
    by (auto simp: todo_inv_def)
  from n(1) consider "n = 0" | "n = 1" | "n = 2" | "n = 3" by linarith
  then show ?thesis using n(2) assms(2) by cases (auto simp: set_eq_iff)
qed

text \<open>What holds at every moment: the goroutine runs only after \<open>main\<close> has shut its container down.\<close>

definition process_inv :: "process \<Rightarrow> bool" where
  "process_inv p \<longleftrightarrow> (pr_ctx_done p \<longleftrightarrow> pr_main p = Returned) \<and> (pr_main p = OnSignal \<longrightarrow> pr_exit p = Running \<and> pr_shut p = []) \<and>
     (pr_main p \<noteq> OnSignal \<longrightarrow> mainContainer \<in> set (pr_shut p)) \<and>
     todo_inv (pr_todo p) (set (pr_shut p)) \<and>
     (pr_exit p = Exit 0 \<longrightarrow> pr_main p = Returned)"

lemma process_inv_main:
  assumes "process_inv p" and "main_step shut p = Some q"
  shows "process_inv q"
proof (cases "pr_main p")
  case OnSignal
  then show ?thesis using assms todo_inv_main [of "pr_todo p" "set (pr_shut p)"]
    by (cases "shut mainContainer") (auto simp: process_inv_def main_step_def shut_down_def)
next
  case Deferred
  then show ?thesis using assms by (auto simp: process_inv_def main_step_def split: if_splits)
next
  case Returned
  then show ?thesis using assms by (auto simp: process_inv_def main_step_def split: if_splits)
qed

lemma process_inv_cleanup:
  assumes "process_inv p" and "cleanup_step shut p = Some q"
  shows "process_inv q"
proof (cases "pr_todo p")
  case Nil
  then show ?thesis using assms by (auto simp: process_inv_def cleanup_step_def split: if_splits)
next
  case (Cons c cs)
  have t: "todo_inv cs (insert c (set (pr_shut p)))" using assms(1) Cons by (auto simp: process_inv_def intro: todo_inv_next)
  show ?thesis
  proof (cases "shut c")
    case None
    then show ?thesis using assms Cons t by (auto simp: process_inv_def cleanup_step_def shut_down_def split: if_splits)
  next
    case (Some e)
    then show ?thesis using assms Cons t by (auto simp: process_inv_def cleanup_step_def shut_down_def split: if_splits)
  qed
qed

lemma ends_inv: "ends shut p q \<Longrightarrow> process_inv p \<Longrightarrow> process_inv q"
  by (induction rule: ends.induct) (auto intro: process_inv_main process_inv_cleanup)

lemma start_inv: "process_inv start_process"
  by (auto simp: process_inv_def start_process_def todo_inv_def intro: exI [of _ 0])

text \<open>
  C39: \<open>main\<close> does not wait for the goroutine that cleans up. An exit without an error has shut the container
  of \<open>main\<close> down, and the service's only after the scanner's; but although no container fails, the
  process can exit with the containers of the scanner and the service still open.
\<close>

theorem exit_skips_cleanup:
  "(\<forall>p. ends shut start_process p \<longrightarrow> pr_exit p = Exit 0 \<longrightarrow> mainContainer \<in> set (pr_shut p)) \<and>
   (\<forall>p. ends shut start_process p \<longrightarrow> utxoContainer \<in> set (pr_shut p) \<longrightarrow> scannerContainer \<in> set (pr_shut p)) \<and>
   (shut mainContainer = None \<longrightarrow>
     (\<exists>p. ends shut start_process p \<and> pr_exit p = Exit 0 \<and> pr_shut p = [mainContainer]))"
proof (intro conjI allI impI)
  fix p assume e: "ends shut start_process p"
  from ends_inv [OF e start_inv] have i: "process_inv p" .
  then show "mainContainer \<in> set (pr_shut p)" if "pr_exit p = Exit 0" using that by (auto simp: process_inv_def)
  from i show "scannerContainer \<in> set (pr_shut p)" if "utxoContainer \<in> set (pr_shut p)"
    using that todo_inv_order by (auto simp: process_inv_def)
next
  assume m: "shut mainContainer = None"
  let ?p1 = "start_process\<lparr>pr_main := Deferred, pr_shut := [mainContainer]\<rparr>"
  let ?p2 = "?p1\<lparr>pr_ctx_done := True, pr_main := Returned\<rparr>"
  have "main_step shut start_process = Some ?p1" "main_step shut ?p1 = Some ?p2" "main_step shut ?p2 = Some (?p2\<lparr>pr_exit := Exit 0\<rparr>)"
    by (simp_all add: main_step_def shut_down_def start_process_def m)
  then have "ends shut start_process (?p2\<lparr>pr_exit := Exit 0\<rparr>)" by (meson ends.intros)
  then show "\<exists>p. ends shut start_process p \<and> pr_exit p = Exit 0 \<and> pr_shut p = [mainContainer]" by force
qed

theorem exit_skips_cleanup_witness:
  "\<exists>p. ends (\<lambda>c. None) start_process p \<and> pr_exit p = Exit 0 \<and> scannerContainer \<notin> set (pr_shut p) \<and>
     utxoContainer \<notin> set (pr_shut p)"
  using exit_skips_cleanup [of "\<lambda>c. None"] by force

end
