(* ===== verification/Spec2Isabelle.thy ===== *)
theory Spec2Isabelle
  imports Spending_Properties Service_Properties Migration_Correct Version_Cleanup Iterator_Correct Redis_Driver
    Scanner_Correct Node_Client Program_Config Command_Line Node_Values LevelDB_Store
    Concurrent_Query Program_Run Redis_Counters Config_Loader Process_End
begin

text \<open>
  A verification development of a Bitcoin UTXO indexer (\<^verbatim>\<open>bitcoin-utxo-indexer\<close>, Go).

  \<^bold>\<open>The program.\<close> \<^verbatim>\<open>cmd/utxo-indexer\<close> keeps the set of unspent outputs of a Bitcoin node in Redis, with an
  index by address, and answers balances and outputs over gRPC. It starts from the chainstate database
  of the node (the migration), then follows its blocks: an iterator downloads them from the REST
  interface of the node in parallel and puts them in order, a scanner hands each to the service and
  repeats it until it succeeds, the service computes a checkpoint (what the block adds, spends and
  dereferences) and the store commits it: checkpoint file first, then one transaction over Redis, then
  the file is removed. At its start the store repairs what an interrupted commit left. Versions of the
  database let a new migration run beside the old data, which is deleted afterwards.

  \<^bold>\<open>The theories\<close>, from the bottom; paths are under \<^verbatim>\<open>src/internal/pkg\<close> where nothing else is said.

  \<^item> \<open>Prelude\<close>: outcomes of Go calls (a value, an error, a panic), state passing with early return,
    errors and their wrapping (\<open>errors_is\<close>), 64 bit integers (\<open>wrap64\<close>), slices, maps as lists.
    \<open>Go_Stdlib\<close>: hexadecimal and decimal text, splitting.
  \<^item> \<open>Vlq\<close>, \<open>Amounts\<close>, \<open>Scripts\<close>: \<^verbatim>\<open>bitcoincore/bitcoincorecompression\<close> and \<^verbatim>\<open>utxocompression\<close>: the
    codings on words and byte lists, with reference definitions over naturals, round trips, buffer
    bounds and panics.
  \<^item> \<open>Utxo_Types\<close>, \<open>Store_Keys\<close>: stored outputs, checkpoints and keys (\<^verbatim>\<open>utxo/utxostore/types.go\<close>,
    \<^verbatim>\<open>checkpoint.go\<close>, \<^verbatim>\<open>key.go\<close>). \<open>Blockchain\<close>, \<open>Node_Values\<close>: the data of the node
    (\<^verbatim>\<open>universalbitcioin/blockchain\<close>, \<^verbatim>\<open>bigjson\<close>).
  \<^item> \<open>Store_Interfaces\<close>: the interfaces \<^verbatim>\<open>keyvaluestore\<close>, \<^verbatim>\<open>sets\<close>, \<^verbatim>\<open>txmanager\<close> and the checkpoint store as
    records of operations, their promises as the locales \<open>kv_laws\<close>, \<open>sets_laws\<close>, \<open>tx_laws\<close> and
    \<open>checkpoint_laws\<close> over an abstract key space. \<open>Tx_Manager\<close>: \<open>Do\<close> over any driver.
  \<^item> Providers: \<open>Redis_Store\<close> (\<^verbatim>\<open>rediskvstore\<close>, \<^verbatim>\<open>redissets\<close>), \<open>Redis_Driver\<close> (\<^verbatim>\<open>drivers/redis\<close>),
    \<open>Checkpoint_Store\<close>, \<open>Memory_Store\<close> (\<^verbatim>\<open>inmemorykvstore\<close>, \<^verbatim>\<open>inmemorytx\<close>), \<open>LevelDB_Store\<close>
    (\<^verbatim>\<open>leveldbkvstore\<close>, \<^verbatim>\<open>leveldbtx\<close>). Their sublocales show that each keeps the laws of its interface
    from what Redis, go-redis, goleveldb and the file system document. \<open>Deployment\<close> joins them the
    way \<^verbatim>\<open>di/di.go\<close> does and interprets every locale on an executable server with faults.
  \<^item> \<open>Utxo_Store\<close>: every operation of \<^verbatim>\<open>utxostore.go\<close>; \<open>Utxo_Recovery\<close>, \<open>Store_Properties\<close>: the commit
    protocol, its atomicity and the repair after a crash.
  \<^item> \<open>Utxo_Spending\<close>: from a block to its checkpoint (\<^verbatim>\<open>utxospending.go\<close>); \<open>Spending_Correct\<close> with the
    reference \<open>apply_block\<close>, \<open>Address_Index\<close> with the invariant of the index, \<open>Address_Query\<close>,
    \<open>Spending_Properties\<close> with chains of blocks, crashes and restarts.
  \<^item> \<open>Utxo_Service\<close>: \<^verbatim>\<open>utxo/service\<close>, the handlers of \<^verbatim>\<open>utxo/transport/grpc\<close>, \<^verbatim>\<open>blockchainscanner\<close> and the block
    handler of \<^verbatim>\<open>cmd/utxo-indexer/main.go\<close>; \<open>Service_Properties\<close>, \<open>Scanner_Correct\<close>, and \<open>Concurrent_Query\<close>
    for a query whose two reads have a commit between them.
  \<^item> \<open>Blocks_Iterator\<close>, \<open>Iterator_Correct\<close>: \<^verbatim>\<open>bitcoinblocksiterator\<close> and \<^verbatim>\<open>semaphore\<close>, every goroutine a
    machine, every interleaving a list of actions.
  \<^item> \<open>Node_Client\<close>: \<^verbatim>\<open>universalbitcioin/restclient\<close>, \<^verbatim>\<open>bitcoinconfig\<close>, \<^verbatim>\<open>blockchaininfo\<close> and where the scanner
    starts. \<open>Program_Config\<close>, \<open>Config_Loader\<close>: \<^verbatim>\<open>src/config\<close> and \<open>NewConfig\<close> of \<^verbatim>\<open>di/di.go\<close>.
  \<^item> \<open>Chainstate\<close>: the reader of the chainstate (\<^verbatim>\<open>bitcoincore/chainstate\<close>, \<^verbatim>\<open>bitcoincore/utxo\<close>);
    \<open>Chainstate_Migration\<close>, \<open>Migration_Correct\<close>: \<^verbatim>\<open>chainstatemigration\<close>; \<open>Command_Line\<close>:
    \<^verbatim>\<open>cmd/chainstate-cli\<close>.
  \<^item> \<open>Database_Versions\<close>, \<open>Version_Cleanup\<close>: \<^verbatim>\<open>migrationmanager\<close>, the migration and the cleanup of
    \<^verbatim>\<open>cmd/utxo-indexer/main.go\<close>; \<open>Program_Start\<close> with any number of starts that fail anywhere, \<open>Program_Run\<close>
    with \<open>main\<close> from its start to the blocks of the node, \<open>Process_End\<close> with its end and \<^verbatim>\<open>shutdown\<close>.
  \<^item> \<open>Redis_Counters\<close>: \<^verbatim>\<open>counters\<close>.

  \<^bold>\<open>How code is modelled.\<close> A function of Go is a definition with its name (with a prefix where another
  package has the same name). Calls of the outside take a world and return the new one; the mutable
  fields of an object are a record passed along. Structs are records, pointers that may be nil are
  options. Integers are words where the code shifts and masks them, and integers with \<open>wrap64\<close> where it
  counts. Code outside the repository (txscript and btcutil, go-redis, msgpack, goleveldb, the HTTP
  client and JSON, ozzo-validation) is a parameter; what it documents is a locale, and each locale is
  interpreted on an executable instance.

  \<^bold>\<open>What the lemmas show.\<close> \<open>program_follows_node\<close> is about the program as a whole: its starts, some of which
  fail or crash, the version of the database they leave, and the scan that follows the node from it. It
  rests on \<open>startup_switches\<close> and on \<open>scan_follows_node\<close>. \<open>indexer_follows_chain\<close> and \<open>chainstate_to_tip\<close>
  below join the components of a running store: after any run, with lost answers, crashes and restarts,
  the store holds the outputs of the chain up to its height and its index is complete. They rest on the refinement of \<open>apply_block\<close> by the checkpoint of a
  block (\<open>block_refinement\<close>), the commit protocol (\<open>CommitCheckpoint_atomic\<close>, \<open>block_crash_recovery\<close>),
  the order of the iterator (\<open>iterator_in_order\<close>) and the migration (\<open>migration_resumes\<close>). Other
  groups: queries are exact, codings round trip, every provider keeps its interface, and the faults
  that modelling found, each with its theorem: repairs that leave the store unusable, a driver that
  executes half a transaction, a cancellation that panics, answers of the node that are lost, an
  interrupted cleanup that mixes two states of the chainstate, an exit that does not wait.

  \<^bold>\<open>Termination and fuel.\<close> No definition uses fuel. Loops that end are functions with a measure. Loops that
  may run forever are partial functions into option, where \<open>None\<close> is a run without end: the retries of
  the scanner (\<open>handle_until_done\<close>) and of the migration (\<open>retry_batch\<close>), the cleanup of versions
  (\<open>delete_loop\<close>, which \<open>versions_cleanup\<close> shows to end) and the renewal of the node's information
  (\<open>sync_round\<close>). The iterator is a step function over lists of actions of any length.

  \<^bold>\<open>Not modelled.\<close> Logging, telemetry, the listeners of the API, tickers that only print and waiting times:
  they change no state the theorems speak of. The constructors of \<^verbatim>\<open>di\<close> and \<^verbatim>\<open>app\<close> that only fetch their
  arguments from a container, and what they wrap around its errors. \<^verbatim>\<open>redisdebughooks\<close>, \<^verbatim>\<open>logger\<close> and
  \<^verbatim>\<open>encoding\<close>: one call of a library each. The code generated by protoc. Of the concurrency, the API
  handlers are taken one at a time, beside the scanner only for the reads of a query; the goroutine of a
  Redis transaction is taken to end as soon as the transaction is closed. The model of an amount of the
  node is its decimal number, not the bits of \<open>big.Float\<close>; \<open>GetAmountFloat64\<close> and
  \<open>NewAmountValueFromString\<close>, which nothing calls with a result the store keeps, are left out.
\<close>

section \<open>From the chainstate to the tip\<close>



section \<open>From the node to the store\<close>

text \<open>
  C4: the iterator, the scanner and the store together. Whatever the order of the downloads, the
  failures of the commands and the cancellation, after a scan from the stored block the store holds the
  chain of the node up to its height: the blocks the node gave for the heights after the stored one,
  each applied once and in order.
\<close>

theorem indexer_follows_chain:
  assumes "utxo_backend U D ks ck pend" and "keeps_store ks upd"
    and "store_ok lib (us_dbVer U) (ks (world s))" and "ks (world s) (height_key (us_dbVer U)) = Some (Val (VInt64 h0))"
    and "honest N" and "iter_run opts N as (iter_init h0) = Some it"
    and "chain_fresh (us_dbVer U) (tl (consumed it)) (ks (world s))"
    and "scan_blocks done (handle_block (store_service lib d dec U) upd) (consumed it) s = Some (r, s')"
  defines "new \<equiv> ks (world s')"
  shows "\<exists>bs. (\<forall>i < length bs. block_at N (h0 + 1 + int i) (bs ! i)) \<and> store_ok lib (us_dbVer U) new \<and>
    utxo (us_dbVer U) new = apply_blocks lib d bs (utxo (us_dbVer U) (ks (world s))) \<and>
    new (height_key (us_dbVer U)) = Some (Val (VInt64 (h0 + int (length bs))))"
  unfolding new_def using assms(1-8) by (rule scan_follows_node)

text \<open>The node has the block the store starts from and one more.\<close>

definition short_node :: node where
  "short_node = \<lparr>node_hash = (\<lambda>h hash. (h = 0 \<and> hash = []) \<or> (h = 1 \<and> hash = [1])),
     node_block = (\<lambda>hash. if hash = [] then chain_block 0 [] else sample_block)\<rparr>"

lemma short_node_run:
  "map_option consumed (iter_run two_workers short_node racing (iter_init 0)) = Some [chain_block 0 [], sample_block]"
  by code_simp

lemma short_node_scan:
  "\<exists>s'. scan_blocks (\<lambda>_. False) sample_handler [chain_block 0 [], sample_block] (sample_start []) = Some (Ok (), s')"
proof -
  have e: "fst (sample_handler (chain_block 0 []) (sample_start [])) = Ok ()"
    "fst (sample_handler sample_block (snd (sample_handler (chain_block 0 []) (sample_start [])))) = Ok ()"
    by code_simp+
  obtain s1 where s1: "sample_handler (chain_block 0 []) (sample_start []) = (Ok (), s1)" using e(1) by (metis prod.collapse)
  then obtain s2 where s2: "sample_handler sample_block s1 = (Ok (), s2)" using e(2) by (metis prod.collapse snd_conv)
  from attempts_run [OF attempts.success [of "sample_handler (chain_block 0 [])", OF s1]]
    attempts_run [OF attempts.success [of "sample_handler sample_block", OF s2]] show ?thesis
    by (simp add: handled_def)
qed

theorem indexer_follows_chain_witness:
  "\<exists>s' bs. scan_blocks (\<lambda>_. False) sample_handler [chain_block 0 [], sample_block] (sample_start []) = Some (Ok (), s') \<and>
     utxo ''1'' (sim_ks (world s')) = apply_blocks sample_lib 8 bs (utxo ''1'' (sim_ks (block_world [])))"
proof -
  obtain it where it: "iter_run two_workers short_node racing (iter_init 0) = Some it" "consumed it = [chain_block 0 [], sample_block]"
    using short_node_run by auto
  obtain s' where s': "scan_blocks (\<lambda>_. False) sample_handler [chain_block 0 [], sample_block] (sample_start []) = Some (Ok (), s')"
    using short_node_scan by blast
  have k: "keeps_store sim_ks (\<lambda>h. retS ())" by (simp add: keeps_store_def retS_def)
  have n: "honest short_node" by (auto simp: honest_def short_node_def chain_block_def sample_block_def)
  have ver: "us_dbVer (sim_store ''1'') = ''1''" by simp
  have h: "sim_ks (world (sample_start [])) (height_key (us_dbVer (sim_store ''1''))) = Some (Val (VInt64 0))"
    unfolding ver by (simp add: block_world_def view_def sim_space_def)
  have ok: "store_ok sample_lib (us_dbVer (sim_store ''1'')) (sim_ks (world (sample_start [])))"
    unfolding ver using sample_store_ok [of "[]"] by simp
  have f: "chain_fresh (us_dbVer (sim_store ''1'')) (tl (consumed it)) (sim_ks (world (sample_start [])))"
    unfolding ver it(2) using sample_fresh [of "[]"] sample_distinct by (simp add: chain_fresh_def)
  from indexer_follows_chain [OF sim_backend k ok h n it(1) f s' [folded it(2)]]
  obtain bs where "utxo ''1'' (sim_ks (world s')) = apply_blocks sample_lib 8 bs (utxo ''1'' (sim_ks (world (sample_start []))))"
    unfolding ver by blast
  then show ?thesis using s' unfolding store_state.simps by blast
qed

end
